(* ===== verification/Prelude.thy ===== *)
theory Prelude
  imports Main "HOL-Library.AList" "HOL-Library.List_Lexorder" "HOL-Library.Char_ord"
    "HOL-Library.Sublist" "HOL-Library.Product_Lexorder" "HOL-Library.Multiset"
begin

text \<open>
  What every component of the model shares: Python exceptions as values, insertion-ordered
  dictionaries as association lists, the slices and sorts the tools use, and the rule
  collections the component proofs draw on.  Strings are compared by code point
  (\<open>List_Lexorder\<close> over \<open>Char_ord\<close>), which is Python's order on \<open>str\<close>.
\<close>

named_theorems py_simps "evaluation rules of the Python operations the tools use"
named_theorems verdict_simps "how each oracle step changes the counters of an outcome"

section \<open>Exceptions\<close>

text \<open>
  The exceptions the modelled code can raise.  \<open>SystemExit\<close> is \<open>sys.exit(message)\<close>; the
  other constructors carry what identifies the failure.
\<close>

datatype exn =
    KeyError string
  | IndexError
  | TypeError
  | ValueError string
  | JSONDecodeError
  | UnicodeError
  | AttributeError
  | AssertionError string
  | FileNotFound string
  | ZeroDivisionError
  | CalledProcessError int
  | SystemExit string

type_synonym 'a res = "exn + 'a"

definition ok :: "'a \<Rightarrow> 'a res" where
  "ok x = Inr x"

definition bindr :: "'a res \<Rightarrow> ('a \<Rightarrow> 'b res) \<Rightarrow> 'b res" where
  "bindr m f = (case m of Inl e \<Rightarrow> Inl e | Inr x \<Rightarrow> f x)"

lemma bindr_simps [simp]:
  "bindr (Inl e) f = Inl e"
  "bindr (Inr x) f = f x"
  by (simp_all add: bindr_def)

lemma bindr_Inr_iff: "bindr m f = Inr y \<longleftrightarrow> (\<exists>x. m = Inr x \<and> f x = Inr y)"
  by (cases m) auto

lemma bindr_assoc: "bindr (bindr m f) g = bindr m (\<lambda>x. bindr (f x) g)"
  by (cases m) auto

lemma bindr_cong [fundef_cong]:
  "m = m' \<Longrightarrow> (\<And>x. m' = Inr x \<Longrightarrow> f x = f' x) \<Longrightarrow> bindr m f = bindr m' f'"
  by (cases m') auto

text \<open>A \<open>for\<close> loop whose body can raise: the first exception ends it.\<close>

fun mapr :: "('a \<Rightarrow> 'b res) \<Rightarrow> 'a list \<Rightarrow> 'b list res" where
  "mapr f [] = Inr []"
| "mapr f (x # xs) = bindr (f x) (\<lambda>y. bindr (mapr f xs) (\<lambda>ys. Inr (y # ys)))"

fun foldr_res :: "('a \<Rightarrow> 's \<Rightarrow> 's res) \<Rightarrow> 'a list \<Rightarrow> 's \<Rightarrow> 's res" where
  "foldr_res f [] s = Inr s"
| "foldr_res f (x # xs) s = bindr (f x s) (foldr_res f xs)"

lemma mapr_Inr_length: "mapr f xs = Inr ys \<Longrightarrow> length ys = length xs"
  by (induction xs arbitrary: ys) (auto simp: bindr_Inr_iff)

lemma mapr_Inr_iff: "mapr f xs = Inr ys \<longleftrightarrow> list_all2 (\<lambda>x y. f x = Inr y) xs ys"
  by (induction xs arbitrary: ys) (auto simp: bindr_Inr_iff list_all2_Cons1)

lemma mapr_total: "(\<And>x. x \<in> set xs \<Longrightarrow> f x = Inr (g x)) \<Longrightarrow> mapr f xs = Inr (map g xs)"
  by (induction xs) auto

lemma foldr_res_append:
  "foldr_res f (xs @ ys) s = bindr (foldr_res f xs s) (foldr_res f ys)"
proof (induction xs arbitrary: s)
  case (Cons x xs)
  have "foldr_res f (xs @ ys) = (\<lambda>s. bindr (foldr_res f xs s) (foldr_res f ys))"
    using Cons.IH by (rule ext)
  then show ?case by (simp add: bindr_assoc)
qed simp

section \<open>Dictionaries\<close>

text \<open>
  A Python dictionary keeps insertion order and replaces a value in place; both are what
  \<open>AList.update\<close> does on an association list with distinct keys.
\<close>

type_synonym ('k, 'v) dict = "('k \<times> 'v) list"

abbreviation dget :: "('k, 'v) dict \<Rightarrow> 'k \<Rightarrow> 'v option" where
  "dget \<equiv> map_of"

abbreviation dset :: "'k \<Rightarrow> 'v \<Rightarrow> ('k, 'v) dict \<Rightarrow> ('k, 'v) dict" where
  "dset \<equiv> AList.update"

definition dkeys :: "('k, 'v) dict \<Rightarrow> 'k list" where
  "dkeys d = map fst d"

definition dindex :: "(string, 'v) dict \<Rightarrow> string \<Rightarrow> 'v res" where
  \<comment> \<open>\<open>d[k]\<close>\<close>
  "dindex d k = (case dget d k of None \<Rightarrow> Inl (KeyError k) | Some v \<Rightarrow> Inr v)"

lemma dget_dset [simp]: "dget (dset k v d) = (dget d)(k \<mapsto> v)"
  by (rule AList.update_conv')

lemma dget_dset_same: "dget (dset k v d) k = Some v"
  by simp

lemma set_dkeys_dset [simp]: "set (dkeys (dset k v d)) = insert k (set (dkeys d))"
  by (simp add: dkeys_def dom_update)

lemma distinct_dkeys_dset: "distinct (dkeys d) \<Longrightarrow> distinct (dkeys (dset k v d))"
  by (simp add: dkeys_def AList.distinct_update)

lemma dget_None_iff: "dget d k = None \<longleftrightarrow> k \<notin> set (dkeys d)"
  by (simp add: dkeys_def map_of_eq_None_iff)

lemma dindex_Inr_iff: "dindex d k = Inr v \<longleftrightarrow> dget d k = Some v"
  by (auto simp: dindex_def split: option.splits)

text \<open>\<open>dict(sorted(d.items()))\<close>: the same entries in key order.\<close>

definition sort_items :: "(string, 'v) dict \<Rightarrow> (string, 'v) dict" where
  "sort_items d = sort_key fst d"

lemma sort_items_keys: "sorted (dkeys (sort_items d))" "set (sort_items d) = set d"
  by (simp_all add: sort_items_def dkeys_def)

lemma dget_sort_items:
  assumes "distinct (dkeys d)"
  shows "dget (sort_items d) = dget d"
proof (rule map_of_inject_set [THEN iffD2])
  show "distinct (map fst d)" using assms by (simp add: dkeys_def)
  moreover have "mset (map fst (sort_items d)) = mset (map fst d)"
    by (simp add: sort_items_def)
  ultimately show "distinct (map fst (sort_items d))"
    using mset_eq_imp_distinct_iff by blast
  show "set (sort_items d) = set d" by (rule sort_items_keys(2))
qed

text \<open>\<open>d[k] = d.get(k, 0) + 1\<close>\<close>

definition bump :: "'k \<Rightarrow> ('k, nat) dict \<Rightarrow> ('k, nat) dict" where
  "bump k d = dset k (case dget d k of None \<Rightarrow> 1 | Some n \<Rightarrow> Suc n) d"

definition dget_nat :: "('k, nat) dict \<Rightarrow> 'k \<Rightarrow> nat" where
  \<comment> \<open>\<open>d.get(k, 0)\<close>\<close>
  "dget_nat d k = (case dget d k of None \<Rightarrow> 0 | Some n \<Rightarrow> n)"

lemma dget_nat_bump [simp]:
  "dget_nat (bump k d) k' = (if k' = k then Suc (dget_nat d k) else dget_nat d k')"
  by (auto simp: dget_nat_def bump_def split: option.splits)

lemma dget_nat_fold_bump:
  "dget_nat (fold bump ks d) k = dget_nat d k + count_list ks k"
  by (induction ks arbitrary: d) auto

text \<open>\<open>groups[f(x)].append(x)\<close> over a \<open>defaultdict(list)\<close>.\<close>

definition dget_list :: "('k, 'v list) dict \<Rightarrow> 'k \<Rightarrow> 'v list" where
  "dget_list d k = (case dget d k of None \<Rightarrow> [] | Some xs \<Rightarrow> xs)"

definition group_by :: "('a \<Rightarrow> 'k) \<Rightarrow> 'a list \<Rightarrow> ('k, 'a list) dict" where
  "group_by f xs = fold (\<lambda>x d. dset (f x) (dget_list d (f x) @ [x]) d) xs []"

lemma group_by_snoc:
  "group_by f (xs @ [x]) = dset (f x) (dget_list (group_by f xs) (f x) @ [x]) (group_by f xs)"
  by (simp add: group_by_def)

lemma dget_group_by:
  "dget (group_by f xs) k =
     (if k \<in> f ` set xs then Some (filter (\<lambda>x. f x = k) xs) else None)"
proof (induction xs rule: rev_induct)
  case (snoc x xs)
  have "filter (\<lambda>y. f y = f x) xs = []" if "f x \<notin> f ` set xs"
    using that by (metis (mono_tags, lifting) filter_False image_eqI)
  with snoc show ?case by (auto simp: group_by_snoc dget_list_def)
qed (simp add: group_by_def)

lemma distinct_group_by: "distinct (map fst (group_by f xs))"
proof (induction xs rule: rev_induct)
  case (snoc x xs)
  then show ?case by (simp add: group_by_snoc AList.distinct_update)
qed (simp add: group_by_def)

lemma group_by_mem:
  "(k, g) \<in> set (group_by f xs) \<longleftrightarrow> k \<in> f ` set xs \<and> g = filter (\<lambda>x. f x = k) xs"
proof -
  have "(k, g) \<in> set (group_by f xs) \<longleftrightarrow> dget (group_by f xs) k = Some g"
    by (rule map_of_eq_Some_iff [OF distinct_group_by, symmetric])
  also have "\<dots> \<longleftrightarrow> k \<in> f ` set xs \<and> g = filter (\<lambda>x. f x = k) xs"
    unfolding dget_group_by by auto
  finally show ?thesis .
qed

lemma mset_dset_append:
  "distinct (map fst d) \<Longrightarrow>
   mset (concat (map snd (dset k (dget_list d k @ [x]) d))) = add_mset x (mset (concat (map snd d)))"
proof (induction d)
  case (Cons p d)
  obtain k' g where p: "p = (k', g)" by (cases p)
  show ?case
  proof (cases "k' = k")
    case True
    then show ?thesis by (simp add: p dget_list_def)
  next
    case False
    then have "dget_list (p # d) k = dget_list d k" by (simp add: p dget_list_def)
    then show ?thesis using Cons False by (simp add: p)
  qed
qed (simp add: dget_list_def)

lemma mset_group_by: "mset (concat (map snd (group_by f xs))) = mset xs"
proof (induction xs rule: rev_induct)
  case (snoc x xs)
  then show ?case
    by (simp only: group_by_snoc mset_dset_append [OF distinct_group_by]) simp
qed (simp add: group_by_def)

section \<open>Sequences\<close>

text \<open>\<open>xs[-n:]\<close> for \<open>n > 0\<close>: the last \<open>n\<close> elements, or all of them.\<close>

definition last_n :: "nat \<Rightarrow> 'a list \<Rightarrow> 'a list" where
  "last_n n xs = drop (length xs - n) xs"

lemma last_n_all: "length xs \<le> n \<Longrightarrow> last_n n xs = xs"
  by (simp add: last_n_def)

lemma length_last_n [simp]: "length (last_n n xs) = min n (length xs)"
  by (simp add: last_n_def)

lemma last_n_suffix: "suffix (last_n n xs) xs"
  by (simp add: last_n_def suffix_drop)

lemma last_n_last_n: "m \<le> n \<Longrightarrow> last_n m (last_n n xs) = last_n m xs"
  by (cases "n \<le> length xs") (auto simp: last_n_def)

text \<open>\<open>sorted(set(xs))\<close> on strings.\<close>

definition sorted_set :: "string list \<Rightarrow> string list" where
  "sorted_set xs = sort (remdups xs)"

lemma set_sorted_set [simp]: "set (sorted_set xs) = set xs"
  by (simp add: sorted_set_def)

lemma sorted_set_sorted [simp]: "sorted (sorted_set xs)" "distinct (sorted_set xs)"
  by (simp_all add: sorted_set_def)

lemma sorted_set_Nil_iff [simp]: "sorted_set xs = [] \<longleftrightarrow> xs = []"
  by (metis set_empty set_sorted_set)

end
