(* ===== verification/Py_Text.thy ===== *)
theory Py_Text
  imports Prelude
begin

text \<open>
  The methods of Python's \<open>str\<close> and \<open>bytes\<close> that the tools call.  A \<open>str\<close> is a list of
  code points; \<open>char\<close> holds the code points below 256, which is the bound of the model on
  text (the repository's own files keep to it almost everywhere, and every character the
  tools look for is ASCII).  A \<open>bytes\<close> value is a list of bytes, also \<open>char\<close>; the two are
  converted by \<open>utf8_encode\<close> and \<open>utf8_decode\<close>.
\<close>

type_synonym bytes = string
type_synonym str = string

definition code :: "char \<Rightarrow> nat" where
  "code c = of_char c"

abbreviation LF :: char where "LF \<equiv> CHR 0x0A"
abbreviation CR :: char where "CR \<equiv> CHR 0x0D"
abbreviation TAB :: char where "TAB \<equiv> CHR 0x09"
abbreviation DQ :: char where "DQ \<equiv> CHR 0x22"
abbreviation SQ :: char where "SQ \<equiv> CHR 0x27"
abbreviation BSL :: char where "BSL \<equiv> CHR 0x5C"
abbreviation BTICK :: char where "BTICK \<equiv> CHR 0x60"

section \<open>Character classes\<close>

text \<open>\<open>str.isspace\<close> (and \<open>\s\<close> of \<open>re\<close>), the line boundaries of \<open>str.splitlines\<close>,
  \<open>\d\<close> and \<open>\w\<close>, over the code points of the model.\<close>

definition is_space :: "char \<Rightarrow> bool" where
  "is_space c \<longleftrightarrow> (let n = code c in
     9 \<le> n \<and> n \<le> 13 \<or> 28 \<le> n \<and> n \<le> 32 \<or> n = 133 \<or> n = 160)"

definition is_linebreak :: "char \<Rightarrow> bool" where
  "is_linebreak c \<longleftrightarrow> (let n = code c in 10 \<le> n \<and> n \<le> 13 \<or> 28 \<le> n \<and> n \<le> 30 \<or> n = 133)"

definition is_digit :: "char \<Rightarrow> bool" where
  "is_digit c \<longleftrightarrow> 48 \<le> code c \<and> code c \<le> 57"

definition is_upper :: "char \<Rightarrow> bool" where
  "is_upper c \<longleftrightarrow> 65 \<le> code c \<and> code c \<le> 90"

definition is_lower :: "char \<Rightarrow> bool" where
  "is_lower c \<longleftrightarrow> 97 \<le> code c \<and> code c \<le> 122"

definition is_word :: "char \<Rightarrow> bool" where
  "is_word c \<longleftrightarrow> is_digit c \<or> is_upper c \<or> is_lower c \<or> c = CHR ''_''
     \<or> code c \<in> {170, 178, 179, 181, 185, 186, 188, 189, 190}
     \<or> 192 \<le> code c \<and> code c \<noteq> 215 \<and> code c \<noteq> 247"

definition lower_char :: "char \<Rightarrow> char" where
  "lower_char c = (let n = code c in
     if 65 \<le> n \<and> n \<le> 90 \<or> 192 \<le> n \<and> n \<le> 222 \<and> n \<noteq> 215 then char_of (n + 32) else c)"

definition lower :: "str \<Rightarrow> str" where
  "lower s = map lower_char s"

lemma code_eq_iff [simp]: "code c = code d \<longleftrightarrow> c = d"
  by (simp add: code_def)

lemma linebreak_space: "is_linebreak c \<Longrightarrow> is_space c"
  by (auto simp: is_linebreak_def is_space_def Let_def)

lemma digit_not_space: "is_digit c \<Longrightarrow> \<not> is_space c"
  by (auto simp: is_digit_def is_space_def Let_def)

section \<open>Prefixes, suffixes, substrings\<close>

definition startswith :: "str \<Rightarrow> str \<Rightarrow> bool" where
  "startswith s p \<longleftrightarrow> take (length p) s = p"

definition endswith :: "str \<Rightarrow> str \<Rightarrow> bool" where
  "endswith s q \<longleftrightarrow> length q \<le> length s \<and> drop (length s - length q) s = q"

fun contains :: "str \<Rightarrow> str \<Rightarrow> bool" where
  \<comment> \<open>\<open>p in s\<close>\<close>
  "contains [] p \<longleftrightarrow> p = []"
| "contains (c # s) p \<longleftrightarrow> startswith (c # s) p \<or> contains s p"

definition removesuffix :: "str \<Rightarrow> str \<Rightarrow> str" where
  "removesuffix s q = (if q \<noteq> [] \<and> endswith s q then take (length s - length q) s else s)"

fun rfind :: "str \<Rightarrow> str \<Rightarrow> nat option" where
  \<comment> \<open>\<open>s.rfind(p)\<close>, with \<open>None\<close> for \<open>-1\<close>; \<open>p\<close> is not empty\<close>
  "rfind [] p = None"
| "rfind (c # s) p = (case rfind s p of
      Some i \<Rightarrow> Some (Suc i)
    | None \<Rightarrow> if startswith (c # s) p then Some 0 else None)"

lemma startswith_iff: "startswith s p \<longleftrightarrow> (\<exists>t. s = p @ t)"
  unfolding startswith_def by (metis append_eq_conv_conj append_take_drop_id)

lemma endswith_iff: "endswith s q \<longleftrightarrow> (\<exists>t. s = t @ q)"
  unfolding endswith_def
  by (metis append_eq_conv_conj append_take_drop_id length_append le_add2 add_diff_cancel_right')

lemma contains_iff: "contains s p \<longleftrightarrow> (\<exists>a b. s = a @ p @ b)"
proof (induction s)
  case (Cons c s)
  note IH = Cons.IH
  show ?case
  proof
    assume "contains (c # s) p"
    then show "\<exists>a b. c # s = a @ p @ b"
      using Cons.IH unfolding contains.simps startswith_iff by (metis append_Cons append_Nil)
  next
    assume "\<exists>a b. c # s = a @ p @ b"
    then obtain a b where ab: "c # s = a @ p @ b" by blast
    then show "contains (c # s) p"
    proof (cases a)
      case Nil
      then have "startswith (c # s) p" using ab by (auto simp: startswith_iff)
      then show ?thesis by simp
    next
      case (Cons c' a')
      then have "\<exists>a b. s = a @ p @ b" using ab by auto
      then have "contains s p" using IH by blast
      then show ?thesis by simp
    qed
  qed
qed auto

lemma removesuffix_append [simp]: "q \<noteq> [] \<Longrightarrow> removesuffix (s @ q) q = s"
  by (simp add: removesuffix_def endswith_iff)

lemma rfind_Some:
  "rfind s p = Some i \<Longrightarrow> p \<noteq> [] \<Longrightarrow> i \<le> length s \<and> startswith (drop i s) p"
  by (induction s arbitrary: i) (auto split: option.splits if_splits)

lemma rfind_None: "p \<noteq> [] \<Longrightarrow> rfind s p = None \<longleftrightarrow> \<not> contains s p"
  by (induction s) (auto split: option.splits)

lemma rfind_last:
  "rfind s p = Some i \<Longrightarrow> p \<noteq> [] \<Longrightarrow> i < j \<Longrightarrow> \<not> startswith (drop j s) p"
proof (induction s arbitrary: i j)
  case (Cons c s)
  show ?case
  proof (cases "rfind s p")
    case None
    then have "\<not> contains s p" using Cons.prems(2) by (simp add: rfind_None)
    moreover obtain j' where j: "j = Suc j'" using Cons.prems(3) by (cases j) auto
    moreover have "startswith (drop j' s) p \<Longrightarrow> contains s p"
      unfolding startswith_iff contains_iff by (metis append_take_drop_id)
    ultimately show ?thesis by auto
  next
    case (Some k)
    then show ?thesis using Cons by (cases j) auto
  qed
qed simp

section \<open>Whitespace, lines and words\<close>

definition lstrip :: "str \<Rightarrow> str" where
  "lstrip s = dropWhile is_space s"

definition rstrip :: "str \<Rightarrow> str" where
  "rstrip s = rev (dropWhile is_space (rev s))"

definition strip :: "str \<Rightarrow> str" where
  "strip s = rstrip (lstrip s)"

definition blank :: "str \<Rightarrow> bool" where
  \<comment> \<open>\<open>not s.strip()\<close>\<close>
  "blank s \<longleftrightarrow> strip s = []"

lemma blank_iff: "blank s \<longleftrightarrow> (\<forall>c \<in> set s. is_space c)"
proof -
  have "strip s = [] \<longleftrightarrow> lstrip s = []"
  proof
    assume "strip s = []"
    then have "\<forall>c \<in> set (lstrip s). is_space c"
      by (simp add: strip_def rstrip_def)
    then show "lstrip s = []"
      unfolding lstrip_def by (metis hd_dropWhile list.set_sel(1))
  qed (simp add: strip_def rstrip_def)
  then show ?thesis by (simp add: blank_def lstrip_def)
qed

fun skip_lf :: "str \<Rightarrow> str" where
  \<comment> \<open>the second half of a carriage return and line feed\<close>
  "skip_lf [] = []"
| "skip_lf (d # s) = (if d = LF then s else d # s)"

lemma length_skip_lf [termination_simp]: "length (skip_lf s) < Suc (length s)"
  by (cases s) auto

fun splitlines :: "str \<Rightarrow> str list" where
  "splitlines [] = []"
| "splitlines (c # s) =
     (if c = CR then [] # splitlines (skip_lf s)
      else if is_linebreak c then [] # splitlines s
      else (case splitlines s of [] \<Rightarrow> [[c]] | l # ls \<Rightarrow> (c # l) # ls))"

lemma splitlines_unbroken:
  "s \<noteq> [] \<Longrightarrow> \<forall>c \<in> set s. \<not> is_linebreak c \<Longrightarrow> splitlines s = [s]"
proof (induction s)
  case (Cons c s)
  then have "c \<noteq> CR" by (auto simp: is_linebreak_def code_def)
  with Cons show ?case by (cases s) auto
qed simp

lemma splitlines_line:
  "\<forall>c \<in> set l. \<not> is_linebreak c \<Longrightarrow> splitlines (l @ LF # s) = l # splitlines s"
proof (induction l)
  case Nil
  show ?case by (simp add: is_linebreak_def code_def)
next
  case (Cons c l)
  then have "c \<noteq> CR" by (auto simp: is_linebreak_def code_def)
  with Cons show ?case by simp
qed

lemma splitlines_concat:
  "\<forall>l \<in> set ls. \<forall>c \<in> set l. \<not> is_linebreak c \<Longrightarrow>
   splitlines (concat (map (\<lambda>l. l @ [LF]) ls)) = ls"
  by (induction ls) (auto simp: splitlines_line)

function words :: "str \<Rightarrow> str list" where
  \<comment> \<open>\<open>s.split()\<close>\<close>
  "words [] = []"
| "words (c # s) = (if is_space c then words s
     else (c # takeWhile (\<lambda>d. \<not> is_space d) s) # words (dropWhile (\<lambda>d. \<not> is_space d) s))"
  by pat_completeness auto
termination by (relation "measure length") (auto simp: le_imp_less_Suc length_dropWhile_le)

lemma words_nonempty: "w \<in> set (words s) \<Longrightarrow> w \<noteq> [] \<and> (\<forall>c \<in> set w. \<not> is_space c)"
proof (induction s rule: words.induct)
  case (2 c s)
  show ?case
  proof (cases "is_space c")
    case True
    then show ?thesis using 2(1,3) by simp
  next
    case False
    then consider "w = c # takeWhile (\<lambda>d. \<not> is_space d) s"
      | "w \<in> set (words (dropWhile (\<lambda>d. \<not> is_space d) s))"
      using 2(3) by auto
    then show ?thesis
    proof cases
      case 1
      then show ?thesis using False by (auto dest: set_takeWhileD)
    next
      case second: 2
      show ?thesis by (rule 2(2) [OF False second])
    qed
  qed
qed simp

lemma words_word:
  assumes "w \<noteq> []" "\<forall>c \<in> set w. \<not> is_space c"
  shows "words w = [w]" "is_space d \<Longrightarrow> words (w @ d # s) = w # words s"
proof -
  obtain c w' where w: "w = c # w'" using assms(1) by (cases w) auto
  have all: "\<forall>x \<in> set w'. \<not> is_space x" "\<not> is_space c" using assms w by auto
  have "takeWhile (\<lambda>x. \<not> is_space x) w' = w'" and d: "dropWhile (\<lambda>x. \<not> is_space x) w' = []"
    using all by (simp_all add: takeWhile_eq_all_conv)
  then show "words w = [w]" using all unfolding w words.simps(2) d by simp
  show "words (w @ d # s) = w # words s" if "is_space d"
    using all that by (simp add: w takeWhile_append2 dropWhile_append2)
qed

lemma words_Nil_iff: "words s = [] \<longleftrightarrow> blank s"
  by (induction s rule: words.induct) (auto simp: blank_iff)

section \<open>Joining, splitting, replacing\<close>

fun join :: "str \<Rightarrow> str list \<Rightarrow> str" where
  "join sep [] = []"
| "join sep [x] = x"
| "join sep (x # y # xs) = x @ sep @ join sep (y # xs)"

lemma join_Cons: "join sep (x # xs) = x @ (if xs = [] then [] else sep @ join sep xs)"
  by (cases xs) auto

lemma words_join:
  "\<forall>w \<in> set ws. w \<noteq> [] \<and> (\<forall>c \<in> set w. \<not> is_space c) \<Longrightarrow> words (join '' '' ws) = ws"
proof (induction ws)
  case (Cons w ws)
  have sp: "is_space CHR '' ''" by (simp add: is_space_def code_def)
  from Cons show ?case by (cases ws) (auto simp: words_word sp)
qed simp

function split_on :: "str \<Rightarrow> str \<Rightarrow> str list" where
  \<comment> \<open>\<open>s.split(sep)\<close> for a separator that is not empty\<close>
  "split_on sep [] = [[]]"
| "split_on sep (c # s) =
     (if sep \<noteq> [] \<and> startswith (c # s) sep
      then [] # split_on sep (drop (length sep) (c # s))
      else (case split_on sep s of [] \<Rightarrow> [[c]] | l # ls \<Rightarrow> (c # l) # ls))"
  by pat_completeness auto
termination by (relation "measure (length \<circ> snd)") auto

lemma split_on_nonempty: "split_on sep s \<noteq> []"
  by (cases s) (auto split: list.splits)

lemma join_split_on: "join sep (split_on sep s) = s"
proof (induction sep s rule: split_on.induct)
  case (2 sep c s)
  show ?case
  proof (cases "sep \<noteq> [] \<and> startswith (c # s) sep")
    case True
    then have "sep @ drop (length sep) (c # s) = c # s"
      unfolding startswith_def by (metis append_take_drop_id)
    then show ?thesis using True 2 by (simp add: join_Cons split_on_nonempty)
  next
    case False
    then have "join sep (split_on sep s) = s" using 2 by auto
    then show ?thesis using False
      by (auto simp: join_Cons split: list.splits if_splits)
  qed
qed simp

function replace :: "str \<Rightarrow> str \<Rightarrow> str \<Rightarrow> str" where
  \<comment> \<open>\<open>s.replace(old, new)\<close> for an \<open>old\<close> that is not empty, with \<open>s\<close> last\<close>
  "replace old new [] = []"
| "replace old new (c # s) =
     (if old \<noteq> [] \<and> startswith (c # s) old
      then new @ replace old new (drop (length old) (c # s))
      else c # replace old new s)"
  by pat_completeness auto
termination by (relation "measure (\<lambda>(_, _, s). length s)") auto

definition partition_at :: "char \<Rightarrow> str \<Rightarrow> str \<times> bool \<times> str" where
  \<comment> \<open>\<open>s.partition(c)\<close>: what stands before, whether the separator occurs, what follows\<close>
  "partition_at c s = (takeWhile (\<lambda>d. d \<noteq> c) s, c \<in> set s, tl (dropWhile (\<lambda>d. d \<noteq> c) s))"

definition rsplit1 :: "char \<Rightarrow> str \<Rightarrow> str" where
  \<comment> \<open>\<open>s.rsplit(c, 1)[-1]\<close>: what follows the last \<open>c\<close>\<close>
  "rsplit1 c s = rev (takeWhile (\<lambda>d. d \<noteq> c) (rev s))"

section \<open>Decimal numbers\<close>

fun str_nat :: "nat \<Rightarrow> str" where
  "str_nat n = (if n < 10 then [''0123456789'' ! n]
     else str_nat (n div 10) @ [''0123456789'' ! (n mod 10)])"

declare str_nat.simps [simp del]

definition str_int :: "int \<Rightarrow> str" where
  "str_int i = (if i < 0 then CHR ''-'' # str_nat (nat (- i)) else str_nat (nat i))"

definition digit_val :: "char \<Rightarrow> nat" where
  "digit_val c = code c - 48"

definition nat_of_digits :: "str \<Rightarrow> nat" where
  "nat_of_digits s = foldl (\<lambda>n c. 10 * n + digit_val c) 0 s"

definition digits_ok :: "str \<Rightarrow> bool" where
  \<comment> \<open>what \<open>int()\<close> accepts: digit groups, single underscores between them\<close>
  "digits_ok s \<longleftrightarrow> (\<forall>g \<in> set (split_on ''_'' s). g \<noteq> [] \<and> list_all is_digit g)"

definition py_int :: "str \<Rightarrow> int res" where
  "py_int s = (let t = strip s;
       (neg, d) = (case t of [] \<Rightarrow> (False, [])
         | c # t' \<Rightarrow> if c = CHR ''-'' then (True, t')
                    else if c = CHR ''+'' then (False, t') else (False, t));
       n = int (nat_of_digits (replace ''_'' [] d))
     in if digits_ok d then Inr (if neg then - n else n) else Inl (ValueError s))"

lemma digit_nth: "d < 10 \<Longrightarrow> is_digit (''0123456789'' ! d) \<and> digit_val (''0123456789'' ! d) = d"
proof -
  have "\<forall>d \<in> {..<10}. is_digit (''0123456789'' ! d) \<and> digit_val (''0123456789'' ! d) = d"
    by code_simp
  then show "d < 10 \<Longrightarrow> is_digit (''0123456789'' ! d) \<and> digit_val (''0123456789'' ! d) = d"
    by auto
qed

lemma str_nat_digits: "str_nat n \<noteq> [] \<and> list_all is_digit (str_nat n)"
proof (induction n rule: str_nat.induct)
  case (1 n)
  show ?case using 1 digit_nth
    by (subst (1 2) str_nat.simps) (auto simp: list_all_iff)
qed

lemma nat_of_digits_str_nat: "nat_of_digits (str_nat n) = n"
proof (induction n rule: str_nat.induct)
  case (1 n)
  show ?case
  proof (cases "n < 10")
    case True
    then show ?thesis
      by (subst str_nat.simps) (simp add: nat_of_digits_def digit_nth del: nth_Cons')
  next
    case False
    then have "nat_of_digits (str_nat (n div 10)) = n div 10" using 1 by simp
    then show ?thesis using False
      by (subst str_nat.simps) (simp add: nat_of_digits_def digit_nth del: nth_Cons')
  qed
qed

lemma str_nat_inj [simp]: "str_nat m = str_nat n \<longleftrightarrow> m = n"
  by (metis nat_of_digits_str_nat)

lemma minus_not_digit: "\<not> is_digit CHR ''-''"
  by (simp add: is_digit_def code_def)

lemma str_int_inj [simp]: "str_int i = str_int j \<longleftrightarrow> i = j"
proof -
  have h: "hd (str_nat n) \<noteq> CHR ''-''" for n
    using str_nat_digits [of n] minus_not_digit
    by (metis list.pred_set list.set_sel(1))
  have "CHR ''-'' # s \<noteq> str_nat n" for s n using h [of n] by (metis list.sel(1))
  note this [simp] this [symmetric, simp]
  show ?thesis by (auto simp: str_int_def split: if_splits)
qed

lemma str_int_word: "str_int i \<noteq> [] \<and> (\<forall>c \<in> set (str_int i). \<not> is_space c)"
proof -
  have "\<forall>c \<in> set (str_nat n). \<not> is_space c" for n
    using str_nat_digits [of n] digit_not_space by (auto simp: list_all_iff)
  moreover have "\<not> is_space CHR ''-''" by (simp add: is_space_def code_def)
  ultimately show ?thesis by (auto simp: str_int_def str_nat_digits)
qed

section \<open>UTF-8 and text files\<close>

definition utf8_char :: "char \<Rightarrow> bytes" where
  "utf8_char c = (if code c < 128 then [c]
     else [char_of (192 + code c div 64), char_of (128 + code c mod 64)])"

definition utf8_encode :: "str \<Rightarrow> bytes" where
  "utf8_encode s = concat (map utf8_char s)"

text \<open>
  \<open>b.decode("utf-8", "replace")\<close>.  A byte that does not start a code point of the model is
  rendered as a question mark, in the place of Python's U+FFFD or of the code point above the
  bound.
\<close>

fun utf8_decode :: "bytes \<Rightarrow> str" where
  "utf8_decode [] = []"
| "utf8_decode [b] = (if code b < 128 then [b] else ''?'')"
| "utf8_decode (b # b' # bs) =
     (if code b < 128 then b # utf8_decode (b' # bs)
      else if (code b = 194 \<or> code b = 195) \<and> 128 \<le> code b' \<and> code b' < 192
      then char_of (64 * (code b - 192) + (code b' - 128)) # utf8_decode bs
      else CHR ''?'' # utf8_decode (b' # bs))"

lemma code_char_of [simp]: "n < 256 \<Longrightarrow> code (char_of n) = n"
  by (simp add: code_def)

lemma char_of_code [simp]: "char_of (code c) = c"
  by (simp add: code_def)

lemma code_less: "code c < 256"
  by (simp add: code_def)

lemma utf8_decode_char: "utf8_decode (utf8_char c @ bs) = c # utf8_decode bs"
proof (cases "code c < 128")
  case True
  then show ?thesis by (cases bs) (auto simp: utf8_char_def)
next
  case False
  have b: "code c div 64 < 4" "2 \<le> code c div 64" using code_less [of c] False by auto
  have c1: "code (char_of (192 + code c div 64)) = 192 + code c div 64"
    by (rule code_char_of) (use b in auto)
  have c2: "code (char_of (128 + code c mod 64)) = 128 + code c mod 64"
    by (rule code_char_of) (use mod_less_divisor [of 64 "code c"] in linarith)
  have k: "192 + code c div 64 = 194 \<or> 192 + code c div 64 = 195" using b by arith
  show ?thesis using False k c1 c2 by (auto simp: utf8_char_def)
qed

lemma utf8_roundtrip [simp]: "utf8_decode (utf8_encode s) = s"
  by (induction s) (auto simp: utf8_encode_def utf8_decode_char)

text \<open>\<open>b.decode("utf-8")\<close>: the well-formed byte sequences, and the exception for the others.\<close>

definition in_range :: "nat \<Rightarrow> nat \<Rightarrow> char \<Rightarrow> bool" where
  "in_range lo hi b \<longleftrightarrow> lo \<le> code b \<and> code b \<le> hi"

abbreviation continuation :: "char \<Rightarrow> bool" where
  "continuation \<equiv> in_range 128 191"

definition second_byte :: "char \<Rightarrow> char \<Rightarrow> bool" where
  "second_byte b = (if code b = 224 then in_range 160 191
     else if code b = 237 then in_range 128 159
     else if code b = 240 then in_range 144 191
     else if code b = 244 then in_range 128 143 else continuation)"

definition sequence_length :: "char \<Rightarrow> nat" where
  "sequence_length b = (if code b < 128 then 1 else if in_range 194 223 b then 2
     else if in_range 224 239 b then 3 else if in_range 240 244 b then 4 else 0)"

fun utf8_valid :: "bytes \<Rightarrow> bool" where
  "utf8_valid [] = True"
| "utf8_valid (b # bs) =
     (let n = sequence_length b - 1 in
      sequence_length b \<noteq> 0 \<and> length (take n bs) = n
      \<and> (0 < n \<longrightarrow> second_byte b (hd bs)) \<and> list_all continuation (take n bs)
      \<and> utf8_valid (drop n bs))"

definition utf8_strict :: "bytes \<Rightarrow> str res" where
  "utf8_strict b = (if utf8_valid b then Inr (utf8_decode b) else Inl UnicodeError)"

lemma utf8_valid_char: "utf8_valid (utf8_char c @ bs) = utf8_valid bs"
proof (cases "code c < 128")
  case True
  then show ?thesis by (simp add: utf8_char_def sequence_length_def)
next
  case False
  have b: "code c div 64 < 4" "2 \<le> code c div 64" using code_less [of c] False by auto
  have c1: "code (char_of (192 + code c div 64)) = 192 + code c div 64"
    by (rule code_char_of) (use b in auto)
  have c2: "code (char_of (128 + code c mod 64)) = 128 + code c mod 64"
    by (rule code_char_of) (use mod_less_divisor [of 64 "code c"] in linarith)
  have "code c mod 64 \<le> 63" using mod_less_divisor [of 64 "code c"] by linarith
  then show ?thesis using False b
    by (simp add: utf8_char_def sequence_length_def second_byte_def in_range_def c1 c2)
qed

lemma utf8_valid_encode [simp]: "utf8_valid (utf8_encode s)"
  by (induction s) (auto simp: utf8_encode_def utf8_valid_char simp del: utf8_valid.simps(2))

lemma utf8_strict_encode [simp]: "utf8_strict (utf8_encode s) = Inr s"
  by (simp add: utf8_strict_def)

fun universal_newlines :: "str \<Rightarrow> str" where
  \<comment> \<open>what reading in text mode does to line endings\<close>
  "universal_newlines [] = []"
| "universal_newlines (c # s) =
     (if c = CR then LF # universal_newlines (skip_lf s)
      else c # universal_newlines s)"

lemma universal_newlines_id: "CR \<notin> set s \<Longrightarrow> universal_newlines s = s"
  by (induction s) auto

text \<open>ASCII text is its own encoding, which is how the code equations convert it.\<close>

definition seven_bit :: "str \<Rightarrow> bool" where
  "seven_bit s \<longleftrightarrow> list_all (\<lambda>c. \<not> digit7 c) s"

lemma code_ascii: "code c < 128 \<longleftrightarrow> \<not> digit7 c"
proof -
  have "char_of (code c) = c" "code c < 256" by (simp_all add: code_less)
  then have "digit7 c \<longleftrightarrow> bit (code c) 7" by (metis char.sel(8) char_of_def)
  also have "\<dots> \<longleftrightarrow> odd (code c div 128)" by (simp add: bit_iff_odd)
  also have "\<dots> \<longleftrightarrow> \<not> code c < 128"
  proof (cases "code c < 128")
    case False
    then have "code c div 128 = 1" using code_less [of c] by (simp add: div_nat_eqI)
    then show ?thesis using False by simp
  qed simp
  finally show ?thesis by simp
qed

lemma ascii_encode: "seven_bit s \<Longrightarrow> utf8_encode s = s"
  by (induction s) (auto simp: seven_bit_def utf8_encode_def utf8_char_def code_ascii)

lemma ascii_decode: "seven_bit s \<Longrightarrow> utf8_decode s = s"
  using utf8_roundtrip [of s] ascii_encode [of s] by simp

lemma utf8_code [code]:
  "utf8_encode s = (if seven_bit s then s else concat (map utf8_char s))"
  "utf8_strict s = (if seven_bit s then Inr s else if utf8_valid s then Inr (utf8_decode s) else Inl UnicodeError)"
proof -
  show "utf8_encode s = (if seven_bit s then s else concat (map utf8_char s))"
    using ascii_encode [of s] by (cases "seven_bit s") (simp, simp add: utf8_encode_def)
  have "utf8_strict s = Inr s" if "seven_bit s"
    using utf8_strict_encode [of s] ascii_encode [OF that] by simp
  then show "utf8_strict s = (if seven_bit s then Inr s else if utf8_valid s then Inr (utf8_decode s) else Inl UnicodeError)"
    by (simp add: utf8_strict_def)
qed

end
