(* ===== verification/Message_Table.thy ===== *)
theory Message_Table
  imports Py_Text
begin

text \<open>
  The keyed message table of \<open>tools/gen_parser_messages.py\<close>: \<open>build\<close> files every recorded
  message under the shallowest suffix of its parser stack that names one message, and
  \<open>lookup\<close>, which the generator writes into \<open>parser_messages.mbt\<close>, walks a failing stack
  from its top frame down.  The interface between the two is the locale \<open>message_table\<close>.
\<close>

section \<open>Keys\<close>

definition key_of :: "int list \<Rightarrow> nat \<Rightarrow> str" where
  "key_of stack depth = join '' '' (map str_int (last_n depth stack))"

lemma words_key_of: "words (key_of st d) = map str_int (last_n d st)"
  unfolding key_of_def by (rule words_join) (auto simp: str_int_word)

lemma key_of_eq_iff: "key_of st d = key_of st' d' \<longleftrightarrow> last_n d st = last_n d' st'"
proof
  assume "key_of st d = key_of st' d'"
  then have "map str_int (last_n d st) = map str_int (last_n d' st')"
    by (metis words_key_of)
  then show "last_n d st = last_n d' st'" by (rule map_injective) (simp add: inj_def)
qed (simp add: key_of_def)

lemma key_of_depth:
  "key_of st d = key_of st' d' \<Longrightarrow> d \<le> length st \<Longrightarrow> d' \<le> length st' \<Longrightarrow> d = d'"
  by (metis key_of_eq_iff length_last_n min.absorb1)

lemma key_of_shallower:
  "key_of st d = key_of st' d \<Longrightarrow> d' \<le> d \<Longrightarrow> key_of st d' = key_of st' d'"
  by (metis key_of_eq_iff last_n_last_n)

lemma apart_deeper: "key_of st d \<noteq> key_of st' d \<Longrightarrow> d \<le> e \<Longrightarrow> key_of st e \<noteq> key_of st' e"
  using key_of_shallower by blast

section \<open>Building the table\<close>

text \<open>A table entry: one message, or the marker that says to look one frame deeper
  (\<open>None\<close> in the generator's dictionary, \<open>Deeper\<close> in the table it writes).\<close>

datatype 'v entry = Msg 'v | Deeper

type_synonym 'v item = "int list \<times> 'v"

definition maxlen :: "'v item list \<Rightarrow> nat" where
  "maxlen items = foldr (\<lambda>i n. max (length (fst i)) n) items 0"

lemma maxlen_ge: "i \<in> set items \<Longrightarrow> length (fst i) \<le> maxlen items"
  by (induction items) (auto simp: maxlen_def)

lemma maxlen_le: "(\<And>i. i \<in> set items \<Longrightarrow> length (fst i) \<le> n) \<Longrightarrow> maxlen items \<le> n"
  by (induction items) (auto simp: maxlen_def)

lemma maxlen_mono: "set xs \<subseteq> set ys \<Longrightarrow> maxlen xs \<le> maxlen ys"
  by (rule maxlen_le) (auto intro: maxlen_ge)

lemma maxlen_tail: "maxlen ys \<le> maxlen (xs @ ys)"
  by (rule maxlen_mono) simp

lemma maxlen_deeper:
  assumes "list_ex (\<lambda>i. d < length (fst i)) xs"
  shows "maxlen xs - Suc d < maxlen (xs @ ys) - d"
proof -
  obtain i where "i \<in> set xs" "d < length (fst i)" using assms by (auto simp: list_ex_iff)
  then have "d < maxlen xs" using maxlen_ge [of i xs] by simp
  moreover have "maxlen xs \<le> maxlen (xs @ ys)" by (rule maxlen_mono) simp
  ultimately show ?thesis by arith
qed

definition groups_of :: "'v item list \<Rightarrow> nat \<Rightarrow> (str, 'v item list) dict" where
  "groups_of items depth = group_by (\<lambda>i. key_of (fst i) depth) items"

lemma set_groups_of: "set (concat (map snd (groups_of items depth))) = set items"
proof -
  have "i \<in> set (concat (map snd (groups_of items depth))) \<longleftrightarrow> i \<in> set items" for i
  proof
    assume "i \<in> set (concat (map snd (groups_of items depth)))"
    then obtain k g where "(k, g) \<in> set (groups_of items depth)" "i \<in> set g" by auto
    then show "i \<in> set items" by (auto simp: groups_of_def group_by_mem)
  next
    assume i: "i \<in> set items"
    let ?k = "key_of (fst i) depth"
    have "(?k, filter (\<lambda>j. key_of (fst j) depth = ?k) items) \<in> set (groups_of items depth)"
      unfolding groups_of_def group_by_mem using i by simp
    then show "i \<in> set (concat (map snd (groups_of items depth)))"
      using i by (force simp: set_concat)
  qed
  then show ?thesis by blast
qed

function build :: "'v item list \<Rightarrow> nat \<Rightarrow> (str, 'v entry) dict \<Rightarrow> (str, 'v entry) dict \<times> nat"
  and build_groups ::
    "(str, 'v item list) dict \<Rightarrow> nat \<Rightarrow> (str, 'v entry) dict \<Rightarrow> (str, 'v entry) dict \<times> nat"
where
  "build items depth out = build_groups (groups_of items depth) depth out"
| "build_groups [] depth out = (out, 0)"
| "build_groups ((key, grp) # gs) depth out =
     (if length (remdups (map snd grp)) = 1
      then build_groups gs depth (dset key (Msg (hd (remdups (map snd grp)))) out)
      else if \<not> list_ex (\<lambda>i. depth < length (fst i)) grp
      then (let (o1, d1) = build_groups gs depth out in (o1, length grp + d1))
      else (let (o1, d1) = build grp (Suc depth) (dset key Deeper out);
                (o2, d2) = build_groups gs depth o1
            in (o2, d1 + d2)))"
  by pat_completeness auto
termination
proof (relation "measures
    [case_sum (\<lambda>(items, d, out). maxlen items - d) (\<lambda>(gs, d, out). maxlen (concat (map snd gs)) - d),
     case_sum (\<lambda>_. 1) (\<lambda>_. 0),
     case_sum (\<lambda>_. 0) (\<lambda>(gs, d, out). length gs)]", goal_cases)
  case (2 items depth out)
  have "maxlen (concat (map snd (groups_of items depth))) = maxlen items"
    by (rule antisym; rule maxlen_mono; simp only: set_groups_of; rule subset_refl)
  then show ?case by simp
qed (auto simp: maxlen_deeper intro: le_neq_implies_less diff_le_mono maxlen_tail)

declare build.simps [simp del] build_groups.simps(2) [simp del]

section \<open>What the table says\<close>

text \<open>
  Two stacks share a key of \<open>d\<close> frames exactly when their top \<open>d\<close> frames agree.  An item's
  class at depth \<open>d\<close> is everything recorded under that key, and the class is contested when
  it names more than one message.
\<close>

definition same_key :: "nat \<Rightarrow> int list \<Rightarrow> 'v item list \<Rightarrow> 'v item set" where
  "same_key d st items = {i \<in> set items. key_of (fst i) d = key_of st d}"

definition contested :: "'v item set \<Rightarrow> bool" where
  "contested X \<longleftrightarrow> (\<exists>i \<in> X. \<exists>j \<in> X. snd i \<noteq> snd j)"

lemma not_contested_iff: "i \<in> X \<Longrightarrow> \<not> contested X \<longleftrightarrow> (\<forall>j \<in> X. snd j = snd i)"
  unfolding contested_def by metis

lemma one_value:
  assumes "i \<in> set xs"
  shows "length (remdups (map snd xs)) = 1 \<longleftrightarrow> \<not> contested (set xs)"
    and "\<not> contested (set xs) \<Longrightarrow> hd (remdups (map snd xs)) = snd i"
proof -
  have "length (remdups (map snd xs)) = card (snd ` set xs)"
    by (simp add: length_remdups_card_conv)
  also have "\<dots> = 1 \<longleftrightarrow> (\<forall>j \<in> set xs. snd j = snd i)"
  proof
    assume "card (snd ` set xs) = 1"
    then obtain v where "snd ` set xs = {v}" by (auto simp: card_1_singleton_iff)
    then have "snd j = v" if "j \<in> set xs" for j using imageI [OF that, of snd] by simp
    then show "\<forall>j \<in> set xs. snd j = snd i" using assms by simp
  next
    assume h: "\<forall>j \<in> set xs. snd j = snd i"
    have "snd ` set xs = (\<lambda>_. snd i) ` set xs" by (rule image_cong [OF refl]) (use h in blast)
    then show "card (snd ` set xs) = 1" using assms by (auto simp: image_constant_conv)
  qed
  finally show eq: "length (remdups (map snd xs)) = 1 \<longleftrightarrow> \<not> contested (set xs)"
    using not_contested_iff [OF assms] by simp
  assume c: "\<not> contested (set xs)"
  then obtain v where v: "remdups (map snd xs) = [v]"
    using eq by (auto simp: length_Suc_conv)
  then have "set (map snd xs) = {v}" by (metis list.set(1,2) set_remdups)
  then show "hd (remdups (map snd xs)) = snd i" using v assms by auto
qed

text \<open>
  The stacks of an LR parser start in an initial state, which no transition enters again.
  So no recorded stack is a proper suffix of another.
\<close>

definition lr_stacks :: "int set \<Rightarrow> 'v item list \<Rightarrow> bool" where
  "lr_stacks I items \<longleftrightarrow>
     (\<forall>i \<in> set items. fst i \<noteq> [] \<and> hd (fst i) \<in> I \<and> set (tl (fst i)) \<inter> I = {})"

definition suffix_free :: "'v item list \<Rightarrow> bool" where
  "suffix_free items \<longleftrightarrow> (\<forall>i \<in> set items. fst i \<noteq> []) \<and>
     (\<forall>i \<in> set items. \<forall>j \<in> set items. suffix (fst i) (fst j) \<longrightarrow> fst i = fst j)"

lemma lr_suffix_free: "lr_stacks I items \<Longrightarrow> suffix_free items"
proof -
  assume lr: "lr_stacks I items"
  have "fst i = fst j" if ij: "i \<in> set items" "j \<in> set items" "suffix (fst i) (fst j)" for i j
  proof -
    obtain zs where zs: "fst j = zs @ fst i" using ij(3) by (auto simp: suffix_def)
    have "fst i \<noteq> []" "hd (fst i) \<in> I" "set (tl (fst j)) \<inter> I = {}"
      using lr ij by (auto simp: lr_stacks_def)
    then show ?thesis using zs by (cases zs) (auto simp: disjoint_iff)
  qed
  moreover have "\<forall>i \<in> set items. fst i \<noteq> []" using lr by (auto simp: lr_stacks_def)
  ultimately show ?thesis by (auto simp: suffix_free_def)
qed

lemma suffix_freeD:
  "suffix_free items \<Longrightarrow> i \<in> set items \<Longrightarrow> j \<in> set items \<Longrightarrow> suffix (fst i) (fst j) \<Longrightarrow> fst i = fst j"
  unfolding suffix_free_def by blast

lemma suffix_free_subset: "suffix_free ys \<Longrightarrow> set xs \<subseteq> set ys \<Longrightarrow> suffix_free xs"
  by (auto simp: suffix_free_def)

text \<open>
  A key of \<open>e\<close> frames of an item is live from depth \<open>d\<close> on when every class of the item
  between the two is contested, so that the search goes on to it.
  \<open>filed items d out out'\<close>: from \<open>out\<close> to \<open>out'\<close> exactly the live keys of these items were
  written, each as its class says.
\<close>

definition live :: "'v item list \<Rightarrow> nat \<Rightarrow> 'v item \<Rightarrow> nat \<Rightarrow> bool" where
  "live items d i e \<longleftrightarrow> d \<le> e \<and> e \<le> length (fst i) \<and>
     (\<forall>e' \<in> {d..<e}. contested (same_key e' (fst i) items))"

definition class_entry :: "'v item list \<Rightarrow> 'v item \<Rightarrow> nat \<Rightarrow> 'v entry option \<Rightarrow> 'v entry option" where
  "class_entry items i e old =
     (if \<not> contested (same_key e (fst i) items) then Some (Msg (snd i))
      else if e < length (fst i) then Some Deeper else old)"

definition filed :: "'v item list \<Rightarrow> nat \<Rightarrow> (str, 'v entry) dict \<Rightarrow> (str, 'v entry) dict \<Rightarrow> bool" where
  "filed items d out out' \<longleftrightarrow>
     (\<forall>i \<in> set items. \<forall>e. live items d i e \<longrightarrow>
        dget out' (key_of (fst i) e) = class_entry items i e (dget out (key_of (fst i) e))) \<and>
     (\<forall>k. (\<forall>i \<in> set items. \<forall>e. live items d i e \<longrightarrow> k \<noteq> key_of (fst i) e) \<longrightarrow>
        dget out' k = dget out k)"

lemma filed_cong: "set xs = set ys \<Longrightarrow> filed xs d out out' = filed ys d out out'"
  by (simp add: filed_def live_def class_entry_def same_key_def)

lemma filedI:
  assumes "\<And>i e. i \<in> set items \<Longrightarrow> live items d i e \<Longrightarrow>
      dget out' (key_of (fst i) e) = class_entry items i e (dget out (key_of (fst i) e))"
    and "\<And>k. (\<And>i e. i \<in> set items \<Longrightarrow> live items d i e \<Longrightarrow> k \<noteq> key_of (fst i) e) \<Longrightarrow>
      dget out' k = dget out k"
  shows "filed items d out out'"
  unfolding filed_def using assms by blast

lemma filedD:
  assumes "filed items d out out'" "i \<in> set items" "live items d i e"
  shows "dget out' (key_of (fst i) e) = class_entry items i e (dget out (key_of (fst i) e))"
  using assms unfolding filed_def by blast

lemma filed_frame:
  assumes "filed items d out out'"
    and "\<And>i e. i \<in> set items \<Longrightarrow> live items d i e \<Longrightarrow> k \<noteq> key_of (fst i) e"
  shows "dget out' k = dget out k"
  using assms unfolding filed_def by blast

lemma filed_Nil [simp]: "filed [] d out out"
  by (simp add: filed_def)

lemma live_depth: "live items d i e \<Longrightarrow> d \<le> e" "live items d i e \<Longrightarrow> e \<le> length (fst i)"
  by (simp_all add: live_def)

lemma filed_append:
  assumes xs: "filed xs d out o1" and ys: "filed ys d o1 o2"
    and apart: "\<And>i j. i \<in> set xs \<Longrightarrow> j \<in> set ys \<Longrightarrow> key_of (fst i) d \<noteq> key_of (fst j) d"
  shows "filed (xs @ ys) d out o2"
proof -
  have apart': "key_of (fst i) e \<noteq> key_of (fst j) e'"
    if "i \<in> set xs" "j \<in> set ys" "live A d i e" "live B d j e'" for i j e e' A B
  proof
    assume eq: "key_of (fst i) e = key_of (fst j) e'"
    then have "e = e'" using live_depth(2) [OF that(3)] live_depth(2) [OF that(4)]
      by (rule key_of_depth)
    with eq have "key_of (fst i) d = key_of (fst j) d"
      using live_depth(1) [OF that(3)] by (auto dest: key_of_shallower)
    then show False using apart [OF that(1,2)] by simp
  qed
  have same1: "same_key e (fst i) (xs @ ys) = same_key e (fst i) xs"
    if "i \<in> set xs" "d \<le> e" for i e
  proof -
    have "key_of (fst j) e \<noteq> key_of (fst i) e" if "j \<in> set ys" for j
      using apart_deeper [OF apart [OF \<open>i \<in> set xs\<close> that] \<open>d \<le> e\<close>] by metis
    then show ?thesis by (auto simp: same_key_def)
  qed
  have same2: "same_key e (fst j) (xs @ ys) = same_key e (fst j) ys"
    if "j \<in> set ys" "d \<le> e" for j e
  proof -
    have "key_of (fst i) e \<noteq> key_of (fst j) e" if "i \<in> set xs" for i
      by (rule apart_deeper [OF apart [OF that \<open>j \<in> set ys\<close>] \<open>d \<le> e\<close>])
    then show ?thesis by (auto simp: same_key_def)
  qed
  have live1: "live (xs @ ys) d i e \<longleftrightarrow> live xs d i e" if "i \<in> set xs" for i e
    using same1 [OF that] by (auto simp: live_def)
  have live2: "live (xs @ ys) d j e \<longleftrightarrow> live ys d j e" if "j \<in> set ys" for j e
    using same2 [OF that] by (auto simp: live_def)
  show ?thesis
  proof (rule filedI)
    fix i e
    assume "i \<in> set (xs @ ys)" and l: "live (xs @ ys) d i e"
    then consider (left) "i \<in> set xs" | (right) "i \<in> set ys" by auto
    then show "dget o2 (key_of (fst i) e) = class_entry (xs @ ys) i e (dget out (key_of (fst i) e))"
    proof cases
      case left
      have "dget o2 (key_of (fst i) e) = dget o1 (key_of (fst i) e)"
        by (rule filed_frame [OF ys]) (use apart' left l in blast)
      also have "\<dots> = class_entry xs i e (dget out (key_of (fst i) e))"
        using filedD [OF xs left] live1 [OF left] l by simp
      finally show ?thesis using same1 [OF left live_depth(1) [OF l]] by (simp add: class_entry_def)
    next
      case right
      have "dget o1 (key_of (fst i) e) = dget out (key_of (fst i) e)"
        by (rule filed_frame [OF xs]) (use apart' right l in metis)
      moreover have "dget o2 (key_of (fst i) e) = class_entry ys i e (dget o1 (key_of (fst i) e))"
        using filedD [OF ys right] live2 [OF right] l by simp
      ultimately show ?thesis using same2 [OF right live_depth(1) [OF l]]
        by (simp add: class_entry_def)
    qed
  next
    fix k
    assume k: "\<And>i e. i \<in> set (xs @ ys) \<Longrightarrow> live (xs @ ys) d i e \<Longrightarrow> k \<noteq> key_of (fst i) e"
    have "dget o2 k = dget o1 k" by (rule filed_frame [OF ys]) (use k live2 in auto)
    also have "\<dots> = dget out k" by (rule filed_frame [OF xs]) (use k live1 in auto)
    finally show "dget o2 k = dget out k" .
  qed
qed

text \<open>A group of \<open>build_groups\<close>: every item under its key, none shorter than the key.\<close>

definition wf_groups :: "nat \<Rightarrow> (str, 'v item list) dict \<Rightarrow> bool" where
  "wf_groups d gs \<longleftrightarrow> distinct (map fst gs) \<and>
     (\<forall>kg \<in> set gs. snd kg \<noteq> [] \<and>
        (\<forall>i \<in> set (snd kg). key_of (fst i) d = fst kg \<and> d \<le> length (fst i)))"

lemma wf_groupsD:
  assumes "wf_groups d gs" "(k, g) \<in> set gs"
  shows "g \<noteq> []" and "\<forall>i \<in> set g. key_of (fst i) d = k \<and> d \<le> length (fst i)"
proof -
  have "\<forall>kg \<in> set gs. snd kg \<noteq> [] \<and>
        (\<forall>i \<in> set (snd kg). key_of (fst i) d = fst kg \<and> d \<le> length (fst i))"
    using assms(1) unfolding wf_groups_def by (rule conjunct2)
  from bspec [OF this assms(2)]
  show "g \<noteq> []" and "\<forall>i \<in> set g. key_of (fst i) d = k \<and> d \<le> length (fst i)"
    by simp_all
qed

lemma wf_groups_of:
  assumes "\<And>i. i \<in> set items \<Longrightarrow> d \<le> length (fst i)"
  shows "wf_groups d (groups_of items d)"
proof -
  have "g \<noteq> [] \<and> (\<forall>i \<in> set g. key_of (fst i) d = k \<and> d \<le> length (fst i))"
    if "(k, g) \<in> set (groups_of items d)" for k g
    using that assms by (auto simp: groups_of_def group_by_mem filter_empty_conv)
  then have "\<forall>kg \<in> set (groups_of items d). snd kg \<noteq> [] \<and>
      (\<forall>i \<in> set (snd kg). key_of (fst i) d = fst kg \<and> d \<le> length (fst i))"
    by (metis prod.collapse)
  then show ?thesis
    unfolding wf_groups_def by (simp add: groups_of_def distinct_group_by)
qed

lemma suffix_of_key:
  assumes "key_of st d = key_of st' d" "length st = d"
  shows "suffix st st'"
proof -
  have "st = last_n d st'" using assms last_n_all [of st d] by (simp add: key_of_eq_iff)
  then show ?thesis using last_n_suffix by metis
qed

lemma one_group_long:
  assumes wf: "\<forall>i \<in> set g. key_of (fst i) d = k \<and> d \<le> length (fst i)"
    and free: "suffix_free g" and n: "list_ex (\<lambda>i. d < length (fst i)) g" and i: "i \<in> set g"
  shows "Suc d \<le> length (fst i)"
proof (rule ccontr)
  assume "\<not> Suc d \<le> length (fst i)"
  then have l: "length (fst i) = d" using wf i by (simp add: le_antisym not_less_eq_eq)
  obtain j where j: "j \<in> set g" "d < length (fst j)" using n by (auto simp: list_ex_iff)
  have "suffix (fst i) (fst j)"
    by (rule suffix_of_key [of "fst i" d]) (use l wf i j(1) in auto)
  then have "fst i = fst j" using free i j(1) by (auto simp: suffix_free_def)
  then show False using l j(2) by simp
qed

lemma one_group_filed:
  assumes wf: "\<forall>i \<in> set g. key_of (fst i) d = k \<and> d \<le> length (fst i)"
    and free: "suffix_free g" and ne: "g \<noteq> []"
  shows "\<not> contested (set g) \<Longrightarrow> i \<in> set g \<Longrightarrow> filed g d out (dset k (Msg (snd i)) out)"
    and "contested (set g) \<Longrightarrow> \<not> list_ex (\<lambda>i. d < length (fst i)) g \<Longrightarrow> filed g d out out"
    and "contested (set g) \<Longrightarrow> list_ex (\<lambda>i. d < length (fst i)) g \<Longrightarrow>
      filed g (Suc d) (dset k Deeper out) o1 \<Longrightarrow> filed g d out o1"
proof -
  have key: "key_of (fst i) d = k" "d \<le> length (fst i)" if "i \<in> set g" for i
    using bspec [OF wf that] by auto
  have all: "same_key d (fst i) g = set g" if "i \<in> set g" for i
    using key [OF that] wf by (auto simp: same_key_def)
  have now: "live g d i d" if "i \<in> set g" for i using key [OF that] by (simp add: live_def)
  have top: "key_of (fst i) e = k \<longleftrightarrow> e = d" if "i \<in> set g" "live B d' i e" for i e d' B
    using key [OF that(1)] live_depth(2) [OF that(2)] key_of_depth [of "fst i" e "fst i" d] by auto
  show "filed g d out (dset k (Msg (snd i)) out)" if c: "\<not> contested (set g)" and i: "i \<in> set g"
  proof (rule filedI)
    fix j e
    assume j: "j \<in> set g" and l: "live g d j e"
    have "e = d" using l c all [OF j] by (auto simp: live_def dest!: bspec [where x = d])
    moreover have "snd j = snd i" using c not_contested_iff [OF i] j by blast
    ultimately show "dget (dset k (Msg (snd i)) out) (key_of (fst j) e) =
        class_entry g j e (dget out (key_of (fst j) e))"
      using c all [OF j] key [OF j] by (simp add: class_entry_def)
  next
    fix k'
    assume h: "\<And>i e. i \<in> set g \<Longrightarrow> live g d i e \<Longrightarrow> k' \<noteq> key_of (fst i) e"
    have "k' \<noteq> k" using h [OF i now [OF i]] key [OF i] by simp
    then show "dget (dset k (Msg (snd i)) out) k' = dget out k'" by simp
  qed
  show "filed g d out out"
    if c: "contested (set g)" and n: "\<not> list_ex (\<lambda>i. d < length (fst i)) g"
  proof (rule filedI)
    fix j e
    assume j: "j \<in> set g" and l: "live g d j e"
    have "length (fst j) \<le> d" using n j by (auto simp: list_ex_iff)
    then have "e = d" "e = length (fst j)" using live_depth [OF l] by auto
    then show "dget out (key_of (fst j) e) = class_entry g j e (dget out (key_of (fst j) e))"
      using c all [OF j] by (simp add: class_entry_def)
  qed simp
  show "filed g d out o1"
    if c: "contested (set g)" and n: "list_ex (\<lambda>i. d < length (fst i)) g"
      and f: "filed g (Suc d) (dset k Deeper out) o1"
  proof -
    note long = one_group_long [OF wf free n]
    have step: "live g d i e \<longleftrightarrow> e = d \<or> live g (Suc d) i e" if i: "i \<in> set g" for i e
      using c all [OF i] long [OF i]
      by (auto simp: live_def Suc_le_eq order.order_iff_strict)
    have frame: "dget o1 k = Some Deeper"
    proof -
      have "dget o1 k = dget (dset k Deeper out) k"
      proof (rule filed_frame [OF f])
        fix i' e'
        assume "i' \<in> set g" "live g (Suc d) i' e'"
        then show "k \<noteq> key_of (fst i') e'" using top live_depth(1) by fastforce
      qed
      then show ?thesis by simp
    qed
    show ?thesis
    proof (rule filedI)
      fix i e
      assume i: "i \<in> set g" and l: "live g d i e"
      show "dget o1 (key_of (fst i) e) = class_entry g i e (dget out (key_of (fst i) e))"
      proof (cases "e = d")
        case True
        then show ?thesis using frame key [OF i] c all [OF i] long [OF i]
          by (simp add: class_entry_def)
      next
        case False
        then have l': "live g (Suc d) i e" using step [OF i] l by simp
        have "key_of (fst i) e \<noteq> k" using top [OF i l] False by simp
        then show ?thesis using filedD [OF f i l'] by (simp add: class_entry_def)
      qed
    next
      fix k'
      assume h: "\<And>i e. i \<in> set g \<Longrightarrow> live g d i e \<Longrightarrow> k' \<noteq> key_of (fst i) e"
      obtain i where i: "i \<in> set g" using ne by (cases g) auto
      have "dget o1 k' = dget (dset k Deeper out) k'"
        by (rule filed_frame [OF f]) (use h step in blast)
      moreover have "k' \<noteq> k" using h [OF i now [OF i]] key [OF i] by simp
      ultimately show "dget o1 k' = dget out k'" by simp
    qed
  qed
qed

lemma build_filed:
  shows "suffix_free items \<Longrightarrow> \<forall>i \<in> set items. d \<le> length (fst i) \<Longrightarrow>
      filed items d out (fst (build items d out))"
    and "suffix_free (concat (map snd gs)) \<Longrightarrow> wf_groups d gs \<Longrightarrow>
      filed (concat (map snd gs)) d out (fst (build_groups gs d out))"
proof (induction items d out and gs d out rule: build_build_groups.induct)
  case (1 items depth out)
  have "filed (concat (map snd (groups_of items depth))) depth out (fst (build items depth out))"
    unfolding build.simps
  proof (rule 1(1))
    show "suffix_free (concat (map snd (groups_of items depth)))"
      by (rule suffix_free_subset [OF 1(2)]) (simp add: set_groups_of del: set_concat)
    show "wf_groups depth (groups_of items depth)" using 1(3) by (auto intro: wf_groups_of)
  qed
  then show ?case by (rule filed_cong [THEN iffD1, rotated]) (rule set_groups_of)
next
  case (3 key grp gs depth out)
  have wf: "\<forall>i \<in> set grp. key_of (fst i) depth = key \<and> depth \<le> length (fst i)"
    and ne: "grp \<noteq> []" and wf': "wf_groups depth gs" and new: "key \<notin> fst ` set gs"
    using wf_groupsD [OF 3(6), of key grp] 3(6) by (simp_all add: wf_groups_def)
  have free: "suffix_free grp" "suffix_free (concat (map snd gs))"
    using 3(5) by (auto intro: suffix_free_subset)
  have apart: "key_of (fst i) depth \<noteq> key_of (fst j) depth"
    if ij: "i \<in> set grp" "j \<in> set (concat (map snd gs))" for i j
  proof -
    obtain k g where kg: "(k, g) \<in> set gs" "j \<in> set g" using ij(2) by auto
    then have "key_of (fst j) depth = k" using wf_groupsD(2) [OF wf' kg(1)] by blast
    moreover have "k \<noteq> key" using new imageI [OF kg(1), of fst] by auto
    ultimately show ?thesis using wf ij(1) by simp
  qed
  note app = filed_append [where d = depth and xs = grp and ys = "concat (map snd gs)", OF _ _ apart]
  obtain i where i: "i \<in> set grp" using ne by (cases grp) auto
  show ?case
  proof (cases "contested (set grp)")
    case False
    then have r: "length (remdups (map snd grp)) = 1" "hd (remdups (map snd grp)) = snd i"
      using one_value [OF i] by auto
    have "filed (concat (map snd gs)) depth (dset key (Msg (snd i)) out)
        (fst (build_groups gs depth (dset key (Msg (snd i)) out)))"
      using 3(1) [OF r(1) free(2) wf'] r(2) by simp
    then show ?thesis
      using app [OF one_group_filed(1) [OF wf free(1) ne False i]] r
      by (simp add: build_groups.simps(2))
  next
    case True
    then have r: "length (remdups (map snd grp)) \<noteq> 1" using one_value [OF i] by simp
    show ?thesis
    proof (cases "list_ex (\<lambda>i. depth < length (fst i)) grp")
      case False
      then show ?thesis
        using app [OF one_group_filed(2) [OF wf free(1) ne True False] 3(2) [OF r False free(2) wf']] r
        by (simp add: build_groups.simps(2) case_prod_beta Let_def)
    next
      case long: True
      let ?b = "build grp (Suc depth) (dset key Deeper out)"
      have "filed grp depth out (fst ?b)"
        by (rule one_group_filed(3) [OF wf free(1) ne True long 3(3)])
          (use r long free(1) one_group_long [OF wf free(1) long] in auto)
      moreover have "filed (concat (map snd gs)) depth (fst ?b) (fst (build_groups gs depth (fst ?b)))"
        by (rule 3(4) [OF r _ refl prod.collapse free(2) wf']) (use long in simp)
      ultimately show ?thesis
        using app long r by (simp add: build_groups.simps(2) case_prod_beta Let_def)
    qed
  qed
qed simp

lemma build_distinct:
  shows "distinct (dkeys out) \<Longrightarrow> distinct (dkeys (fst (build items d out)))"
    and "distinct (dkeys out) \<Longrightarrow> distinct (dkeys (fst (build_groups gs d out)))"
proof (induction items d out and gs d out rule: build_build_groups.induct)
  case (3 key grp gs depth out)
  consider (one) "length (remdups (map snd grp)) = 1"
    | (stop) "length (remdups (map snd grp)) \<noteq> 1" "\<not> list_ex (\<lambda>i. depth < length (fst i)) grp"
    | (deep) "length (remdups (map snd grp)) \<noteq> 1" "\<not> \<not> list_ex (\<lambda>i. depth < length (fst i)) grp"
    by blast
  then show ?case
  proof cases
    case one
    then show ?thesis using 3(1) [OF one] 3(5)
      by (simp add: build_groups.simps(2) distinct_dkeys_dset)
  next
    case stop
    then show ?thesis using 3(2) [OF stop] 3(5)
      by (simp add: build_groups.simps(2) case_prod_beta Let_def)
  next
    case deep
    then show ?thesis
      using 3(4) [OF deep refl prod.collapse 3(3) [OF deep]] 3(5)
      by (simp add: build_groups.simps(2) case_prod_beta Let_def distinct_dkeys_dset)
  qed
qed (simp_all add: build.simps)

section \<open>The dropped count\<close>

text \<open>An item whose stack another message was recorded with as well.\<close>

definition conflicted :: "'v item list \<Rightarrow> 'v item \<Rightarrow> bool" where
  "conflicted items i \<longleftrightarrow> (\<exists>j \<in> set items. fst j = fst i \<and> snd j \<noteq> snd i)"

lemma conflicted_cong: "set xs = set ys \<Longrightarrow> conflicted xs i = conflicted ys i"
  by (simp add: conflicted_def)

lemma mset_groups_of: "mset (concat (map snd (groups_of items d))) = mset items"
  unfolding groups_of_def by (rule mset_group_by)

lemma count_append:
  assumes "\<And>i j. i \<in> set xs \<Longrightarrow> j \<in> set ys \<Longrightarrow> fst i \<noteq> fst j"
  shows "length (filter (conflicted (xs @ ys)) (xs @ ys)) =
    length (filter (conflicted xs) xs) + length (filter (conflicted ys) ys)"
proof -
  have "conflicted (xs @ ys) i = conflicted xs i" if "i \<in> set xs" for i
    unfolding conflicted_def using assms [OF that] by (metis UnE UnI1 set_append)
  moreover have "conflicted (xs @ ys) j = conflicted ys j" if "j \<in> set ys" for j
    unfolding conflicted_def using assms [OF _ that] by (metis UnE UnI2 set_append)
  ultimately have "filter (conflicted (xs @ ys)) xs = filter (conflicted xs) xs"
    "filter (conflicted (xs @ ys)) ys = filter (conflicted ys) ys"
    by (auto intro: filter_cong)
  then show ?thesis by simp
qed

lemma build_dropped:
  shows "suffix_free items \<Longrightarrow> \<forall>i \<in> set items. d \<le> length (fst i) \<Longrightarrow>
      snd (build items d out) = length (filter (conflicted items) items)"
    and "suffix_free (concat (map snd gs)) \<Longrightarrow> wf_groups d gs \<Longrightarrow>
      snd (build_groups gs d out) =
      length (filter (conflicted (concat (map snd gs))) (concat (map snd gs)))"
proof (induction items d out and gs d out rule: build_build_groups.induct)
  case (1 items depth out)
  let ?C = "concat (map snd (groups_of items depth))"
  have C: "set ?C = set items" by (rule set_groups_of)
  have "snd (build items depth out) = length (filter (conflicted ?C) ?C)"
    unfolding build.simps
  proof (rule 1(1))
    show "suffix_free ?C" by (rule suffix_free_subset [OF 1(2)]) (simp only: C)
    show "wf_groups depth (groups_of items depth)" using 1(3) by (auto intro: wf_groups_of)
  qed
  also have "\<dots> = length (filter (conflicted items) ?C)"
  proof -
    have "conflicted ?C = conflicted items" by (intro ext conflicted_cong C)
    then show ?thesis by (rule arg_cong)
  qed
  also have "\<dots> = size (filter_mset (conflicted items) (mset ?C))"
    by (metis mset_filter size_mset)
  also have "\<dots> = length (filter (conflicted items) items)"
    unfolding mset_groups_of by (metis mset_filter size_mset)
  finally show ?case .
next
  case (3 key grp gs depth out)
  let ?rest = "concat (map snd gs)"
  have wf: "\<forall>i \<in> set grp. key_of (fst i) depth = key \<and> depth \<le> length (fst i)"
    and ne: "grp \<noteq> []" and wf': "wf_groups depth gs" and new: "key \<notin> fst ` set gs"
    using wf_groupsD [OF 3(6), of key grp] 3(6) by (simp_all add: wf_groups_def)
  have free: "suffix_free grp" "suffix_free ?rest"
    using 3(5) by (auto intro: suffix_free_subset)
  have "fst i \<noteq> fst j" if ij: "i \<in> set grp" "j \<in> set ?rest" for i j
  proof -
    obtain k g where kg: "(k, g) \<in> set gs" "j \<in> set g" using ij(2) by auto
    then have "key_of (fst j) depth = k" using wf_groupsD(2) [OF wf' kg(1)] by blast
    moreover have "k \<noteq> key" using new imageI [OF kg(1), of fst] by auto
    ultimately show ?thesis using wf ij(1) by auto
  qed
  note sum = count_append [of grp ?rest, OF this]
  obtain i where i: "i \<in> set grp" using ne by (cases grp) auto
  show ?case
  proof (cases "contested (set grp)")
    case False
    then have r: "length (remdups (map snd grp)) = 1" using one_value [OF i] by auto
    have "\<not> conflicted grp j" if "j \<in> set grp" for j
      unfolding conflicted_def using False that contested_def by blast
    then have "filter (conflicted grp) grp = []" by simp
    then show ?thesis using sum 3(1) [OF r free(2) wf'] r
      by (simp add: build_groups.simps(2))
  next
    case True
    then have r: "length (remdups (map snd grp)) \<noteq> 1" using one_value [OF i] by simp
    show ?thesis
    proof (cases "list_ex (\<lambda>i. depth < length (fst i)) grp")
      case False
      have same: "fst j = fst j'" if "j \<in> set grp" "j' \<in> set grp" for j j'
        using bspec [OF wf that(1)] bspec [OF wf that(2)] False that
        by (auto simp: list_ex_iff not_less key_of_eq_iff last_n_all)
      have "conflicted grp j" if j: "j \<in> set grp" for j
      proof (rule ccontr)
        assume "\<not> conflicted grp j"
        then have "snd j' = snd j" if "j' \<in> set grp" for j'
          unfolding conflicted_def using same [OF that j] that by blast
        then show False using True not_contested_iff [OF j] by blast
      qed
      then have "filter (conflicted grp) grp = grp" by simp
      then show ?thesis using sum 3(2) [OF r False free(2) wf'] r False
        by (simp add: build_groups.simps(2) case_prod_beta Let_def)
    next
      case long: True
      let ?b = "build grp (Suc depth) (dset key Deeper out)"
      have "snd ?b = length (filter (conflicted grp) grp)"
        by (rule 3(3)) (use r long free(1) one_group_long [OF wf free(1) long] in auto)
      moreover have "snd (build_groups gs depth (fst ?b)) = length (filter (conflicted ?rest) ?rest)"
        by (rule 3(4) [OF r _ refl prod.collapse free(2) wf']) (use long in simp)
      ultimately show ?thesis
        using sum long r by (simp add: build_groups.simps(2) case_prod_beta Let_def)
    qed
  qed
qed simp

section \<open>The lookup the generator writes\<close>

record message =
  signature :: str
  wording :: str
  subject :: str
  opener :: str

text \<open>
  \<open>lookup\<close> of the generated \<open>parser_messages.mbt\<close>, from depth \<open>depth\<close> on.  \<open>fits\<close> stands for
  \<open>message_fits\<close> of the MoonBit parser, which decides whether a message recorded with another
  signature may be borrowed; nothing is assumed of it.
\<close>

function lookup ::
  "(str \<Rightarrow> str \<Rightarrow> bool) \<Rightarrow> (str \<Rightarrow> message entry option) \<Rightarrow> nat \<Rightarrow> int list \<Rightarrow> str \<Rightarrow> nat \<Rightarrow> message option"
where
  "lookup fits entry_of max_depth stack sig depth =
     (if depth \<le> length stack \<and> depth \<le> max_depth
      then (case entry_of (key_of stack depth) of
              None \<Rightarrow> None
            | Some (Msg m) \<Rightarrow>
                if signature m = sig \<or> fits (wording m) sig then Some m else None
            | Some Deeper \<Rightarrow> lookup fits entry_of max_depth stack sig (Suc depth))
      else None)"
  by pat_completeness auto
termination
  by (relation "measure (\<lambda>(fits, entry_of, max_depth, stack, sig, depth). Suc (length stack) - depth)")
    auto

declare lookup.simps [simp del]

text \<open>
  What the lookup relies on: on stacks of which none is a proper suffix of another, the table
  holds exactly the live keys of the recorded items, each with the entry of its class.
\<close>

locale message_table =
  fixes tab :: "message item list \<Rightarrow> str \<Rightarrow> message entry option"
  assumes live_entry: "suffix_free items \<Longrightarrow> i \<in> set items \<Longrightarrow> live items 1 i e \<Longrightarrow>
      tab items (key_of (fst i) e) = class_entry items i e None"
    and only_live: "suffix_free items \<Longrightarrow> tab items k \<noteq> None \<Longrightarrow>
      \<exists>i \<in> set items. \<exists>e. live items 1 i e \<and> k = key_of (fst i) e"
begin

lemma last_class:
  assumes "suffix_free items" "i \<in> set items" "\<not> conflicted items i"
    and "length (fst i) \<le> e" "live items 1 i e"
  shows "\<not> contested (same_key e (fst i) items)"
proof -
  have e: "e = length (fst i)" using assms(4) live_depth(2) [OF assms(5)] by simp
  have "snd j = snd i" if j: "j \<in> same_key e (fst i) items" for j
  proof -
    have "suffix (fst i) (fst j)"
      by (rule suffix_of_key [of _ e]) (use j e in \<open>simp_all add: same_key_def\<close>)
    moreover have mem: "j \<in> set items" using j by (simp add: same_key_def)
    ultimately have "fst i = fst j" by (intro suffix_freeD [OF assms(1,2)])
    then show ?thesis using assms(3) mem unfolding conflicted_def by metis
  qed
  moreover have "i \<in> same_key e (fst i) items" using assms(2) by (simp add: same_key_def)
  ultimately show ?thesis using not_contested_iff by blast
qed

lemma lookup_item:
  assumes free: "suffix_free items" and i: "i \<in> set items" and alone: "\<not> conflicted items i"
    and bound: "\<And>k. tab items k \<noteq> None \<Longrightarrow> length (words k) \<le> max_depth"
  shows "live items 1 i d \<Longrightarrow>
    lookup fits (tab items) max_depth (fst i) (signature (snd i)) d = Some (snd i)"
proof (induction "length (fst i) - d" arbitrary: d rule: less_induct)
  case less
  have d: "d \<le> length (fst i)" by (rule live_depth(2) [OF less.prems])
  have entry: "tab items (key_of (fst i) d) = class_entry items i d None"
    by (rule live_entry [OF free i less.prems])
  have deep: "d \<le> max_depth" if "tab items (key_of (fst i) d) \<noteq> None"
    using bound [OF that] d by (simp add: words_key_of)
  show ?case
  proof (cases "contested (same_key d (fst i) items)")
    case False
    then show ?thesis using entry deep d by (subst lookup.simps) (simp add: class_entry_def)
  next
    case True
    then have lt: "d < length (fst i)"
      using last_class [OF free i alone _ less.prems] by (meson not_le_imp_less)
    have "live items 1 i (Suc d)"
      using less.prems lt True by (auto simp: live_def less_Suc_eq)
    then have "lookup fits (tab items) max_depth (fst i) (signature (snd i)) (Suc d) = Some (snd i)"
      using less.hyps lt by simp
    then show ?thesis using entry deep d True lt
      by (subst lookup.simps) (simp add: class_entry_def)
  qed
qed

lemma lookup_sound:
  assumes free: "suffix_free items" and d: "1 \<le> d"
    and found: "lookup fits (tab items) max_depth st sig d = Some m"
  shows "\<exists>e i. d \<le> e \<and> e \<le> length st \<and> i \<in> set items \<and> last_n e (fst i) = last_n e st \<and>
    snd i = m \<and> (\<forall>j \<in> set items. last_n e (fst j) = last_n e st \<longrightarrow> snd j = m) \<and>
    (\<forall>e' \<in> {d..<e}. contested (same_key e' st items)) \<and>
    (signature m = sig \<or> fits (wording m) sig)"
  using d found
proof (induction "length st - d" arbitrary: d rule: less_induct)
  case less
  have le: "d \<le> length st" using less.prems(2) by (subst (asm) lookup.simps) (auto split: if_splits)
  obtain en where en: "tab items (key_of st d) = Some en"
    using less.prems(2) by (subst (asm) lookup.simps) (auto split: if_splits option.splits)
  then obtain i e where i: "i \<in> set items" "live items 1 i e" "key_of st d = key_of (fst i) e"
    using only_live [OF free, of "key_of st d"] by auto
  have "d = e" using i(3) le live_depth(2) [OF i(2)] by (rule key_of_depth)
  note i = i [folded this]
  have cls: "same_key d st items = same_key d (fst i) items" using i(3) by (simp add: same_key_def)
  have ce: "class_entry items i d None = Some en"
    using live_entry [OF free i(1,2)] en i(3) by simp
  show ?case
  proof (cases en)
    case (Msg v)
    then have c: "\<not> contested (same_key d (fst i) items)" and v: "v = snd i"
      using ce by (auto simp: class_entry_def split: if_splits)
    have m: "m = snd i \<and> (signature m = sig \<or> fits (wording m) sig)"
      using less.prems(2) en Msg v by (subst (asm) lookup.simps) (auto split: if_splits)
    have "i \<in> same_key d (fst i) items" using i(1) by (simp add: same_key_def)
    then have all: "\<forall>j \<in> same_key d (fst i) items. snd j = snd i"
      using c not_contested_iff by blast
    have top: "last_n d (fst i) = last_n d st" using i(3) by (simp add: key_of_eq_iff)
    have "snd j = m" if "j \<in> set items" "last_n d (fst j) = last_n d st" for j
    proof -
      have "key_of (fst j) d = key_of (fst i) d" by (simp only: key_of_eq_iff top that(2))
      then have "j \<in> same_key d (fst i) items" using that(1) by (simp add: same_key_def)
      then have "snd j = snd i" using all by blast
      then show ?thesis using m by simp
    qed
    then have "\<forall>j \<in> set items. last_n d (fst j) = last_n d st \<longrightarrow> snd j = m" by blast
    moreover have "snd i = m" "signature m = sig \<or> fits (wording m) sig" using m by auto
    moreover have "\<forall>e' \<in> {d..<d}. contested (same_key e' st items)" by simp
    ultimately show ?thesis using i(1) le top order_refl by blast
  next
    case Deeper
    then have c: "contested (same_key d st items)" "d < length (fst i)"
      using ce cls by (auto simp: class_entry_def split: if_splits)
    have rec: "lookup fits (tab items) max_depth st sig (Suc d) = Some m"
      using less.prems(2) en Deeper by (subst (asm) lookup.simps) (auto split: if_splits)
    then have "Suc d \<le> length st" by (subst (asm) lookup.simps) (auto split: if_splits)
    then have "length st - Suc d < length st - d" "1 \<le> Suc d" by simp_all
    from less.hyps [OF this rec]
    obtain e i' where e: "Suc d \<le> e" "e \<le> length st" "i' \<in> set items"
      "last_n e (fst i') = last_n e st" "snd i' = m"
      "\<forall>j \<in> set items. last_n e (fst j) = last_n e st \<longrightarrow> snd j = m"
      "\<forall>e' \<in> {Suc d..<e}. contested (same_key e' st items)"
      "signature m = sig \<or> fits (wording m) sig"
      by blast
    have "\<forall>e' \<in> {d..<e}. contested (same_key e' st items)"
      using c(1) e(7) by (auto simp: less_Suc_eq Suc_le_eq order.order_iff_strict)
    moreover have "d \<le> e" using e(1) by simp
    ultimately show ?thesis using e(2-6,8) by blast
  qed
qed

end

lemma suffix_free_len: "suffix_free items \<Longrightarrow> \<forall>i \<in> set items. 1 \<le> length (fst i)"
  unfolding suffix_free_def One_nat_def Suc_le_eq length_greater_0_conv by (rule conjunct1)

interpretation mt: message_table "\<lambda>items. dget (fst (build items 1 []))"
proof unfold_locales
  fix items :: "message item list" and i e
  assume free: "suffix_free items" and i: "i \<in> set items" "live items 1 i e"
  show "dget (fst (build items 1 [])) (key_of (fst i) e) = class_entry items i e None"
    using filedD [OF build_filed(1) [OF free suffix_free_len [OF free]] i] by simp
next
  fix items :: "message item list" and k
  assume free: "suffix_free items" and k: "dget (fst (build items 1 [])) k \<noteq> None"
  show "\<exists>i \<in> set items. \<exists>e. live items 1 i e \<and> k = key_of (fst i) e"
  proof (rule ccontr)
    assume "\<not> ?thesis"
    then have "dget (fst (build items 1 [])) k = dget [] k"
      by (intro filed_frame [OF build_filed(1) [OF free suffix_free_len [OF free]]]) blast
    with k show False by simp
  qed
qed

end
