(* ===== verification/Py_Regex.thy ===== *)
theory Py_Regex
  imports Py_Text
begin

text \<open>
  The part of Python's \<open>re\<close> that the tools use: a backtracking matcher as the list of its
  successes, in the order the engine tries them, so that the first element is the match
  Python reports.  A position is the text already consumed (last character first) and the
  text still ahead; the first serves \<open>^\<close> and \<open>\b\<close>.  No pattern of the tools repeats an
  expression that matches the empty string, so an iteration of a repetition that consumes
  nothing is simply not tried.
\<close>

section \<open>Patterns and their matches\<close>

type_synonym pos = "str \<times> str"
type_synonym caps = "(nat, str) dict"

datatype rx =
    Eps
  | CharIf "char \<Rightarrow> bool"
  | Cat rx rx
  | Alt rx rx
  | Many rx        \<comment> \<open>\<open>r*\<close>\<close>
  | ManyLazy rx    \<comment> \<open>\<open>r*?\<close>\<close>
  | Grp nat rx     \<comment> \<open>capturing group\<close>
  | NotAhead rx    \<comment> \<open>\<open>(?!r)\<close>\<close>
  | Bol            \<comment> \<open>\<open>^\<close>\<close>
  | BolM           \<comment> \<open>\<open>^\<close> with \<open>re.M\<close>\<close>
  | Eol            \<comment> \<open>\<open>$\<close>\<close>
  | WordB          \<comment> \<open>\<open>\b\<close>\<close>

definition between :: "pos \<Rightarrow> pos \<Rightarrow> str" where
  \<comment> \<open>the text consumed from one position to a later one\<close>
  "between p q = rev (take (length (fst q) - length (fst p)) (fst q))"

definition word_before :: "pos \<Rightarrow> bool" where
  "word_before p \<longleftrightarrow> (case fst p of [] \<Rightarrow> False | c # _ \<Rightarrow> is_word c)"

definition word_after :: "pos \<Rightarrow> bool" where
  "word_after p \<longleftrightarrow> (case snd p of [] \<Rightarrow> False | c # _ \<Rightarrow> is_word c)"

definition char_step :: "(char \<Rightarrow> bool) \<Rightarrow> pos \<Rightarrow> caps \<Rightarrow> (pos \<times> caps) list" where
  "char_step P p cs = (case snd p of [] \<Rightarrow> []
     | c # s \<Rightarrow> if P c then [((c # fst p, s), cs)] else [])"

definition guard :: "bool \<Rightarrow> pos \<Rightarrow> caps \<Rightarrow> (pos \<times> caps) list" where
  "guard b p cs = (if b then [(p, cs)] else [])"

function ms :: "rx \<Rightarrow> pos \<Rightarrow> caps \<Rightarrow> (pos \<times> caps) list" where
  "ms Eps p cs = [(p, cs)]"
| "ms (CharIf P) p cs = char_step P p cs"
| "ms (Cat r r') p cs = concat (map (\<lambda>m. ms r' (fst m) (snd m)) (ms r p cs))"
| "ms (Alt r r') p cs = ms r p cs @ ms r' p cs"
| "ms (Many r) p cs =
     concat (map (\<lambda>m. if length (snd (fst m)) < length (snd p)
                      then ms (Many r) (fst m) (snd m) else []) (ms r p cs)) @ [(p, cs)]"
| "ms (ManyLazy r) p cs = (p, cs) #
     concat (map (\<lambda>m. if length (snd (fst m)) < length (snd p)
                      then ms (ManyLazy r) (fst m) (snd m) else []) (ms r p cs))"
| "ms (Grp n r) p cs = map (\<lambda>m. (fst m, dset n (between p (fst m)) (snd m))) (ms r p cs)"
| "ms (NotAhead r) p cs = guard (ms r p cs = []) p cs"
| "ms Bol p cs = guard (fst p = []) p cs"
| "ms BolM p cs = guard (fst p = [] \<or> hd (fst p) = LF) p cs"
| "ms Eol p cs = guard (snd p = [] \<or> snd p = [LF]) p cs"
| "ms WordB p cs = guard (word_before p \<noteq> word_after p) p cs"
  by pat_completeness auto
termination
  by (relation "measures [\<lambda>(r, p, cs). size r, \<lambda>(r, p, cs). length (snd p)]") auto

declare ms.simps(5,6) [simp del]

text \<open>Abbreviations for the usual derived forms.\<close>

definition lit :: "str \<Rightarrow> rx" where
  "lit s = foldr (\<lambda>c r. Cat (CharIf (\<lambda>d. d = c)) r) s Eps"

definition any_of :: "str \<Rightarrow> rx" where
  "any_of s = CharIf (\<lambda>d. d \<in> set s)"

definition none_of :: "str \<Rightarrow> rx" where
  "none_of s = CharIf (\<lambda>d. d \<notin> set s)"

definition dot :: rx where
  "dot = CharIf (\<lambda>d. d \<noteq> LF)"

definition opt :: "rx \<Rightarrow> rx" where
  "opt r = Alt r Eps"

definition plus :: "rx \<Rightarrow> rx" where
  "plus r = Cat r (Many r)"

fun cat :: "rx list \<Rightarrow> rx" where
  "cat [] = Eps"
| "cat [r] = r"
| "cat (r # r' # rs) = Cat r (cat (r' # rs))"

fun alts :: "rx list \<Rightarrow> rx" where
  "alts [] = CharIf (\<lambda>_. False)"
| "alts [r] = r"
| "alts (r # r' # rs) = Alt r (alts (r' # rs))"

lemmas rx_defs = lit_def any_of_def none_of_def dot_def opt_def plus_def char_step_def guard_def
  word_before_def word_after_def

text \<open>A match moves forward over the text and leaves the rest as it was.\<close>

definition ahead :: "pos \<Rightarrow> pos \<Rightarrow> bool" where
  "ahead p q \<longleftrightarrow> (\<exists>t. snd p = t @ snd q \<and> fst q = rev t @ fst p)"

lemma ahead_refl [simp]: "ahead p p"
  by (simp add: ahead_def)

lemma ahead_trans: "ahead p q \<Longrightarrow> ahead q r \<Longrightarrow> ahead p r"
  unfolding ahead_def by (metis append_assoc rev_append)

lemma ahead_between: "ahead p q \<Longrightarrow> snd p = between p q @ snd q"
  by (auto simp: ahead_def between_def)

lemma ms_ahead: "m \<in> set (ms r p cs) \<Longrightarrow> ahead p (fst m)"
proof (induction r p cs arbitrary: m rule: ms.induct)
  case (2 P p cs)
  then show ?case by (auto simp: char_step_def ahead_def split: list.splits if_splits)
next
  case (3 r r' p cs)
  from 3(3) obtain m' where m': "m' \<in> set (ms r p cs)" "m \<in> set (ms r' (fst m') (snd m'))"
    by auto
  show ?case using 3(1) [OF m'(1)] 3(2) [OF m'] by (rule ahead_trans)
next
  case (5 r p cs)
  from 5(3) consider "m = (p, cs)" | m' where "m' \<in> set (ms r p cs)"
    "length (snd (fst m')) < length (snd p)" "m \<in> set (ms (Many r) (fst m') (snd m'))"
    by (auto simp: ms.simps(5) [of r p cs] split: if_splits)
  then show ?case
  proof cases
    case 2
    show ?thesis using 5(1) [OF 2(1)] 5(2) [OF 2] by (rule ahead_trans)
  qed simp
next
  case (6 r p cs)
  from 6(3) consider "m = (p, cs)" | m' where "m' \<in> set (ms r p cs)"
    "length (snd (fst m')) < length (snd p)" "m \<in> set (ms (ManyLazy r) (fst m') (snd m'))"
    by (auto simp: ms.simps(6) [of r p cs] split: if_splits)
  then show ?case
  proof cases
    case 2
    show ?thesis using 6(1) [OF 2(1)] 6(2) [OF 2] by (rule ahead_trans)
  qed simp
qed (auto simp: guard_def split: if_splits)

lemma ahead_length: "ahead p q \<Longrightarrow> length (snd q) \<le> length (snd p)"
  by (auto simp: ahead_def)

lemma ms_length: "m \<in> set (ms r p cs) \<Longrightarrow> length (snd (fst m)) \<le> length (snd p)"
  by (rule ahead_length [OF ms_ahead])

lemma ahead_set: "ahead p q \<Longrightarrow> set (snd q) \<subseteq> set (snd p)"
  by (auto simp: ahead_def)

text \<open>What a group captures is text that stood ahead.\<close>

definition captured :: "str \<Rightarrow> caps \<Rightarrow> caps \<Rightarrow> bool" where
  "captured s cs cs' \<longleftrightarrow> (\<forall>n v. dget cs' n = Some v \<longrightarrow> dget cs n = Some v \<or> set v \<subseteq> set s)"

lemma captured_refl [simp]: "captured s cs cs"
  by (simp add: captured_def)

lemma captured_trans:
  "captured s cs cs' \<Longrightarrow> captured t cs' cs'' \<Longrightarrow> set t \<subseteq> set s \<Longrightarrow> captured s cs cs''"
  unfolding captured_def by (metis subset_trans)

lemma ms_captured: "m \<in> set (ms r p cs) \<Longrightarrow> captured (snd p) cs (snd m)"
proof (induction r p cs arbitrary: m rule: ms.induct)
  case (2 P p cs)
  then show ?case by (auto simp: char_step_def split: list.splits if_splits)
next
  case (3 r r' p cs)
  from 3(3) obtain m' where m': "m' \<in> set (ms r p cs)" "m \<in> set (ms r' (fst m') (snd m'))"
    by auto
  show ?case
    by (rule captured_trans [OF 3(1) [OF m'(1)] 3(2) [OF m'] ahead_set [OF ms_ahead [OF m'(1)]]])
next
  case (5 r p cs)
  from 5(3) consider "m = (p, cs)" | m' where "m' \<in> set (ms r p cs)"
    "length (snd (fst m')) < length (snd p)" "m \<in> set (ms (Many r) (fst m') (snd m'))"
    by (auto simp: ms.simps(5) [of r p cs] split: if_splits)
  then show ?case
  proof cases
    case 2
    show ?thesis by (rule captured_trans [OF 5(1) [OF 2(1)] 5(2) [OF 2] ahead_set [OF ms_ahead [OF 2(1)]]])
  qed simp
next
  case (6 r p cs)
  from 6(3) consider "m = (p, cs)" | m' where "m' \<in> set (ms r p cs)"
    "length (snd (fst m')) < length (snd p)" "m \<in> set (ms (ManyLazy r) (fst m') (snd m'))"
    by (auto simp: ms.simps(6) [of r p cs] split: if_splits)
  then show ?case
  proof cases
    case 2
    show ?thesis by (rule captured_trans [OF 6(1) [OF 2(1)] 6(2) [OF 2] ahead_set [OF ms_ahead [OF 2(1)]]])
  qed simp
next
  case (7 n r p cs)
  then obtain m' where m': "m' \<in> set (ms r p cs)" "m = (fst m', dset n (between p (fst m')) (snd m'))"
    by auto
  have "set (between p (fst m')) \<subseteq> set (snd p)"
    using ahead_between [OF ms_ahead [OF m'(1)]] by (metis Un_upper1 set_append)
  then show ?case using 7(1) [OF m'(1)] m'(2) by (simp add: captured_def)
qed (auto simp: guard_def split: if_splits)

section \<open>match, search, findall, sub, split\<close>

definition rx_match_at :: "rx \<Rightarrow> pos \<Rightarrow> (pos \<times> caps) option" where
  "rx_match_at r p = (case ms r p [] of [] \<Rightarrow> None | m # _ \<Rightarrow> Some m)"

definition rx_match :: "rx \<Rightarrow> str \<Rightarrow> caps option" where
  \<comment> \<open>\<open>re.match\<close>: the groups of a match that starts at the first character\<close>
  "rx_match r s = map_option snd (rx_match_at r ([], s))"

definition group :: "caps \<Rightarrow> nat \<Rightarrow> str" where
  \<comment> \<open>\<open>m.group(n)\<close>, a group that took no part in the match read as empty\<close>
  "group cs n = (case dget cs n of None \<Rightarrow> [] | Some s \<Rightarrow> s)"

lemma rx_match_group: "rx_match r s = Some g \<Longrightarrow> set (group g n) \<subseteq> set s"
  using ms_captured [of _ r "([], s)" "[]"]
  by (force simp: rx_match_def rx_match_at_def group_def captured_def split: list.splits option.splits)

text \<open>
  \<open>scan\<close> cuts a text into the successive matches and the characters between them; the other
  operations read their result off it.
\<close>

datatype seg = Gap char | Hit str caps

fun seg_text :: "seg \<Rightarrow> str" where
  "seg_text (Gap c) = [c]"
| "seg_text (Hit t cs) = t"

fun hit :: "seg \<Rightarrow> (str \<times> caps) list" where
  "hit (Gap c) = []"
| "hit (Hit t cs) = [(t, cs)]"

function scan_from :: "rx \<Rightarrow> pos \<Rightarrow> seg list" where
  "scan_from r (b, []) = (case rx_match_at r (b, []) of None \<Rightarrow> [] | Some (q, cs) \<Rightarrow> [Hit [] cs])"
| "scan_from r (b, c # s) = (case rx_match_at r (b, c # s) of
      None \<Rightarrow> Gap c # scan_from r (c # b, s)
    | Some (q, cs) \<Rightarrow>
        if length (snd q) < length (c # s)
        then Hit (between (b, c # s) q) cs # scan_from r q
        else Hit [] cs # Gap c # scan_from r (c # b, s))"
  by pat_completeness auto
termination by (relation "measure (\<lambda>(r, p). length (snd p))") auto

definition scan :: "rx \<Rightarrow> str \<Rightarrow> seg list" where
  "scan r s = scan_from r ([], s)"

definition rx_findall :: "rx \<Rightarrow> str \<Rightarrow> (str \<times> caps) list" where
  "rx_findall r s = concat (map hit (scan r s))"

definition rx_search :: "rx \<Rightarrow> str \<Rightarrow> caps option" where
  "rx_search r s = (case rx_findall r s of [] \<Rightarrow> None | m # _ \<Rightarrow> Some (snd m))"

fun seg_sub :: "str \<Rightarrow> seg \<Rightarrow> str" where
  "seg_sub new (Gap c) = [c]"
| "seg_sub new (Hit t cs) = new"

definition rx_sub :: "rx \<Rightarrow> str \<Rightarrow> str \<Rightarrow> str" where
  "rx_sub r new s = concat (map (seg_sub new) (scan r s))"

fun pieces :: "seg list \<Rightarrow> str list" where
  "pieces [] = [[]]"
| "pieces (Gap c # ss) = (case pieces ss of [] \<Rightarrow> [[c]] | t # ts \<Rightarrow> (c # t) # ts)"
| "pieces (Hit t cs # ss) = [] # pieces ss"

definition rx_split :: "rx \<Rightarrow> str \<Rightarrow> str list" where
  "rx_split r s = pieces (scan r s)"

lemma rx_match_at_ahead: "rx_match_at r p = Some (q, cs) \<Longrightarrow> ahead p q"
  using ms_ahead [of "(q, cs)" r p "[]"]
  by (auto simp: rx_match_at_def split: list.splits)

text \<open>The cut loses nothing: matches and gaps together are the text.\<close>

lemma scan_from_text: "concat (map seg_text (scan_from r p)) = snd p"
proof (induction r p rule: scan_from.induct)
  case (1 r b)
  then show ?case by (auto split: option.splits)
next
  case (2 r b c s)
  show ?case
  proof (cases "rx_match_at r (b, c # s)")
    case None
    then show ?thesis using 2(1) by simp
  next
    case (Some m)
    obtain q cs where m: "m = (q, cs)" by (cases m)
    have "c # s = between (b, c # s) q @ snd q"
      using Some m rx_match_at_ahead ahead_between by (metis snd_conv)
    then show ?thesis using Some m 2(2,3) by (cases "length (snd q) < length (c # s)") auto
  qed
qed

lemma scan_text: "concat (map seg_text (scan r s)) = s"
  by (simp add: scan_def scan_from_text)

lemma scan_from_gap:
  "Gap c \<in> set (scan_from r p) \<Longrightarrow>
   \<exists>b s. \<forall>m. rx_match_at r (b, c # s) = Some m \<longrightarrow> length (snd (fst m)) = Suc (length s)"
proof (induction r p rule: scan_from.induct)
  case (1 r b)
  then show ?case by (auto split: option.splits)
next
  case (2 r b d s)
  show ?case
  proof (cases "rx_match_at r (b, d # s)")
    case None
    show ?thesis
    proof (cases "c = d")
      case True
      show ?thesis by (rule exI [of _ b], rule exI [of _ s]) (simp add: True None)
    next
      case False
      then show ?thesis using None 2(1,4) by simp
    qed
  next
    case (Some m)
    obtain q cs where m: "m = (q, cs)" by (cases m)
    have "length (snd q) \<le> Suc (length s)"
      using Some m ahead_length [OF rx_match_at_ahead [of r "(b, d # s)" q cs]] by simp
    show ?thesis
    proof (cases "length (snd q) < length (d # s)")
      case True
      have "Gap c \<in> set (scan_from r q)" using 2(4) Some m True by simp
      then show ?thesis by (rule 2(2) [OF Some m [symmetric] True])
    next
      case False
      show ?thesis
      proof (cases "c = d")
        case True
        show ?thesis
          by (rule exI [of _ b], rule exI [of _ s])
            (use True False Some m \<open>length (snd q) \<le> Suc (length s)\<close> in simp)
      next
        case neq: False
        have "Gap c \<in> set (scan_from r (d # b, s))" using 2(4) Some m False neq by simp
        then show ?thesis by (rule 2(3) [OF Some m [symmetric] False])
      qed
    qed
  qed
qed

lemma scan_from_hit:
  "Hit t cs \<in> set (scan_from r p) \<Longrightarrow>
   \<exists>p' q. rx_match_at r p' = Some (q, cs) \<and> (length (snd q) < length (snd p') \<longrightarrow> t = between p' q)"
proof (induction r p rule: scan_from.induct)
  case (1 r b)
  then obtain q where "rx_match_at r (b, []) = Some (q, cs)"
    by (cases "rx_match_at r (b, [])") auto
  then show ?case by (metis length_0_conv not_less_zero snd_conv)
next
  case (2 r b d s)
  show ?case
  proof (cases "rx_match_at r (b, d # s)")
    case None
    then show ?thesis using 2(1,4) by auto
  next
    case (Some m)
    obtain q cs' where m: "m = (q, cs')" by (cases m)
    show ?thesis
    proof (cases "length (snd q) < length (d # s)")
      case True
      then consider "t = between (b, d # s) q" "cs = cs'" | "Hit t cs \<in> set (scan_from r q)"
        using 2(4) Some m by auto
      then show ?thesis
      proof cases
        case 1
        then show ?thesis using Some m by blast
      next
        case second: 2
        show ?thesis by (rule 2(2) [OF Some m [symmetric] True second])
      qed
    next
      case False
      then consider "cs = cs'" | "Hit t cs \<in> set (scan_from r (d # b, s))"
        using 2(4) Some m by auto
      then show ?thesis
      proof cases
        case 1
        then show ?thesis using Some m False by (metis snd_conv)
      next
        case second: 2
        show ?thesis by (rule 2(3) [OF Some m [symmetric] False second])
      qed
    qed
  qed
qed

section \<open>Evaluation\<close>

text \<open>
  The list of all successes is more than a match needs.  \<open>fm\<close> runs a sequence of patterns and
  stops at its first success, and tries a lazy repetition of a character one length at a time; it
  is the code equation of \<open>rx_match_at\<close>.
\<close>

fun flat :: "rx \<Rightarrow> rx list" where
  "flat (Cat r r') = flat r @ flat r'"
| "flat r = [r]"

fun lazy_of :: "rx \<Rightarrow> (nat option \<times> (char \<Rightarrow> bool)) option" where
  "lazy_of (ManyLazy (CharIf P)) = Some (None, P)"
| "lazy_of (Grp n (ManyLazy (CharIf P))) = Some (Some n, P)"
| "lazy_of _ = None"

definition cap_group :: "nat option \<Rightarrow> str \<Rightarrow> caps \<Rightarrow> caps" where
  "cap_group n v cs = (case n of None \<Rightarrow> cs | Some k \<Rightarrow> dset k v cs)"

function fm :: "rx list \<Rightarrow> pos \<Rightarrow> caps \<Rightarrow> (pos \<times> caps) option"
  and fm_try :: "rx list \<Rightarrow> (pos \<times> caps) list \<Rightarrow> (pos \<times> caps) option"
  and fm_lazy :: "nat option \<Rightarrow> (char \<Rightarrow> bool) \<Rightarrow> rx list \<Rightarrow> pos \<Rightarrow> pos \<Rightarrow> caps \<Rightarrow> (pos \<times> caps) option"
where
  "fm [] p cs = Some (p, cs)"
| "fm (r # rs) p cs = (case lazy_of r of
      Some nP \<Rightarrow> fm_lazy (fst nP) (snd nP) rs p p cs | None \<Rightarrow> fm_try rs (ms r p cs))"
| "fm_try rs [] = None"
| "fm_try rs (m # l) = (case fm rs (fst m) (snd m) of Some x \<Rightarrow> Some x | None \<Rightarrow> fm_try rs l)"
| "fm_lazy n P rs p (b, []) cs = fm rs (b, []) (cap_group n (between p (b, [])) cs)"
| "fm_lazy n P rs p (b, c # s) cs = (case fm rs (b, c # s) (cap_group n (between p (b, c # s)) cs) of
      Some x \<Rightarrow> Some x | None \<Rightarrow> if P c then fm_lazy n P rs p (c # b, s) cs else None)"
  by pat_completeness auto
termination
  by (relation "measures
    [\<lambda>x. case x of Inl (rs, _) \<Rightarrow> 2 * length rs | Inr (Inl (rs, _)) \<Rightarrow> Suc (2 * length rs)
       | Inr (Inr (_, _, rs, _)) \<Rightarrow> Suc (2 * length rs),
     \<lambda>x. case x of Inl _ \<Rightarrow> 0 | Inr (Inl (_, l)) \<Rightarrow> length l | Inr (Inr (_, _, _, _, q, _)) \<Rightarrow> length (snd q)]")
    auto

definition head :: "'a list \<Rightarrow> 'a option" where
  "head xs = (case xs of [] \<Rightarrow> None | x # _ \<Rightarrow> Some x)"

lemma head_append: "head (xs @ ys) = (case head xs of Some x \<Rightarrow> Some x | None \<Rightarrow> head ys)"
  by (cases xs) (auto simp: head_def)

fun mseq :: "rx list \<Rightarrow> pos \<Rightarrow> caps \<Rightarrow> (pos \<times> caps) list" where
  "mseq [] p cs = [(p, cs)]"
| "mseq (r # rs) p cs = concat (map (\<lambda>m. mseq rs (fst m) (snd m)) (ms r p cs))"

lemma ms_lazy_char:
  "ms (ManyLazy (CharIf P)) (b, []) cs = [((b, []), cs)]"
  "ms (ManyLazy (CharIf P)) (b, c # s) cs =
     ((b, c # s), cs) # (if P c then ms (ManyLazy (CharIf P)) (c # b, s) cs else [])"
  by (simp_all add: ms.simps(6) [of "CharIf P" "(b, _)"] char_step_def)

lemma mseq_lazy:
  "lazy_of r = Some nP \<Longrightarrow> mseq (r # rs) p cs =
     concat (map (\<lambda>m. mseq rs (fst m) (cap_group (fst nP) (between p (fst m)) (snd m))) (ms (ManyLazy (CharIf (snd nP))) p cs))"
  by (cases r rule: lazy_of.cases) (auto simp: cap_group_def comp_def)

lemma fm_head:
  "fm rs p cs = head (mseq rs p cs)"
  "fm_try rs l = head (concat (map (\<lambda>m. mseq rs (fst m) (snd m)) l))"
  "fm_lazy n P rs p q cs =
     head (concat (map (\<lambda>m. mseq rs (fst m) (cap_group n (between p (fst m)) (snd m))) (ms (ManyLazy (CharIf P)) q cs)))"
proof (induction rs p cs and rs l and n P rs p q cs rule: fm_fm_try_fm_lazy.induct)
  case (2 r rs p cs)
  show ?case
  proof (cases "lazy_of r")
    case None
    then show ?thesis using 2 by simp
  next
    case (Some nP)
    show ?thesis unfolding mseq_lazy [OF Some] using 2 Some by simp
  qed
next
  case (6 n P rs p b c s cs)
  then show ?case by (simp add: ms_lazy_char head_append head_def [of "[]"] split: option.split)
qed (simp_all add: head_def [of "[_]"] head_def [of "[]"] head_append ms_lazy_char split: option.split)

lemma mseq_flat: "mseq (flat r @ rs) p cs = concat (map (\<lambda>m. mseq rs (fst m) (snd m)) (ms r p cs))"
proof (induction r arbitrary: rs p cs rule: flat.induct)
  case (1 r r')
  have "concat (map f (concat (map g xs))) = concat (map (\<lambda>x. concat (map f (g x))) xs)"
    for f :: "pos \<times> caps \<Rightarrow> (pos \<times> caps) list" and g :: "pos \<times> caps \<Rightarrow> (pos \<times> caps) list" and xs
    by (induction xs) auto
  then show ?case by (simp add: 1)
qed simp_all

lemma rx_match_at_code [code]: "rx_match_at r p = fm (flat r) p []"
proof -
  have "concat (map (\<lambda>m. [m]) xs) = xs" for xs :: "(pos \<times> caps) list" by (induction xs) auto
  then have "mseq (flat r) p [] = ms r p []" using mseq_flat [of r "[]" p "[]"] by simp
  then show ?thesis by (simp add: fm_head rx_match_at_def head_def split: list.split)
qed

text \<open>A scan flattens its pattern once.\<close>

fun search_flat :: "rx list \<Rightarrow> str \<Rightarrow> str \<Rightarrow> caps option" where
  "search_flat rs b [] = map_option snd (fm rs (b, []) [])"
| "search_flat rs b (c # s) = (case fm rs (b, c # s) [] of
      Some m \<Rightarrow> Some (snd m) | None \<Rightarrow> search_flat rs (c # b) s)"

lemma rx_search_code [code]: "rx_search r s = search_flat (flat r) [] s"
proof -
  have "search_flat (flat r) b s = (case concat (map hit (scan_from r (b, s))) of [] \<Rightarrow> None | m # _ \<Rightarrow> Some (snd m))" for b
    by (induction "flat r" b s rule: search_flat.induct) (auto simp: rx_match_at_code split: option.split)
  then show ?thesis by (simp add: rx_search_def rx_findall_def scan_def)
qed

function scan_flat :: "rx list \<Rightarrow> str \<Rightarrow> str \<Rightarrow> seg list" where
  "scan_flat rs b [] = (case fm rs (b, []) [] of None \<Rightarrow> [] | Some m \<Rightarrow> [Hit [] (snd m)])"
| "scan_flat rs b (c # s) = (case fm rs (b, c # s) [] of
      None \<Rightarrow> Gap c # scan_flat rs (c # b) s
    | Some m \<Rightarrow>
        if length (snd (fst m)) < length (c # s)
        then Hit (between (b, c # s) (fst m)) (snd m) # scan_flat rs (fst (fst m)) (snd (fst m))
        else Hit [] (snd m) # Gap c # scan_flat rs (c # b) s)"
  by pat_completeness auto
termination by (relation "measure (\<lambda>(rs, b, s). length s)") auto

lemma scan_code [code]: "scan r s = scan_flat (flat r) [] s"
proof -
  have "scan_from r p = scan_flat (flat r) (fst p) (snd p)" for p
    by (induction r p rule: scan_from.induct) (auto simp: rx_match_at_code split: option.split)
  then show ?thesis by (simp add: scan_def)
qed

section \<open>Patterns that start wherever a class of characters does\<close>

text \<open>
  The contract of a scanner: wherever a character of the class stands, the pattern matches at
  least that character.  Then the characters between the matches are outside the class.
\<close>

locale scanner =
  fixes r :: rx and P :: "char \<Rightarrow> bool"
  assumes starts: "P c \<Longrightarrow> \<exists>m. rx_match_at r (b, c # s) = Some m \<and> length (snd (fst m)) \<le> length s"
begin

lemma gaps_outside: "Gap c \<in> set (scan r s) \<Longrightarrow> \<not> P c"
  using scan_from_gap [of c r "([], s)"] starts
  by (force simp: scan_def)

lemma filter_findall: "filter P (concat (map fst (rx_findall r s))) = filter P s"
proof -
  have "filter P (concat (map fst (concat (map hit ss)))) = filter P (concat (map seg_text ss))"
    if "\<forall>c. Gap c \<in> set ss \<longrightarrow> \<not> P c" for ss
    using that
  proof (induction ss)
    case (Cons a ss)
    then show ?case by (cases a) auto
  qed simp
  then show ?thesis using gaps_outside [of _ s] by (simp add: rx_findall_def scan_text)
qed

end

end
