(* ===== verification/Messages.thy ===== *)
theory Messages
  imports Message_Table Py_Regex
begin

text \<open>
  The rest of \<open>tools/gen_parser_messages.py\<close>: token spellings and the rendering of sentences,
  the golden's entries, the rows of \<open>errstate\<close>, the selection of the entries that are keyed,
  the tables and their printed arms, and the mapping of the reference's
  \<open>%on_error_reduce\<close> symbols to nonterminals of the generated parser.  What runs outside
  (\<open>errstate\<close>, \<open>moonyacc\<close>, \<open>moon build\<close>) is an argument: the text it prints.
\<close>

section \<open>Token spellings and sentences\<close>

definition value_lexeme :: "(str, str) dict" where
  "value_lexeme =
     [(''IDENT'', ''x''), (''INT'', ''1''), (''FLOAT'', ''1.0''),
      (''STRING'', [DQ] @ ''s'' @ [DQ]), (''CHAR'', [SQ] @ ''c'' @ [SQ]), (''EOF'', []),
      (''INF'', ''inf''), (''NAN'', ''nan'')]"

definition spaces1 :: rx where
  "spaces1 = plus (CharIf is_space)"

definition word1 :: rx where
  "word1 = plus (CharIf is_word)"

definition token_decl_rx :: rx where
  \<comment> \<open>\<open>%token(?:<[^>]*>)?\s+(.*)$\<close>\<close>
  "token_decl_rx = cat [lit ''%token'', opt (cat [lit ''<'', Many (none_of ''>''), lit ''>'']),
     spaces1, Grp 1 (Many dot), Eol]"

definition token_alias_rx :: rx where
  \<comment> \<open>\<open>(\w+)\s+"(.*)"$\<close>\<close>
  "token_alias_rx = cat [Grp 1 word1, spaces1, lit [DQ], Grp 2 (Many dot), lit [DQ], Eol]"

definition alias_line :: "str \<Rightarrow> (str, str) dict \<Rightarrow> (str, str) dict" where
  "alias_line line out = (case rx_match token_decl_rx (strip line) of
      None \<Rightarrow> out
    | Some m \<Rightarrow> (case rx_match token_alias_rx (group m 1) of
        None \<Rightarrow> out
      | Some m2 \<Rightarrow> dset (group m2 1) (group m2 2) out))"

definition aliases :: "str \<Rightarrow> (str, str) dict" where
  "aliases grammar = fold alias_line (splitlines grammar) []"

definition lexeme :: "(str, str) dict \<Rightarrow> str \<Rightarrow> str" where
  "lexeme alias t = (case dget alias t of
      Some s \<Rightarrow> s
    | None \<Rightarrow> (case dget value_lexeme t of Some s \<Rightarrow> s | None \<Rightarrow> lower t))"

fun render_parts :: "(str, str) dict \<Rightarrow> str list \<Rightarrow> str list \<Rightarrow> str list" where
  "render_parts alias parts [] = parts"
| "render_parts alias parts (t # ts) =
     (let lx = lexeme alias t in
      if lx = [] then render_parts alias parts ts
      else if parts \<noteq> [] \<and> last parts = [SQ]
      then render_parts alias (butlast parts @ [SQ # lx]) ts
      else render_parts alias (parts @ [lx]) ts)"

definition render :: "(str, str) dict \<Rightarrow> str list \<Rightarrow> str" where
  "render alias sentence = join '' '' (render_parts alias [] sentence)"

section \<open>The golden's entries\<close>

record golden_entry =
  entry_point :: str
  sentence :: "str list"
  message :: str
  markers :: "str list"

fun entry_blocks :: "str list \<Rightarrow> golden_entry list" where
  "entry_blocks (b1 # b2 # blocks) =
     (let head = strip b1; body = strip b2 in
      if CHR '':'' \<notin> set head then entry_blocks blocks
      else (let (e, _, s) = partition_at CHR '':'' head; lines = splitlines body in
        \<lparr>entry_point = strip e, sentence = words s,
         message = (case lines of [] \<Rightarrow> [] | l # _ \<Rightarrow> l), markers = tl lines\<rparr>
        # entry_blocks blocks))"
| "entry_blocks _ = []"

definition entries :: "str \<Rightarrow> golden_entry list" where
  "entries expected = entry_blocks (split_on [LF, LF] expected)"

definition marker_rx :: rx where
  \<comment> \<open>\<open><(\^?)(\d+)>(.*)$\<close>\<close>
  "marker_rx = cat [lit ''<'', Grp 1 (opt (lit ''^'')), Grp 2 (plus (CharIf is_digit)), lit ''>'',
     Grp 3 (Many dot), Eol]"

definition label_line :: "str \<Rightarrow> str \<times> str \<Rightarrow> str \<times> str" where
  "label_line line so = (case rx_match marker_rx line of
      None \<Rightarrow> so
    | Some m \<Rightarrow> if group m 1 = ''^'' then (strip (group m 3), snd so) else (fst so, strip (group m 3)))"

definition labels_of :: "str list \<Rightarrow> str \<times> str" where
  "labels_of mks = fold label_line mks ([], [])"

section \<open>The rows of errstate\<close>

record err_row =
  err_state :: int
  err_stack :: "int list"
  err_index :: int
  err_count :: int
  err_signature :: str
  err_reduced :: "int list option"

definition ints :: "str \<Rightarrow> int list res" where
  "ints s = mapr py_int (words s)"

definition parse_row :: "str \<Rightarrow> err_row option res" where
  "parse_row r = (if r = ''-'' then Inr None else
     (let cols = split_on [TAB] r in
      if length cols < 5 then Inl (ValueError ''not enough values to unpack'')
      else if length cols \<le> 8 then Inl IndexError
      else bindr (if cols ! 8 = ''-'' then Inr None
                  else bindr (ints (cols ! 8)) (\<lambda>is. Inr (Some is))) (\<lambda>reduced.
           bindr (py_int (cols ! 0)) (\<lambda>state.
           bindr (ints (cols ! 1)) (\<lambda>stack.
           bindr (py_int (cols ! 2)) (\<lambda>idx.
           bindr (py_int (cols ! 3)) (\<lambda>count.
           Inr (Some \<lparr>err_state = state, err_stack = stack, err_index = idx, err_count = count,
                err_signature = cols ! 4, err_reduced = reduced\<rparr>))))))))"

definition states_of :: "bool \<Rightarrow> (str \<Rightarrow> str) \<Rightarrow> str list \<Rightarrow> err_row option list res" where
  \<comment> \<open>\<open>built\<close>: the tool is there; \<open>errstate\<close>: what it prints for the text of its input file\<close>
  "states_of built errstate sources =
     (if \<not> built then Inl (SystemExit ''gen_parser_messages: run 'moon build --target native' first'')
      else let rows = splitlines (errstate (join [LF] sources @ [LF])) in
        if length rows \<noteq> length sources
        then Inl (SystemExit (''gen_parser_messages: '' @ str_nat (length rows) @ '' rows for ''
               @ str_nat (length sources) @ '' sources''))
        else mapr parse_row rows)"

section \<open>Which entries are keyed\<close>

record selection =
  parsed_fine :: nat
  misplaced :: nat
  items :: "message item list"
  reduced_items :: "message item list"

definition written_tokens :: "(str, str) dict \<Rightarrow> str list \<Rightarrow> str list" where
  "written_tokens alias s = filter (\<lambda>t. lexeme alias t \<noteq> []) s"

definition message_of :: "golden_entry \<Rightarrow> err_row \<Rightarrow> message" where
  "message_of e r = (let (subject, opener) = labels_of (markers e) in
     \<lparr>signature = err_signature r, wording = message e, subject = subject, opener = opener\<rparr>)"

definition select_one ::
  "(str, str) dict \<Rightarrow> golden_entry \<times> err_row option \<Rightarrow> selection \<Rightarrow> selection"
where
  "select_one alias er sel = (case snd er of
      None \<Rightarrow> sel\<lparr>parsed_fine := Suc (parsed_fine sel)\<rparr>
    | Some r \<Rightarrow>
        if err_index r \<noteq> int (length (written_tokens alias (sentence (fst er)))) - 1
        then sel\<lparr>misplaced := Suc (misplaced sel)\<rparr>
        else (let m = message_of (fst er) r;
                  sel' = sel\<lparr>items := items sel @ [(err_stack r, m)]\<rparr>
              in case err_reduced r of
                   None \<Rightarrow> sel'
                 | Some st \<Rightarrow> sel'\<lparr>reduced_items := reduced_items sel @ [(st, m)]\<rparr>))"

definition select ::
  "(str, str) dict \<Rightarrow> golden_entry list \<Rightarrow> err_row option list \<Rightarrow> selection"
where
  "select alias es rs = fold (select_one alias) (zip es rs)
     \<lparr>parsed_fine = 0, misplaced = 0, items = [], reduced_items = []\<rparr>"

definition real_entries :: "golden_entry list \<Rightarrow> golden_entry list" where
  "real_entries es = filter (\<lambda>e. entry_point e \<noteq> ''dummy_ctx'') es"

section \<open>The tables and their arms\<close>

record tables =
  table :: "(str, message entry) dict"
  dropped :: nat
  reduced_table :: "(str, message entry) dict"
  reduced_dropped :: nat
  max_depth :: nat

definition key_depth :: "str \<Rightarrow> nat" where
  "key_depth k = length (words k)"

definition deepest :: "str list \<Rightarrow> nat" where
  "deepest ks = foldr (\<lambda>k n. max (key_depth k) n) ks 0"

definition make_tables :: "selection \<Rightarrow> tables" where
  "make_tables sel =
     (let (t, d) = build (items sel) 1 []; (rt, rd) = build (reduced_items sel) 1 []
      in \<lparr>table = t, dropped = d, reduced_table = rt, reduced_dropped = rd,
          max_depth = (if t \<noteq> [] then deepest (dkeys t @ dkeys rt) else 0)\<rparr>)"

definition resolved :: "(str, 'v entry) dict \<Rightarrow> (str, 'v entry) dict" where
  "resolved t = filter (\<lambda>kv. snd kv \<noteq> Deeper) t"

definition shallow :: "(str, 'v entry) dict \<Rightarrow> nat" where
  "shallow t = length (filter (\<lambda>kv. key_depth (fst kv) = 1) (resolved t))"

definition mbt_string :: "str \<Rightarrow> str" where
  "mbt_string s = [DQ] @ replace [DQ] [BSL, DQ] (replace [BSL] [BSL, BSL] s) @ [DQ]"

definition arm :: "str \<Rightarrow> message entry \<Rightarrow> str" where
  "arm key e = ''    '' @ mbt_string key @ '' => Some('' @
     (case e of
        Deeper \<Rightarrow> ''Deeper''
      | Msg m \<Rightarrow> ''Msg({signature: '' @ mbt_string (signature m) @ '', text: '' @ mbt_string (wording m)
          @ '', subject: '' @ mbt_string (subject m) @ '', opener: '' @ mbt_string (opener m) @ ''})'')
     @ '')''"

definition arm_order :: "str list \<Rightarrow> str list" where
  "arm_order ks = sort_key (\<lambda>k. (key_depth k, k)) ks"

definition arms_of :: "(str, message entry) dict \<Rightarrow> str" where
  "arms_of t = join [LF] (map (\<lambda>k. arm k (the (dget t k))) (arm_order (dkeys t)))"

section \<open>Lemmas\<close>

lemma deepest_ge: "k \<in> set ks \<Longrightarrow> key_depth k \<le> deepest ks"
  by (induction ks) (auto simp: deepest_def)

lemma make_tables_simps:
  "table (make_tables sel) = fst (build (items sel) 1 [])"
  "dropped (make_tables sel) = snd (build (items sel) 1 [])"
  "reduced_table (make_tables sel) = fst (build (reduced_items sel) 1 [])"
  "reduced_dropped (make_tables sel) = snd (build (reduced_items sel) 1 [])"
  "max_depth (make_tables sel) =
     (if fst (build (items sel) 1 []) \<noteq> []
      then deepest (dkeys (fst (build (items sel) 1 [])) @ dkeys (fst (build (reduced_items sel) 1 [])))
      else 0)"
  by (simp_all add: make_tables_def case_prod_beta Let_def)

lemma depth_bound:
  assumes "dget (table (make_tables sel)) k \<noteq> None \<or>
      dget (reduced_table (make_tables sel)) k \<noteq> None"
    and "table (make_tables sel) \<noteq> []"
  shows "length (words k) \<le> max_depth (make_tables sel)"
proof -
  have "k \<in> set (dkeys (table (make_tables sel)) @ dkeys (reduced_table (make_tables sel)))"
    using assms(1) by (auto simp: dget_None_iff)
  then show ?thesis
    using deepest_ge [of k] assms(2) by (simp add: make_tables_simps key_depth_def)
qed

lemma live_first: "suffix_free xs \<Longrightarrow> i \<in> set xs \<Longrightarrow> live xs 1 i 1"
  using suffix_free_len by (auto simp: live_def)

lemma replace_char: "replace [c] new s = concat (map (\<lambda>d. if d = c then new else [d]) s)"
  by (induction s) (auto simp: startswith_def)

text \<open>How a MoonBit string literal reads: the character after a backslash stands for itself.\<close>

fun mbt_unescape :: "str \<Rightarrow> str" where
  "mbt_unescape [] = []"
| "mbt_unescape [c] = [c]"
| "mbt_unescape (c # d # s) = (if c = BSL then d # mbt_unescape s else c # mbt_unescape (d # s))"

definition escape_char :: "char \<Rightarrow> str" where
  "escape_char c = (if c = DQ \<or> c = BSL then [BSL, c] else [c])"

lemma mbt_string_escape: "mbt_string s = [DQ] @ concat (map escape_char s) @ [DQ]"
proof -
  have "concat (map (\<lambda>d. if d = DQ then [BSL, DQ] else [d])
      (concat (map (\<lambda>d. if d = BSL then [BSL, BSL] else [d]) s))) = concat (map escape_char s)"
    by (induction s) (auto simp: escape_char_def)
  then show ?thesis unfolding mbt_string_def replace_char by simp
qed

lemma mbt_unescape_escape: "mbt_unescape (escape_char c @ s) = c # mbt_unescape s"
  by (cases s) (auto simp: escape_char_def)

lemma arm_order_set [simp]: "set (arm_order ks) = set ks" "distinct (arm_order ks) = distinct ks"
  by (simp_all add: arm_order_def)

definition keyed_from :: "(str, str) dict \<Rightarrow> golden_entry \<times> err_row option \<Rightarrow> message item \<Rightarrow> bool" where
  "keyed_from alias er i \<longleftrightarrow> (\<exists>r. snd er = Some r \<and> i = (err_stack r, message_of (fst er) r) \<and>
     err_index r = int (length (written_tokens alias (sentence (fst er)))) - 1)"

lemma select_one_items:
  "set (items (select_one alias er sel)) = set (items sel) \<union> {i. keyed_from alias er i}"
  by (auto simp: select_one_def keyed_from_def Let_def split: option.splits)

lemma select_fold_items:
  "set (items (fold (select_one alias) ers sel)) =
    set (items sel) \<union> {i. \<exists>er \<in> set ers. keyed_from alias er i}"
  by (induction ers arbitrary: sel) (auto simp: select_one_items)

lemma select_one_count:
  "parsed_fine (select_one alias er sel) + misplaced (select_one alias er sel) +
     length (items (select_one alias er sel)) =
   Suc (parsed_fine sel + misplaced sel + length (items sel))"
  by (auto simp: select_one_def Let_def split: option.splits)

lemma select_fold_count:
  "parsed_fine (fold (select_one alias) ers sel) + misplaced (fold (select_one alias) ers sel) +
     length (items (fold (select_one alias) ers sel)) =
   parsed_fine sel + misplaced sel + length (items sel) + length ers"
  by (induction ers arbitrary: sel) (auto simp: select_one_count)

section \<open>Properties\<close>

text \<open>C2: The generated table answers for every sentence it was generated from: on stacks of an LR
  parser, looking up the stack a recorded sentence fails on, with its own signature, returns the
  message recorded for it, unless another message was recorded with the very same stack.  The
  generator's depth bound never cuts the search short.\<close>

theorem lookup_recorded:
  assumes "lr_stacks I (items sel)" and "i \<in> set (items sel)" and "\<not> conflicted (items sel) i"
  shows "lookup fits (dget (table (make_tables sel))) (max_depth (make_tables sel))
    (fst i) (signature (snd i)) 1 = Some (snd i)"
proof -
  note free = lr_suffix_free [OF assms(1)]
  have "dget (fst (build (items sel) 1 [])) (key_of (fst i) 1) =
      class_entry (items sel) i 1 None"
    by (rule mt.live_entry [OF free assms(2) live_first [OF free assms(2)]])
  moreover have "class_entry (items sel) i 1 None \<noteq> None"
    using mt.last_class [OF free assms(2,3) _ live_first [OF free assms(2)]]
    by (auto simp: class_entry_def)
  ultimately have "table (make_tables sel) \<noteq> []" by (auto simp: make_tables_simps)
  then have bound: "length (words k) \<le> max_depth (make_tables sel)"
    if "dget (fst (build (items sel) 1 [])) k \<noteq> None" for k
    using depth_bound that by (simp add: make_tables_simps(1))
  show ?thesis
    using mt.lookup_item [OF free assms(2,3) bound live_first [OF free assms(2)], of fits]
    by (simp add: make_tables_simps(1))
qed

definition demo_message :: "str \<Rightarrow> message" where
  "demo_message w = \<lparr>signature = ''A B'', wording = w, subject = [], opener = []\<rparr>"

text \<open>Two sentences that fail in state 5, told apart by the frame below it.\<close>

definition demo_selection :: selection where
  "demo_selection = \<lparr>parsed_fine = 0, misplaced = 0,
     items = [([0, 5], demo_message ''index''), ([0, 3, 5], demo_message ''argument'')],
     reduced_items = []\<rparr>"

lemma demo_lr: "lr_stacks {0} (items demo_selection)"
  by (simp add: lr_stacks_def demo_selection_def)

lemma demo_alone: "\<not> conflicted (items demo_selection) ([0, 5], demo_message ''index'')"
  by (simp add: conflicted_def demo_selection_def)

theorem lookup_recorded_witness:
  "lookup (\<lambda>_ _. False) (dget (table (make_tables demo_selection)))
     (max_depth (make_tables demo_selection)) [0, 5] ''A B'' 1 = Some (demo_message ''index'')"
  using lookup_recorded [OF demo_lr _ demo_alone, of "\<lambda>_ _. False"]
  by (simp add: demo_selection_def demo_message_def)

text \<open>C18: A message the table returns is never a guess: for any failing stack whatever, the message
  found was recorded for a sentence whose stack ends in the frames of the key, every sentence
  recorded with those top frames has that message, no shorter suffix names a single message, and
  the signature matches or the message fits.\<close>

theorem lookup_unanimous:
  assumes "lr_stacks I (items sel)"
    and "lookup fits (dget (table (make_tables sel))) (max_depth (make_tables sel)) st sig 1 = Some m"
  shows "\<exists>e i. 1 \<le> e \<and> e \<le> length st \<and> i \<in> set (items sel) \<and>
    last_n e (fst i) = last_n e st \<and> snd i = m \<and>
    (\<forall>j \<in> set (items sel). last_n e (fst j) = last_n e st \<longrightarrow> snd j = m) \<and>
    (\<forall>e' \<in> {1..<e}. contested (same_key e' st (items sel))) \<and>
    (signature m = sig \<or> fits (wording m) sig)"
  using mt.lookup_sound [OF lr_suffix_free [OF assms(1)] order_refl] assms(2)
  by (simp add: make_tables_simps(1))

lemma demo_lookup:
  "lookup (\<lambda>_ _. False) (dget (table (make_tables demo_selection)))
     (max_depth (make_tables demo_selection)) [7, 3, 5] ''A B'' 1 = Some (demo_message ''argument'')"
  by code_simp

theorem lookup_unanimous_witness:
  "\<exists>e i. 1 \<le> e \<and> e \<le> length [7, 3, 5 :: int] \<and> i \<in> set (items demo_selection) \<and>
    last_n e (fst i) = last_n e [7, 3, 5] \<and> snd i = demo_message ''argument''"
  using lookup_unanimous [OF demo_lr demo_lookup] by blast

text \<open>C11: The reported count of dropped entries is exact: it is the number of recorded sentences that
  share their whole stack with a sentence recorded under a different message.\<close>

theorem dropped_exact:
  assumes "lr_stacks I (items sel)"
  shows "dropped (make_tables sel) = length (filter (conflicted (items sel)) (items sel))"
  using build_dropped(1) [OF lr_suffix_free [OF assms] suffix_free_len [OF lr_suffix_free [OF assms]]]
  by (simp add: make_tables_simps(2))

theorem dropped_exact_witness:
  "dropped (make_tables demo_selection) =
     length (filter (conflicted (items demo_selection)) (items demo_selection))"
  by (rule dropped_exact [OF demo_lr])

text \<open>C7: The generator accounts for every sentence: each entry of the golden is counted as parsed,
  counted as failing on another token, or keyed; and the keyed ones are exactly those whose
  failing token is the last token the sentence writes, each under the stack and signature that
  \<open>errstate\<close> reported.\<close>

theorem select_accounts:
  "parsed_fine (select alias es rs) + misplaced (select alias es rs) +
     length (items (select alias es rs)) = min (length es) (length rs) \<and>
   set (items (select alias es rs)) = {i. \<exists>er \<in> set (zip es rs). keyed_from alias er i}"
  by (simp add: select_def select_fold_items select_fold_count)

text \<open>What the generator prints as a MoonBit string literal reads back as the string: the body
  between the quotes, unescaped, is the original, whatever quotes and backslashes it holds.\<close>

lemma mbt_string_roundtrip:
  "\<exists>body. mbt_string s = [DQ] @ body @ [DQ] \<and> mbt_unescape body = s"
proof (intro exI conjI)
  show "mbt_string s = [DQ] @ concat (map escape_char s) @ [DQ]" by (rule mbt_string_escape)
  show "mbt_unescape (concat (map escape_char s)) = s"
    by (induction s) (auto simp: mbt_unescape_escape)
qed

end
