(* ===== verification/Reduce_Ids.thy ===== *)
theory Reduce_Ids
  imports Messages
begin

text \<open>
  \<open>on_error_reduce_ids\<close> of \<open>tools/gen_parser_messages.py\<close>: which nonterminals of the generated
  parser are the ones the reference declares \<open>%on_error_reduce\<close>.  The tables,
  the constants of \<open>yy_state\<close> and \<open>line_of\<close>, the source line each commented action quotes, are
  arguments here; \<open>Messages_File\<close> reads them off the text \<open>moonyacc\<close> writes.
\<close>

section \<open>The parser tables\<close>

definition nth_res :: "'a list \<Rightarrow> nat \<Rightarrow> 'a res" where
  "nth_res xs i = (if i < length xs then Inr (xs ! i) else Inl IndexError)"

lemma nth_res_simps: "i < length xs \<Longrightarrow> nth_res xs i = Inr (xs ! i)"
  "nth_res xs i = Inr x \<Longrightarrow> i < length xs \<and> x = xs ! i"
  by (auto simp: nth_res_def split: if_splits)

definition table_rx :: "str \<Rightarrow> rx" where
  "table_rx name = cat [lit (''let '' @ name @ '' : FixedArray[''), plus (CharIf is_word),
     lit ''] = ['', Grp 1 (ManyLazy (CharIf (\<lambda>_. True))), lit '']'']"

definition parser_tables :: "str \<Rightarrow> str \<Rightarrow> int list res" where
  "parser_tables src name = (case rx_search (table_rx name) src of
      None \<Rightarrow> Inl AttributeError
    | Some m \<Rightarrow>
        mapr (\<lambda>x. py_int (replace ''yy_action_'' [] (strip x)))
          (filter (\<lambda>x. \<not> blank x) (split_on '','' (replace [LF] '' '' (group m 1)))))"

datatype action = Shift nat | Reduce nat

fun is_shift :: "action option \<Rightarrow> bool" where
  "is_shift (Some (Shift t)) = True"
| "is_shift _ = False"

record automaton =
  lhs :: "nat list"
  act :: "nat list"
  rhs_length :: "nat list"
  cells :: "nat list"
  cols :: nat
  last_shift :: nat
  first_reduce :: nat
  last_reduce :: nat
  terminals :: nat

definition cell_action :: "automaton \<Rightarrow> nat \<Rightarrow> action option" where
  "cell_action A e =
     (if 2 \<le> e \<and> e \<le> last_shift A then Some (Shift (e - 2))
      else if first_reduce A \<le> e
      then Some (Reduce (if e \<le> last_reduce A then e - first_reduce A else e - (last_reduce A + 1)))
      else None)"

definition decide :: "automaton \<Rightarrow> nat \<Rightarrow> nat \<Rightarrow> action option res" where
  "decide A s symbol = bindr (nth_res (cells A) (s * cols A + symbol)) (\<lambda>e. Inr (cell_action A e))"

section \<open>Rules and their nonterminals\<close>

definition rule_head_rx :: rx where
  \<comment> \<open>\<open>^([a-z_][a-z0-9_]*)\b\<close>\<close>
  "rule_head_rx = cat [Bol, Grp 1 (Cat (CharIf (\<lambda>c. is_lower c \<or> c = CHR ''_''))
     (Many (CharIf (\<lambda>c. is_lower c \<or> code c \<in> {48..57} \<or> c = CHR ''_'')))), WordB]"

fun rule_at :: "str list \<Rightarrow> nat \<Rightarrow> str res" where
  \<comment> \<open>the nearest rule at or above the 1-based line\<close>
  "rule_at rules 0 = Inl (SystemExit ''gen_parser_messages: no rule above parser.mbty'')"
| "rule_at rules (Suc i) = bindr (nth_res rules i) (\<lambda>l.
     case rx_match rule_head_rx l of Some m \<Rightarrow> Inr (group m 1) | None \<Rightarrow> rule_at rules i)"

fun ids_loop :: "automaton \<Rightarrow> (nat, nat) dict \<Rightarrow> str list \<Rightarrow> nat list \<Rightarrow>
    (str, nat list) dict \<Rightarrow> (str, nat list) dict res" where
  "ids_loop A line_of rules [] ids = Inr ids"
| "ids_loop A line_of rules (p # ps) ids =
     bindr (nth_res (act A) p) (\<lambda>a. case dget line_of a of
         None \<Rightarrow> ids_loop A line_of rules ps ids
       | Some l \<Rightarrow> bindr (rule_at rules l) (\<lambda>r.
           ids_loop A line_of rules ps (dset r (List.insert (lhs A ! p) (dget_list ids r)) ids)))"

definition ids_of :: "automaton \<Rightarrow> (nat, nat) dict \<Rightarrow> str list \<Rightarrow> (str, nat list) dict res" where
  "ids_of A line_of rules = ids_loop A line_of rules [0..<length (lhs A)] []"

section \<open>Matching the declared symbols\<close>

definition generic :: "(str, str) dict" where
  "generic = [(''separated_nonempty_list_trailing'', ''non_empty_sep_trailing''),
     (''list'', ''list_of''), (''semi_list'', ''semi_list'')]"

definition instance_rx :: rx where
  \<comment> \<open>\<open>(\w+)\((?:"[^"]*",)?(\w+)\)$\<close>\<close>
  "instance_rx = cat [Grp 1 (plus (CharIf is_word)), lit ''('',
     opt (cat [lit [DQ], Many (none_of [DQ]), lit [DQ], lit '','']),
     Grp 2 (plus (CharIf is_word)), lit '')'', Eol]"

fun reduces_to :: "automaton \<Rightarrow> nat \<Rightarrow> nat \<Rightarrow> nat list \<Rightarrow> bool res" where
  \<comment> \<open>does state \<open>t\<close> reduce a one-symbol production of \<open>L\<close> on one of these terminals?\<close>
  "reduces_to A t L [] = Inr False"
| "reduces_to A t L (a # as) = bindr (decide A t a) (\<lambda>d. case d of
      Some (Reduce p) \<Rightarrow> bindr (nth_res (lhs A) p) (\<lambda>l.
        if l \<noteq> L then reduces_to A t L as
        else bindr (nth_res (rhs_length A) p) (\<lambda>n.
          if n = 1 then Inr True else reduces_to A t L as))
    | _ \<Rightarrow> reduces_to A t L as)"

fun leads_in :: "automaton \<Rightarrow> nat \<Rightarrow> nat \<Rightarrow> nat list \<Rightarrow> bool res" where
  \<comment> \<open>does a goto on \<open>x\<close>, from one of these states, lead into the list \<open>L\<close>?\<close>
  "leads_in A x L [] = Inr False"
| "leads_in A x L (s # ss) = bindr (decide A s x) (\<lambda>t. case t of
      Some (Shift t') \<Rightarrow>
        bindr (reduces_to A t' L [1..<Suc (terminals A)]) (\<lambda>r.
        bindr (decide A t' L) (\<lambda>goto.
          if r \<or> is_shift goto then Inr True else leads_in A x L ss))
    | _ \<Rightarrow> leads_in A x L ss)"

fun found_lists :: "automaton \<Rightarrow> nat \<Rightarrow> nat list \<Rightarrow> nat list res" where
  "found_lists A x [] = Inr []"
| "found_lists A x (L # Ls) =
     bindr (leads_in A x L [0..<length (cells A) div cols A]) (\<lambda>b.
     bindr (found_lists A x Ls) (\<lambda>found. Inr (if b then List.insert L found else found)))"

definition found_for :: "automaton \<Rightarrow> (str, nat list) dict \<Rightarrow> str \<Rightarrow> nat list res" where
  "found_for A ids d = (case rx_match instance_rx d of
      None \<Rightarrow> Inr (dget_list ids d)
    | Some g \<Rightarrow> (case dget_list ids (group g 2) of
        [x] \<Rightarrow> bindr (dindex generic (group g 1)) (\<lambda>r. found_lists A x (dget_list ids r))
      | _ \<Rightarrow> Inl (SystemExit (''gen_parser_messages: no single rule '' @ group g 2))))"

fun reduce_ids :: "automaton \<Rightarrow> (str, nat list) dict \<Rightarrow> str list \<Rightarrow> (nat, str) dict \<Rightarrow> (nat, str) dict res"
where
  "reduce_ids A ids [] out = Inr out"
| "reduce_ids A ids (d # ds) out = bindr (found_for A ids d) (\<lambda>found. case found of
      [k] \<Rightarrow> reduce_ids A ids ds (dset k d out)
    | _ \<Rightarrow> Inl (SystemExit (''gen_parser_messages: '' @ d @ '' maps to several of ours'')))"

definition on_error_reduce_ids ::
  "automaton \<Rightarrow> (nat, nat) dict \<Rightarrow> str list \<Rightarrow> str list \<Rightarrow> (nat, str) dict res"
where
  "on_error_reduce_ids A line_of rules declared =
     bindr (ids_of A line_of rules) (\<lambda>ids. reduce_ids A ids declared [])"

definition error_reduce_arms :: "(nat, str) dict \<Rightarrow> str" where
  \<comment> \<open>the arms of \<open>on_error_reduce\<close> that \<open>write_error_reduce\<close> prints\<close>
  "error_reduce_arms ids = join [LF]
     (map (\<lambda>(i, d). ''    '' @ str_nat i @ '' => true // '' @ d) (sort_key id ids))"

section \<open>Lemmas\<close>

lemma insert_mem: "r \<in> set (List.insert a xs) \<longleftrightarrow> r = a \<or> r \<in> set xs"
  by (simp add: List.insert_def) blast

lemma dget_list_dset: "dget_list (dset k v d) k' = (if k' = k then v else dget_list d k')"
  by (simp add: dget_list_def)

text \<open>A nonterminal stands under a rule exactly when a production of it is quoted from there.\<close>

lemma ids_loop_mem:
  assumes "ids_loop A line_of rules ps ids = Inr out"
  shows "n \<in> set (dget_list out r) \<longleftrightarrow> n \<in> set (dget_list ids r) \<or>
    (\<exists>p \<in> set ps. \<exists>l. dget line_of (act A ! p) = Some l \<and> rule_at rules l = Inr r \<and> n = lhs A ! p)"
  using assms
proof (induction ps arbitrary: ids)
  case (Cons p ps)
  from Cons.prems obtain a where a: "nth_res (act A) p = Inr a"
    by (auto simp: bindr_Inr_iff)
  have aeq: "act A ! p = a" using nth_res_simps(2) [OF a] by simp
  show ?case
  proof (cases "dget line_of a")
    case None
    then show ?thesis using Cons a aeq by simp
  next
    case (Some l)
    then obtain r' where r': "rule_at rules l = Inr r'"
      and rec: "ids_loop A line_of rules ps (dset r' (List.insert (lhs A ! p) (dget_list ids r')) ids) = Inr out"
      using Cons.prems a by (auto simp: bindr_Inr_iff)
    show ?thesis
      unfolding Cons.IH [OF rec] dget_list_dset
      using Some r' aeq by (auto simp: insert_mem)
  qed
qed simp

lemma reduce_ids_frame:
  "reduce_ids A ids ds out = Inr out' \<Longrightarrow>
   (\<forall>k d. dget out' k = Some d \<longrightarrow> dget out k = Some d \<or> d \<in> set ds \<and> found_for A ids d = Inr [k]) \<and>
   (\<forall>d \<in> set ds. \<exists>k. found_for A ids d = Inr [k] \<and> dget out' k \<noteq> None) \<and>
   (\<forall>k. dget out k \<noteq> None \<longrightarrow> dget out' k \<noteq> None)"
proof (induction ds arbitrary: out)
  case (Cons d ds)
  obtain found where f: "found_for A ids d = Inr found"
    using Cons.prems by (auto simp: bindr_Inr_iff)
  then obtain k where found: "found = [k]"
    using Cons.prems by (cases found rule: remdups_adj.cases) auto
  with f Cons.prems have k: "found_for A ids d = Inr [k]"
    and rec: "reduce_ids A ids ds (dset k d out) = Inr out'"
    by simp_all
  from Cons.IH [OF rec] k show ?case by (auto split: if_splits)
qed simp

lemma on_error_reduce_idsD:
  assumes "on_error_reduce_ids A line_of rules declared = Inr out"
  obtains ids where "ids_of A line_of rules = Inr ids" "reduce_ids A ids declared [] = Inr out"
  using assms by (auto simp: on_error_reduce_ids_def bindr_Inr_iff)

section \<open>What the automaton singles out\<close>

text \<open>
  The choice of a nonterminal, stated over the tables alone.  The nonterminals of a rule are the
  left-hand sides of the productions whose action is quoted from it.
\<close>

definition quoted_from :: "automaton \<Rightarrow> (nat, nat) dict \<Rightarrow> str list \<Rightarrow> str \<Rightarrow> nat set" where
  "quoted_from A line_of rules r = {lhs A ! p | p l. p < length (lhs A)
     \<and> dget line_of (act A ! p) = Some l \<and> rule_at rules l = Inr r}"

text \<open>State \<open>t\<close> reduces a one-symbol production of \<open>L\<close> on some terminal.\<close>

definition reduces_unit :: "automaton \<Rightarrow> nat \<Rightarrow> nat \<Rightarrow> nat set \<Rightarrow> bool" where
  "reduces_unit A t L as \<longleftrightarrow> (\<exists>a \<in> as. \<exists>p. decide A t a = Inr (Some (Reduce p))
     \<and> p < length (lhs A) \<and> lhs A ! p = L \<and> p < length (rhs_length A) \<and> rhs_length A ! p = 1)"

text \<open>
  \<open>L\<close> is a list of \<open>x\<close>: from some state the goto on \<open>x\<close> leads where \<open>x\<close> alone is reduced to \<open>L\<close>,
  or where a goto on \<open>L\<close> leads on.
\<close>

definition list_over :: "automaton \<Rightarrow> nat set \<Rightarrow> nat \<Rightarrow> nat \<Rightarrow> bool" where
  "list_over A states x L \<longleftrightarrow> (\<exists>s \<in> states. \<exists>t. decide A s x = Inr (Some (Shift t))
     \<and> (reduces_unit A t L {1..terminals A} \<or> (\<exists>u. decide A t L = Inr (Some (Shift u)))))"

definition singled_out :: "automaton \<Rightarrow> (nat, nat) dict \<Rightarrow> str list \<Rightarrow> str \<Rightarrow> nat \<Rightarrow> bool" where
  "singled_out A line_of rules d k \<longleftrightarrow> (case rx_match instance_rx d of
      None \<Rightarrow> quoted_from A line_of rules d = {k}
    | Some g \<Rightarrow> \<exists>x r. quoted_from A line_of rules (group g 2) = {x} \<and> dget generic (group g 1) = Some r
        \<and> {L \<in> quoted_from A line_of rules r. list_over A {0..<length (cells A) div cols A} x L} = {k})"

lemma is_shift_iff: "is_shift d \<longleftrightarrow> (\<exists>u. d = Some (Shift u))"
  by (cases d rule: is_shift.cases) auto

lemma reduces_unit_Cons:
  "reduces_unit A t L (set (a # as)) \<longleftrightarrow> reduces_unit A t L {a} \<or> reduces_unit A t L (set as)"
  by (auto simp: reduces_unit_def)

lemma reduces_to_exact: "reduces_to A t L as = Inr b \<Longrightarrow> b \<longleftrightarrow> reduces_unit A t L (set as)"
proof (induction as)
  case (Cons a as)
  obtain d where d: "decide A t a = Inr d" and
    k: "(case d of Some (Reduce p) \<Rightarrow> bindr (nth_res (lhs A) p) (\<lambda>l.
        if l \<noteq> L then reduces_to A t L as
        else bindr (nth_res (rhs_length A) p) (\<lambda>n.
          if n = 1 then Inr True else reduces_to A t L as))
      | _ \<Rightarrow> reduces_to A t L as) = Inr b"
    using Cons.prems by (auto simp: bindr_Inr_iff)
  show ?case
  proof (cases "\<exists>p. d = Some (Reduce p)")
    case True
    then obtain p where p: "d = Some (Reduce p)" ..
    then obtain l where l: "nth_res (lhs A) p = Inr l"
      and rest: "(if l \<noteq> L then reduces_to A t L as
        else bindr (nth_res (rhs_length A) p) (\<lambda>n. if n = 1 then Inr True else reduces_to A t L as)) = Inr b"
      using k by (auto simp: bindr_Inr_iff)
    have one: "reduces_unit A t L {a} \<longleftrightarrow> lhs A ! p = L \<and> p < length (rhs_length A) \<and> rhs_length A ! p = 1"
      using d p nth_res_simps(2) [OF l] by (simp add: reduces_unit_def)
    show ?thesis
    proof (cases "l = L")
      case True
      then obtain n where n: "nth_res (rhs_length A) p = Inr n"
        and b: "(if n = 1 then Inr True else reduces_to A t L as) = Inr b"
        using rest by (simp only: simp_thms if_False bindr_Inr_iff) blast
      have "reduces_unit A t L {a} \<longleftrightarrow> n = 1"
        using one True nth_res_simps(2) [OF l] nth_res_simps(2) [OF n] by simp
      then show ?thesis using b Cons.IH unfolding reduces_unit_Cons by (cases "n = 1") simp_all
    next
      case False
      then have "\<not> reduces_unit A t L {a}" using one nth_res_simps(2) [OF l] by simp
      then show ?thesis using rest False Cons.IH unfolding reduces_unit_Cons by simp
    qed
  next
    case False
    then have "reduces_to A t L as = Inr b" using k by (auto split: option.splits action.splits)
    moreover have "\<not> reduces_unit A t L {a}" using d False by (simp add: reduces_unit_def)
    ultimately show ?thesis using Cons.IH unfolding reduces_unit_Cons by simp
  qed
qed (simp add: reduces_unit_def)

lemma list_over_Cons:
  "list_over A (set (s # ss)) x L \<longleftrightarrow> list_over A {s} x L \<or> list_over A (set ss) x L"
  by (auto simp: list_over_def)

lemma leads_in_exact: "leads_in A x L ss = Inr b \<Longrightarrow> b \<longleftrightarrow> list_over A (set ss) x L"
proof (induction ss)
  case (Cons s ss)
  obtain t where t: "decide A s x = Inr t" and
    k: "(case t of Some (Shift t') \<Rightarrow> bindr (reduces_to A t' L [1..<Suc (terminals A)]) (\<lambda>r.
        bindr (decide A t' L) (\<lambda>goto. if r \<or> is_shift goto then Inr True else leads_in A x L ss))
      | _ \<Rightarrow> leads_in A x L ss) = Inr b"
    using Cons.prems unfolding leads_in.simps bindr_Inr_iff by blast
  show ?case
  proof (cases "\<exists>t'. t = Some (Shift t')")
    case True
    then obtain t' where t': "t = Some (Shift t')" ..
    then obtain r goto where r: "reduces_to A t' L [1..<Suc (terminals A)] = Inr r"
      and g: "decide A t' L = Inr goto"
      and rest: "(if r \<or> is_shift goto then Inr True else leads_in A x L ss) = Inr b"
      using k by (auto simp: bindr_Inr_iff simp del: upt_Suc)
    have "set [1..<Suc (terminals A)] = {1..terminals A}" by auto
    then have "list_over A {s} x L \<longleftrightarrow> r \<or> is_shift goto"
      using t t' g reduces_to_exact [OF r] by (simp add: list_over_def is_shift_iff del: upt_Suc)
    then show ?thesis using rest Cons.IH unfolding list_over_Cons by (cases "r \<or> is_shift goto") simp_all
  next
    case False
    then have "leads_in A x L ss = Inr b" using k by (auto split: option.splits action.splits)
    moreover have "\<not> list_over A {s} x L" using t False by (simp add: list_over_def)
    ultimately show ?thesis using Cons.IH unfolding list_over_Cons by simp
  qed
qed (simp add: list_over_def)

lemma found_lists_exact:
  "found_lists A x Ls = Inr found \<Longrightarrow>
   set found = {L \<in> set Ls. list_over A {0..<length (cells A) div cols A} x L}"
proof (induction Ls arbitrary: found)
  case (Cons L Ls)
  then obtain b fs where b: "leads_in A x L [0..<length (cells A) div cols A] = Inr b"
    and fs: "found_lists A x Ls = Inr fs" and f: "found = (if b then List.insert L fs else fs)"
    by (auto simp: bindr_Inr_iff)
  show ?case using leads_in_exact [OF b] Cons.IH [OF fs] f by auto
qed simp

lemma ids_of_quoted:
  "ids_of A line_of rules = Inr ids \<Longrightarrow> set (dget_list ids r) = quoted_from A line_of rules r"
  using ids_loop_mem [of A line_of rules "[0..<length (lhs A)]" "[]" ids _ r]
  by (auto simp: ids_of_def quoted_from_def dget_list_def)

lemma found_for_singled_out:
  assumes ids: "ids_of A line_of rules = Inr ids" and f: "found_for A ids d = Inr [k]"
  shows "singled_out A line_of rules d k"
proof (cases "rx_match instance_rx d")
  case None
  then have "dget_list ids d = [k]" using f by (simp add: found_for_def)
  then show ?thesis using None ids_of_quoted [OF ids, of d] by (simp add: singled_out_def)
next
  case (Some g)
  obtain x where x: "dget_list ids (group g 2) = [x]"
    and "bindr (dindex generic (group g 1)) (\<lambda>r. found_lists A x (dget_list ids r)) = Inr [k]"
    using f Some by (auto simp: found_for_def split: list.splits)
  then obtain r where r: "dget generic (group g 1) = Some r"
    and l: "found_lists A x (dget_list ids r) = Inr [k]"
    by (auto simp: bindr_Inr_iff dindex_def split: option.splits)
  have "quoted_from A line_of rules (group g 2) = {x}" using ids_of_quoted [OF ids, of "group g 2"] x by simp
  moreover have "{L \<in> quoted_from A line_of rules r. list_over A {0..<length (cells A) div cols A} x L} = {k}"
    using found_lists_exact [OF l] ids_of_quoted [OF ids, of r] by simp
  ultimately show ?thesis using Some r by (simp add: singled_out_def)
qed

section \<open>Properties\<close>

text \<open>C15: The generated \<open>on_error_reduce\<close> set holds, for every declared symbol, the one nonterminal the
  parser tables single out, and nothing else.  For a plain rule name it is the only left-hand
  side quoted from that rule.  For an instance of a generic rule such as \<open>list(expr)\<close> it is the
  only nonterminal quoted from the generic rule for which the argument's nonterminal has, in some
  state, a goto to a state that reduces a one-symbol production of it on a terminal, or that has
  a goto on it.\<close>

theorem reduce_ids_exact:
  assumes "on_error_reduce_ids A line_of rules declared = Inr out"
  shows "(\<forall>k d. dget out k = Some d \<longrightarrow> d \<in> set declared \<and> singled_out A line_of rules d k) \<and>
    (\<forall>d \<in> set declared. \<exists>k. singled_out A line_of rules d k \<and> k \<in> set (dkeys out))"
proof -
  from on_error_reduce_idsD [OF assms] obtain ids
    where ids: "ids_of A line_of rules = Inr ids" "reduce_ids A ids declared [] = Inr out" .
  from reduce_ids_frame [OF ids(2)] found_for_singled_out [OF ids(1)]
  show ?thesis by (simp add: dget_None_iff) blast
qed




text \<open>
  A grammar in which 3 is quoted from \<open>expr\<close> and 4 and 5 from \<open>list_of\<close>; from state 0 the goto on 3
  leads to state 1, which reduces production 1, of 4, on terminal 1.  Production 2, of 5, is
  reduced there too, but has two symbols.
\<close>

definition list_automaton :: automaton where
  "list_automaton = \<lparr>lhs = [3, 4, 5], act = [0, 1, 2], rhs_length = [1, 1, 2],
     cells = [0, 0, 0, 3, 0, 0, 0, 5, 6, 0, 0, 0],
     cols = 6, last_shift = 3, first_reduce = 4, last_reduce = 6, terminals = 2\<rparr>"

definition list_rules :: "str list" where
  "list_rules = [''expr :'', ''  x { 1 }'', ''list_of :'', ''  expr { 2 }'']"

lemma list_reduce:
  "on_error_reduce_ids list_automaton [(0, 2), (1, 4), (2, 4)] list_rules [''list(expr)''] = Inr [(4, ''list(expr)'')]"
  by code_simp

theorem reduce_ids_exact_witness:
  "singled_out list_automaton [(0, 2), (1, 4), (2, 4)] list_rules ''list(expr)'' 4"
  using reduce_ids_exact [OF list_reduce] by simp


end
