(* ===== verification/Json.thy ===== *)
theory Json
  imports Py_Text
begin

text \<open>
  The JSON values the tools exchange (diagnostics, goldens, manifests, the oracle policy), with
  Python's \<open>json.dumps\<close> and \<open>json.loads\<close> on them.  Objects are dictionaries in insertion
  order.  A number with a fraction or an exponent is kept as it is spelled: no file of the
  tools has one.
\<close>

section \<open>Values\<close>

datatype json =
    JNull
  | JBool bool
  | JInt int
  | JFloat str
  | JStr str
  | JArr "json list"
  | JObj "(str \<times> json) list"

text \<open>
  Python's \<open>==\<close> on such values: \<open>True\<close> is \<open>1\<close>, \<open>False\<close> is \<open>0\<close>, and dictionaries are compared
  without their order.  Two values are equal when their canonical forms are.
\<close>

fun canon :: "json \<Rightarrow> json" where
  "canon (JBool b) = JInt (if b then 1 else 0)"
| "canon (JArr vs) = JArr (map canon vs)"
| "canon (JObj kvs) = JObj (sort_key fst (map (\<lambda>(k, v). (k, canon v)) kvs))"
| "canon j = j"

definition py_eq :: "json \<Rightarrow> json \<Rightarrow> bool" where
  "py_eq a b \<longleftrightarrow> canon a = canon b"

lemma py_eq_refl [simp]: "py_eq a a"
  by (simp add: py_eq_def)

lemma py_eq_trans: "py_eq a b \<Longrightarrow> py_eq b c \<Longrightarrow> py_eq a c"
  by (simp_all add: py_eq_def)

lemma py_eq_sym: "py_eq a b \<longleftrightarrow> py_eq b a"
  by (auto simp: py_eq_def)

lemma canon_atom: "canon a = JStr s \<longleftrightarrow> a = JStr s" "canon a = JNull \<longleftrightarrow> a = JNull"
  "JStr s = canon a \<longleftrightarrow> a = JStr s" "JNull = canon a \<longleftrightarrow> a = JNull"
  by (cases a; auto)+

lemma py_eq_simps [simp]:
  "py_eq (JStr s) b \<longleftrightarrow> b = JStr s" "py_eq a (JStr s) \<longleftrightarrow> a = JStr s"
  "py_eq JNull b \<longleftrightarrow> b = JNull" "py_eq a JNull \<longleftrightarrow> a = JNull"
  "py_eq (JInt i) (JInt j) \<longleftrightarrow> i = j"
  by (auto simp: py_eq_def canon_atom)

definition jget :: "(str, json) dict \<Rightarrow> str \<Rightarrow> json" where
  \<comment> \<open>\<open>d.get(k)\<close>: a missing key and a null are both \<open>None\<close>\<close>
  "jget d k = (case dget d k of None \<Rightarrow> JNull | Some v \<Rightarrow> v)"

definition as_obj :: "json \<Rightarrow> (str, json) dict res" where
  \<comment> \<open>the receiver of \<open>.get\<close>, \<open>.items\<close>: anything but a dictionary has no such attribute\<close>
  "as_obj j = (case j of JObj d \<Rightarrow> Inr d | _ \<Rightarrow> Inl AttributeError)"

text \<open>What \<open>json.loads\<close> can return: objects with distinct keys.\<close>

fun jwf :: "json \<Rightarrow> bool" where
  "jwf (JArr vs) = list_all jwf vs"
| "jwf (JObj kvs) = (distinct (map fst kvs) \<and> list_all (\<lambda>(k, v). jwf v) kvs)"
| "jwf (JFloat _) = False"
| "jwf j = True"

section \<open>Writing\<close>

definition hex_digit :: "nat \<Rightarrow> char" where
  "hex_digit n = ''0123456789abcdef'' ! n"

text \<open>\<open>ensure_ascii\<close> also escapes what is outside the printable ASCII range.\<close>

definition quote_char :: "bool \<Rightarrow> char \<Rightarrow> str" where
  "quote_char ascii c =
     (if c = DQ then [BSL, DQ]
      else if c = BSL then [BSL, BSL]
      else if c = LF then [BSL, CHR ''n'']
      else if c = CR then [BSL, CHR ''r'']
      else if c = TAB then [BSL, CHR ''t'']
      else if c = CHR 0x0C then [BSL, CHR ''f'']
      else if c = CHR 0x08 then [BSL, CHR ''b'']
      else if code c < 32 \<or> ascii \<and> 127 \<le> code c
      then [BSL, CHR ''u'', CHR ''0'', CHR ''0'', hex_digit (code c div 16), hex_digit (code c mod 16)]
      else [c])"

definition json_string :: "bool \<Rightarrow> str \<Rightarrow> str" where
  "json_string ascii s = [DQ] @ concat (map (quote_char ascii) s) @ [DQ]"

text \<open>
  The two layouts in use: \<open>separators=(",", ":"), ensure_ascii=False\<close> for one diagnostic per
  line, and \<open>indent=2\<close> for the files kept under version control.
\<close>

datatype layout = Compact | Indent2

fun nl :: "layout \<Rightarrow> nat \<Rightarrow> str" where
  "nl Compact n = []"
| "nl Indent2 n = LF # replicate (2 * n) CHR '' ''"

fun colon :: "layout \<Rightarrow> str" where
  "colon Compact = '':''"
| "colon Indent2 = '': ''"

fun ascii_only :: "layout \<Rightarrow> bool" where
  "ascii_only Compact = False"
| "ascii_only Indent2 = True"

fun dumps_at :: "layout \<Rightarrow> nat \<Rightarrow> json \<Rightarrow> str"
and dumps_rest :: "layout \<Rightarrow> nat \<Rightarrow> json list \<Rightarrow> str"
and dumps_items :: "layout \<Rightarrow> nat \<Rightarrow> (str \<times> json) list \<Rightarrow> str" where
  "dumps_at l n JNull = ''null''"
| "dumps_at l n (JBool b) = (if b then ''true'' else ''false'')"
| "dumps_at l n (JInt i) = str_int i"
| "dumps_at l n (JFloat s) = s"
| "dumps_at l n (JStr s) = json_string (ascii_only l) s"
| "dumps_at l n (JArr []) = ''[]''"
| "dumps_at l n (JArr (v # vs)) =
     ''['' @ nl l (n + 1) @ dumps_at l (n + 1) v @ dumps_rest l (n + 1) vs @ nl l n @ '']''"
| "dumps_at l n (JObj []) = ''{}''"
| "dumps_at l n (JObj ((k, v) # kvs)) =
     ''{'' @ nl l (n + 1) @ json_string (ascii_only l) k @ colon l @ dumps_at l (n + 1) v
       @ dumps_items l (n + 1) kvs @ nl l n @ ''}''"
| "dumps_rest l n [] = []"
| "dumps_rest l n (v # vs) = '','' @ nl l n @ dumps_at l n v @ dumps_rest l n vs"
| "dumps_items l n [] = []"
| "dumps_items l n ((k, v) # kvs) =
     '','' @ nl l n @ json_string (ascii_only l) k @ colon l @ dumps_at l n v @ dumps_items l n kvs"

definition dumps :: "layout \<Rightarrow> json \<Rightarrow> str" where
  "dumps l j = dumps_at l 0 j"

section \<open>Reading\<close>

lemma startswith1 [simp]: "startswith (c # s) [d] \<longleftrightarrow> c = d" "\<not> startswith [] [d]"
  by (auto simp: startswith_def)

definition json_space :: "char \<Rightarrow> bool" where
  "json_space c \<longleftrightarrow> c = CHR '' '' \<or> c = TAB \<or> c = LF \<or> c = CR"

definition ws :: "str \<Rightarrow> str" where
  "ws s = dropWhile json_space s"

lemma length_ws: "length (ws s) \<le> length s"
  by (simp add: ws_def length_dropWhile_le)

lemma ws_bound: "length s \<le> n \<Longrightarrow> length (ws s) \<le> n"
  using length_ws [of s] by simp

lemma ws_less: "length s < n \<Longrightarrow> length (ws s) < n" "length r < n \<Longrightarrow> length (ws (tl (ws r))) < n"
  using length_ws [of s] length_ws [of r] length_ws [of "tl (ws r)"] by auto

lemma ws_twice: "length r \<le> n \<Longrightarrow> length (ws (tl (ws r))) \<le> n"
  using length_ws [of r] length_ws [of "tl (ws r)"] by auto

lemma ws_twice_Suc: "length r < n \<Longrightarrow> Suc (2 * length (ws r)) \<le> 2 * n"
  using length_ws [of r] by simp

definition hex_val :: "char \<Rightarrow> nat option" where
  "hex_val c = (if is_digit c then Some (code c - 48)
     else if 97 \<le> code c \<and> code c \<le> 102 then Some (code c - 87)
     else if 65 \<le> code c \<and> code c \<le> 70 then Some (code c - 55) else None)"

definition unescape :: "(char, char) dict" where
  "unescape = [(DQ, DQ), (BSL, BSL), (CHR ''/'', CHR ''/''), (CHR ''b'', CHR 0x08),
     (CHR ''f'', CHR 0x0C), (CHR ''n'', LF), (CHR ''r'', CR), (CHR ''t'', TAB)]"

text \<open>
  The body of a string, after its opening quote.  A control character ends the parse, and a
  code point above the model's bound is read as a question mark, as in \<open>utf8_decode\<close>.
\<close>

fun jstr :: "str \<Rightarrow> (str \<times> str) option" where
  "jstr [] = None"
| "jstr (c # s) =
     (if c = DQ then Some ([], s)
      else if code c < 32 then None
      else if c = BSL then
        (case s of
           [] \<Rightarrow> None
         | e # t \<Rightarrow>
             if e = CHR ''u'' then
               (case t of
                  a # b # x # y # t' \<Rightarrow>
                    (case (hex_val a, hex_val b, hex_val x, hex_val y) of
                       (Some h1, Some h2, Some h3, Some h4) \<Rightarrow>
                         map_option (\<lambda>(r, z). ((if h1 = 0 \<and> h2 = 0 then char_of (16 * h3 + h4)
                                                else CHR ''?'') # r, z)) (jstr t')
                     | _ \<Rightarrow> None)
                | _ \<Rightarrow> None)
             else (case dget unescape e of
                     None \<Rightarrow> None
                   | Some x \<Rightarrow> map_option (\<lambda>(r, z). (x # r, z)) (jstr t)))
      else map_option (\<lambda>(r, z). (c # r, z)) (jstr s))"

text \<open>Numbers: \<open>-?(0|[1-9]\d*)(\.\d+)?([eE][-+]?\d+)?\<close>.\<close>

fun exponent :: "str \<Rightarrow> str" where
  \<comment> \<open>the exponent at the front, or nothing\<close>
  "exponent [] = []"
| "exponent (c # s) = (if c = CHR ''e'' \<or> c = CHR ''E'' then
       (let sg = (case s of [] \<Rightarrow> [] | d # _ \<Rightarrow> if d = CHR ''-'' \<or> d = CHR ''+'' then [d] else []);
            ds = takeWhile is_digit (drop (length sg) s)
        in if ds = [] then [] else c # sg @ ds)
     else [])"

fun fraction :: "str \<Rightarrow> str" where
  "fraction [] = []"
| "fraction (c # s) = (if c = CHR ''.'' \<and> takeWhile is_digit s \<noteq> [] then c # takeWhile is_digit s else [])"

definition int_part :: "str \<Rightarrow> str" where
  "int_part s = (case s of [] \<Rightarrow> []
     | c # _ \<Rightarrow> if c = CHR ''0'' then [c] else takeWhile is_digit s)"

definition jnum :: "str \<Rightarrow> (json \<times> str) option" where
  "jnum s =
     (let neg = startswith s ''-''; t = (if neg then tl s else s);
          ip = int_part t; r = drop (length ip) t;
          fp = fraction r; r' = drop (length fp) r;
          ep = exponent r'; r'' = drop (length ep) r'
      in if ip = [] then None
         else if fp = [] \<and> ep = []
         then Some (JInt (if neg then - int (nat_of_digits ip) else int (nat_of_digits ip)), r'')
         else Some (JFloat ((if neg then ''-'' else []) @ ip @ fp @ ep), r''))"

definition word_values :: "(str \<times> json) list" where
  \<comment> \<open>the constants of \<open>json.loads\<close>, the three non-standard ones included\<close>
  "word_values = [(''null'', JNull), (''true'', JBool True), (''false'', JBool False),
     (''NaN'', JFloat ''NaN''), (''Infinity'', JFloat ''Infinity''), (''-Infinity'', JFloat ''-Infinity'')]"

definition jword :: "str \<Rightarrow> (json \<times> str) option" where
  "jword s = map_option (\<lambda>(w, v). (v, drop (length w) s)) (find (\<lambda>(w, v). startswith s w) word_values)"

definition dict_of :: "(str \<times> json) list \<Rightarrow> (str, json) dict" where
  "dict_of kvs = fold (\<lambda>(k, v). dset k v) kvs []"

text \<open>
  \<open>jval\<close> reads a value, \<open>jarr\<close> the elements after an opening bracket, \<open>jobj\<close> the pairs after
  an opening brace.  The comparisons of lengths only make the recursion visibly decreasing:
  \<open>jval_shorter\<close> shows that they always hold.
\<close>

function (sequential) jval :: "str \<Rightarrow> (json \<times> str) option"
and jarr :: "str \<Rightarrow> (json list \<times> str) option"
and jobj :: "str \<Rightarrow> ((str \<times> json) list \<times> str) option" where
  "jval [] = None"
| "jval (c # s) =
     (if c = DQ then map_option (\<lambda>(k, r). (JStr k, r)) (jstr s)
      else if c = CHR ''['' then
        (if startswith (ws s) '']'' then Some (JArr [], tl (ws s))
         else map_option (\<lambda>(vs, r). (JArr vs, r)) (jarr (ws s)))
      else if c = CHR ''{'' then
        (if startswith (ws s) ''}'' then Some (JObj [], tl (ws s))
         else map_option (\<lambda>(kvs, r). (JObj (dict_of kvs), r)) (jobj (ws s)))
      else (case jword (c # s) of Some vr \<Rightarrow> Some vr | None \<Rightarrow> jnum (c # s)))"
| "jarr s = (case jval s of None \<Rightarrow> None
     | Some (v, r) \<Rightarrow>
         (case ws r of [] \<Rightarrow> None
          | d # t \<Rightarrow>
              if d = CHR '']'' then Some ([v], t)
              else if d = CHR '','' \<and> length t < length s
              then map_option (\<lambda>(vs, z). (v # vs, z)) (jarr (ws t))
              else None))"
| "jobj s = (if \<not> startswith s [DQ] then None else
     (case jstr (tl s) of None \<Rightarrow> None
      | Some (k, r) \<Rightarrow>
          if \<not> startswith (ws r) '':'' \<or> length r \<ge> length s then None
          else (case jval (ws (tl (ws r))) of None \<Rightarrow> None
            | Some (v, r') \<Rightarrow>
                (case ws r' of [] \<Rightarrow> None
                 | d # t \<Rightarrow>
                     if d = CHR ''}'' then Some ([(k, v)], t)
                     else if d = CHR '','' \<and> length t < length s
                     then map_option (\<lambda>(kvs, z). ((k, v) # kvs, z)) (jobj (ws t))
                     else None))))"
  by pat_completeness auto
termination
  by (relation "measure (case_sum (\<lambda>s. 2 * length s)
        (case_sum (\<lambda>s. Suc (2 * length s)) (\<lambda>s. Suc (2 * length s))))")
    (auto simp: ws_bound ws_twice ws_twice_Suc less_Suc_eq_le intro!: ws_less)

declare jarr.simps [simp del] jobj.simps [simp del]

definition loads :: "str \<Rightarrow> json res" where
  "loads s = (case jval (ws s) of None \<Rightarrow> Inl JSONDecodeError
     | Some (j, r) \<Rightarrow> if ws r = [] then Inr j else Inl JSONDecodeError)"

lemma jstr_shorter: "jstr s = Some (x, r) \<Longrightarrow> length r < length s"
proof (induction s arbitrary: x r rule: length_induct)
  case (1 s)
  have IH: "jstr t = Some (x, r) \<Longrightarrow> length t < length s \<Longrightarrow> length r < length s" for t x r
    using 1(1) by fastforce
  show ?case using 1(2)
    by (cases s) (auto split: if_splits list.splits option.splits dest!: IH)
qed

section \<open>Reading what was written\<close>

lemma hex_val_digit: "n < 16 \<Longrightarrow> hex_val (hex_digit n) = Some n"
proof -
  have "\<forall>n \<in> {..<16}. hex_val (hex_digit n) = Some n" by code_simp
  then show "n < 16 \<Longrightarrow> hex_val (hex_digit n) = Some n" by simp
qed

lemma jstr_quote_char: "jstr (quote_char a c @ t) = map_option (\<lambda>(r, z). (c # r, z)) (jstr t)"
proof -
  have h: "hex_val CHR ''0'' = Some 0" by code_simp
  have d: "hex_val (hex_digit (code c div 16)) = Some (code c div 16)"
    "hex_val (hex_digit (code c mod 16)) = Some (code c mod 16)"
    using code_less [of c] by (simp_all add: hex_val_digit)
  have m: "char_of (16 * (code c div 16) + code c mod 16) = c"
    by (simp only: mult_div_mod_eq char_of_code)
  have b: "code BSL = 92" by code_simp
  let ?S = "{DQ, BSL, LF, CR, TAB, CHR 0x0C, CHR 0x08}"
  consider (named) "c \<in> ?S" | (hex) "c \<notin> ?S" "code c < 32 \<or> a \<and> 127 \<le> code c"
    | (plain) "c \<notin> ?S" "\<not> (code c < 32 \<or> a \<and> 127 \<le> code c)" by blast
  then show ?thesis
  proof cases
    case named
    then show ?thesis by (auto simp: quote_char_def unescape_def b)
  next
    case hex
    then have q: "quote_char a c = [BSL, CHR ''u'', CHR ''0'', CHR ''0'',
        hex_digit (code c div 16), hex_digit (code c mod 16)]"
      by (simp add: quote_char_def)
    show ?thesis unfolding q by (simp add: b h d m)
  next
    case plain
    then have q: "quote_char a c = [c]" "c \<noteq> DQ" "c \<noteq> BSL" "\<not> code c < 32"
      by (auto simp: quote_char_def)
    then show ?thesis by simp
  qed
qed

lemma jstr_json: "jstr (concat (map (quote_char a) s) @ DQ # r) = Some (s, r)"
  by (induction s) (auto simp: jstr_quote_char)

text \<open>What can follow a value in the files written: nothing, or one of four characters.\<close>

definition delim :: "str \<Rightarrow> bool" where
  "delim r \<longleftrightarrow> r = [] \<or> hd r \<in> {CHR '','', CHR '']'', CHR ''}'', LF}"

lemma delim_simps [simp]: "delim []" "delim (CHR '','' # r)" "delim (CHR '']'' # r)"
  "delim (CHR ''}'' # r)" "delim (LF # r)"
  by (simp_all add: delim_def)

lemma delim_cases: "delim (c # r) \<Longrightarrow> c \<in> {CHR '','', CHR '']'', CHR ''}'', LF}"
  by (simp add: delim_def)

lemma str_nat_hd: "0 < n \<Longrightarrow> hd (str_nat n) \<noteq> CHR ''0''"
proof (induction n rule: str_nat.induct)
  case (1 n)
  show ?case
  proof (cases "n < 10")
    case True
    have "\<forall>k \<in> {1..<10}. ''0123456789'' ! k \<noteq> CHR ''0''" by code_simp
    then show ?thesis using True 1(2) by (subst str_nat.simps) (auto simp del: nth_Cons')
  next
    case False
    then have "hd (str_nat (n div 10)) \<noteq> CHR ''0''" using 1 by simp
    then show ?thesis using False str_nat_digits [of "n div 10"]
      by (subst str_nat.simps) (simp add: hd_append)
  qed
qed

lemma delim_not_digit: "delim r \<Longrightarrow> takeWhile is_digit r = []"
proof (cases r)
  case (Cons c t)
  assume "delim r"
  moreover have "\<forall>c \<in> set ('',]}'' @ [LF]). \<not> is_digit c" by code_simp
  ultimately show ?thesis using Cons by (auto dest!: delim_cases)
qed simp

lemma int_part_str_nat: assumes "delim r" shows "int_part (str_nat n @ r) = str_nat n"
proof -
  have tw: "takeWhile is_digit (str_nat n @ r) = str_nat n"
    using str_nat_digits [of n] delim_not_digit [OF assms]
    by (simp add: takeWhile_append2 list_all_iff)
  obtain c cs where c: "str_nat n = c # cs" using str_nat_digits [of n] by (cases "str_nat n") auto
  show ?thesis
  proof (cases "n = 0")
    case True
    then have "str_nat n = ''0''" by (subst str_nat.simps) simp
    then show ?thesis by (simp add: int_part_def)
  next
    case False
    then have "c \<noteq> CHR ''0''" using str_nat_hd [of n] c by simp
    then show ?thesis using tw c by (simp add: int_part_def)
  qed
qed

lemma jnum_int: assumes "delim r" shows "jnum (str_int i @ r) = Some (JInt i, r)"
proof -
  have fr: "fraction r = []" "exponent r = []"
    using assms by (cases r; auto dest!: delim_cases)+
  obtain c cs where c: "str_nat (nat i) = c # cs" "is_digit c"
    using str_nat_digits [of "nat i"] by (cases "str_nat (nat i)") auto
  have m: "c \<noteq> CHR ''-''" using c minus_not_digit by metis
  show ?thesis
  proof (cases "i < 0")
    case True
    then show ?thesis using fr str_nat_digits
      by (simp add: jnum_def str_int_def startswith_def int_part_str_nat [OF assms]
          nat_of_digits_str_nat Let_def)
  next
    case False
    have "\<not> startswith (str_nat (nat i) @ r) ''-''" using c m by (simp add: startswith_def)
    then show ?thesis using False fr str_nat_digits
      by (simp add: jnum_def str_int_def int_part_str_nat [OF assms] nat_of_digits_str_nat Let_def)
  qed
qed

lemma jword_int: "jword (str_int i @ r) = None"
proof -
  have d: "is_digit c \<Longrightarrow> c \<notin> set ''ntfNI-''" for c
  proof -
    have "\<forall>c \<in> set ''ntfNI-''. \<not> is_digit c" by code_simp
    then show "is_digit c \<Longrightarrow> c \<notin> set ''ntfNI-''" by blast
  qed
  obtain c cs where c: "str_nat (nat \<bar>i\<bar>) = c # cs" "is_digit c"
    using str_nat_digits [of "nat \<bar>i\<bar>"] by (cases "str_nat (nat \<bar>i\<bar>)") auto
  have "str_int i = (if i < 0 then CHR ''-'' # c # cs else c # cs)"
    using c by (auto simp: str_int_def)
  then show ?thesis using d [OF c(2)]
    by (simp add: jword_def word_values_def startswith_def)
qed

text \<open>
  The round trip.  A written value starts with a character that opens it, so that white space
  around it and an empty array or object are told apart.
\<close>

definition opens :: "str \<Rightarrow> bool" where
  "opens s \<longleftrightarrow> s \<noteq> [] \<and> \<not> json_space (hd s) \<and> \<not> is_space (hd s) \<and> hd s \<noteq> CHR '']'' \<and> hd s \<noteq> CHR ''}''"

lemma opens_str_int: "opens (str_int i)"
proof -
  obtain c cs where c: "str_nat (nat \<bar>i\<bar>) = c # cs" "is_digit c"
    using str_nat_digits [of "nat \<bar>i\<bar>"] by (cases "str_nat (nat \<bar>i\<bar>)") auto
  have "str_int i = (if i < 0 then CHR ''-'' # c # cs else c # cs)"
    using c by (auto simp: str_int_def)
  moreover have "\<forall>c \<in> set ('' ]}'' @ [TAB, LF, CR]). \<not> is_digit c" by code_simp
  moreover have "\<not> is_space c" "\<not> is_space CHR ''-''"
    using c(2) digit_not_space by (blast, code_simp)
  ultimately show ?thesis using c(2) by (auto simp: opens_def json_space_def)
qed

lemma visible_consts: "\<forall>c \<in> set (''ntf[{'' @ [DQ]). \<not> is_space c"
  by code_simp

lemma opens_dumps: "jwf j \<Longrightarrow> opens (dumps_at l n j)"
  using opens_str_int visible_consts
  by (cases "(l, n, j)" rule: dumps_at.cases)
    (auto simp: opens_def json_space_def json_string_def)

lemma opens_not_blank: "opens s \<Longrightarrow> \<not> blank s"
  unfolding blank_iff opens_def by (metis list.set_sel(1))

lemma opens_not_close: "opens s \<Longrightarrow> \<not> startswith (s @ r) '']''"
  by (cases s) (auto simp: opens_def)

lemma ws_opens: "opens s \<Longrightarrow> ws (s @ r) = s @ r"
  by (cases s) (auto simp: opens_def ws_def)

lemma ws_nl: "ws (nl l n @ s) = ws s"
proof -
  have "dropWhile json_space (replicate m CHR '' '' @ s) = dropWhile json_space s" for m
    by (induction m) (auto simp: json_space_def)
  then show ?thesis by (cases l) (auto simp: ws_def json_space_def)
qed

lemma ws_char: "c \<in> set '',]}:'' \<Longrightarrow> ws (c # s) = c # s"
  by (auto simp: ws_def json_space_def)

lemma ws_quote: "ws (json_string a k @ s) = json_string a k @ s"
  by (simp add: json_string_def ws_def json_space_def)

lemma ws_colon: "ws (colon l @ s) = colon l @ s" "startswith (colon l @ s) '':''"
  "ws (tl (colon l @ s)) = ws s"
  by (cases l; simp add: ws_def json_space_def startswith_def)+

lemma jword_other: "c \<notin> set ''ntfNI-'' \<Longrightarrow> jword (c # s) = None"
  by (auto simp: jword_def word_values_def startswith_def)

lemma jval_string: "jval (json_string a k @ r) = Some (JStr k, r)"
  by (simp add: json_string_def jstr_json)

lemma jval_int: assumes "delim r" shows "jval (str_int i @ r) = Some (JInt i, r)"
proof -
  obtain c cs where c: "str_int i = c # cs" "c \<notin> {DQ, CHR ''['', CHR ''{''}"
  proof -
    obtain c cs where c: "str_nat (nat \<bar>i\<bar>) = c # cs" "is_digit c"
      using str_nat_digits [of "nat \<bar>i\<bar>"] by (cases "str_nat (nat \<bar>i\<bar>)") auto
    have "str_int i = (if i < 0 then CHR ''-'' # c # cs else c # cs)"
      using c by (auto simp: str_int_def)
    moreover have "\<forall>c \<in> {DQ, CHR ''['', CHR ''{''}. \<not> is_digit c" by code_simp
    ultimately show ?thesis using c(2) that by (cases "i < 0") auto
  qed
  then show ?thesis using jnum_int [OF assms, of i] jword_int [of i r] by simp
qed

lemma jarr_last: "jval s = Some (v, nl l m @ '']'' @ r) \<Longrightarrow> jarr s = Some ([v], r)"
  by (subst jarr.simps) (simp add: ws_nl ws_char)

lemma jarr_more:
  assumes "jval s = Some (v, '','' @ nl l n @ t)" and "jarr t = Some (vs, r)" and "ws t = t"
    and "length t + length (nl l n) < length s"
  shows "jarr s = Some (v # vs, r)"
  using assms by (subst jarr.simps) (simp add: ws_char ws_nl)

lemma jobj_last: "jval s = Some (v, nl l m @ ''}'' @ r) \<Longrightarrow> ws s = s \<Longrightarrow>
    jobj (json_string a k @ colon l' @ s) = Some ([(k, v)], r)"
  by (subst jobj.simps) (simp add: json_string_def jstr_json ws_nl ws_char ws_colon)

lemma jobj_more:
  assumes "jval s = Some (v, '','' @ nl l n @ t)" and "jobj t = Some (kvs, r)" and "ws t = t"
    and "length t + length (nl l n) < length s" and "ws s = s"
  shows "jobj (json_string a k @ colon l' @ s) = Some ((k, v) # kvs, r)"
  using assms by (subst jobj.simps) (simp add: json_string_def jstr_json ws_nl ws_char ws_colon)

lemma dict_of_distinct: "distinct (map fst kvs) \<Longrightarrow> dict_of kvs = kvs"
proof -
  have "distinct (map fst (d @ kvs)) \<Longrightarrow> fold (\<lambda>(k, v). dset k v) kvs d = d @ kvs" for d
  proof (induction kvs arbitrary: d)
    case (Cons p kvs)
    obtain k v where p: "p = (k, v)" by (cases p)
    have "k \<notin> fst ` set d" using Cons.prems p by auto
    then have "dset k v d = d @ [(k, v)]" by (induction d) auto
    then show ?case using Cons.IH [of "d @ [(k, v)]"] Cons.prems p by simp
  qed simp
  from this [of "[]"] show "distinct (map fst kvs) \<Longrightarrow> dict_of kvs = kvs"
    by (simp add: dict_of_def)
qed

lemma delim_nl: "delim (nl l n @ CHR '']'' # r)" "delim (nl l n @ CHR ''}'' # r)"
  by (cases l; simp add: delim_def)+

definition reads :: "layout \<Rightarrow> json \<Rightarrow> bool" where
  "reads l j \<longleftrightarrow> (\<forall>n r. delim r \<longrightarrow> jval (dumps_at l n j @ r) = Some (j, r))"

lemma readsD: "reads l j \<Longrightarrow> delim r \<Longrightarrow> jval (dumps_at l n j @ r) = Some (j, r)"
  by (simp add: reads_def)

lemma jarr_dumps:
  assumes "\<forall>v \<in> set (v # vs). jwf v \<and> reads l v"
  shows "jarr (dumps_at l n v @ dumps_rest l n vs @ nl l m @ '']'' @ r) = Some (v # vs, r)"
  using assms
proof (induction vs arbitrary: v)
  case Nil
  then have "jval (dumps_at l n v @ nl l m @ '']'' @ r) = Some (v, nl l m @ '']'' @ r)"
    by (intro readsD) (auto simp: delim_nl)
  then show ?case by (simp add: jarr_last)
next
  case (Cons v' vs)
  let ?t = "dumps_at l n v' @ dumps_rest l n vs @ nl l m @ '']'' @ r"
  have "jval (dumps_at l n v @ '','' @ nl l n @ ?t) = Some (v, '','' @ nl l n @ ?t)"
    by (rule readsD) (use Cons.prems in auto)
  moreover have "jarr ?t = Some (v' # vs, r)" using Cons by simp
  moreover have "ws ?t = ?t" using Cons.prems by (simp add: ws_opens opens_dumps)
  ultimately show ?case
    using jarr_more [of "dumps_at l n v @ '','' @ nl l n @ ?t" v l n ?t "v' # vs" r] by simp
qed

lemma jobj_dumps:
  assumes "\<forall>(k, v) \<in> set ((k, v) # kvs). jwf v \<and> reads l v"
  shows "jobj (json_string (ascii_only l) k @ colon l @ dumps_at l n v @ dumps_items l n kvs @ nl l m @ ''}'' @ r)
    = Some ((k, v) # kvs, r)"
  using assms
proof (induction kvs arbitrary: k v)
  case Nil
  then have "jval (dumps_at l n v @ nl l m @ ''}'' @ r) = Some (v, nl l m @ ''}'' @ r)"
    by (intro readsD) (auto simp: delim_nl)
  moreover have "ws (dumps_at l n v @ nl l m @ ''}'' @ r) = dumps_at l n v @ nl l m @ ''}'' @ r"
    using Nil by (auto intro!: ws_opens opens_dumps)
  ultimately show ?case by (simp add: jobj_last)
next
  case (Cons p kvs)
  obtain k' v' where p: "p = (k', v')" by (cases p)
  let ?t = "json_string (ascii_only l) k' @ colon l @ dumps_at l n v' @ dumps_items l n kvs
    @ nl l m @ ''}'' @ r"
  let ?s = "dumps_at l n v @ '','' @ nl l n @ ?t"
  have "jval ?s = Some (v, '','' @ nl l n @ ?t)"
    by (rule readsD) (use Cons.prems in auto)
  moreover have "jobj ?t = Some ((k', v') # kvs, r)" using Cons p by simp
  moreover have "ws ?t = ?t" by (rule ws_quote)
  moreover have "ws ?s = ?s" using Cons.prems by (auto intro!: ws_opens opens_dumps)
  ultimately show ?case
    using jobj_more [of ?s v l n ?t "(k', v') # kvs" r] p by simp
qed

lemma jval_dumps: "jwf j \<Longrightarrow> reads l j"
proof (induction j)
  case (JArr vs)
  show ?case
  proof (cases vs)
    case (Cons v vs')
    have "\<forall>v \<in> set vs. jwf v \<and> reads l v" using JArr by (auto simp: list_all_iff)
    then have "jarr (dumps_at l n v @ dumps_rest l n vs' @ nl l m @ '']'' @ r) = Some (vs, r)" for n m r
      unfolding Cons by (rule jarr_dumps)
    moreover have "opens (dumps_at l n v)" for n using JArr Cons by (auto intro: opens_dumps)
    ultimately show ?thesis using Cons
      by (simp add: reads_def ws_nl ws_opens opens_not_close)
  qed (simp add: reads_def ws_char)
next
  case (JObj kvs)
  show ?case
  proof (cases kvs)
    case (Cons p kvs')
    obtain k v where p: "p = (k, v)" by (cases p)
    have "\<forall>(k, v) \<in> set kvs. jwf v \<and> reads l v" using JObj by (fastforce simp: list_all_iff)
    then have "jobj (json_string (ascii_only l) k @ colon l @ dumps_at l n v
        @ dumps_items l n kvs' @ nl l m @ ''}'' @ r) = Some (kvs, r)" for n m r
      unfolding Cons p by (rule jobj_dumps)
    moreover have "dict_of kvs = kvs" using JObj by (simp add: dict_of_distinct)
    ultimately show ?thesis using Cons p
      by (simp add: reads_def ws_nl ws_quote) (simp add: json_string_def)
  qed (simp add: reads_def ws_char)
next
  case (JStr s)
  then show ?case by (simp add: reads_def jval_string)
qed (simp_all add: reads_def jval_int jword_def word_values_def startswith_def)

lemma loads_dumps: "jwf j \<Longrightarrow> loads (dumps l j) = Inr j"
  "jwf j \<Longrightarrow> loads (dumps l j @ [LF]) = Inr j"
proof -
  assume j: "jwf j"
  have w: "ws (dumps l j @ r) = dumps l j @ r" for r
    unfolding dumps_def by (rule ws_opens [OF opens_dumps [OF j]])
  have v: "jval (dumps l j @ r) = Some (j, r)" if "delim r" for r
    unfolding dumps_def by (rule readsD [OF jval_dumps [OF j] that])
  have "ws [] = []" "ws [LF] = []" by (simp_all add: ws_def json_space_def)
  then show "loads (dumps l j) = Inr j" "loads (dumps l j @ [LF]) = Inr j"
    using w [of "[]"] w [of "[LF]"] v [of "[]"] v [of "[LF]"] by (simp_all add: loads_def)
qed

section \<open>Lines\<close>

text \<open>
  One value per line only works when no string of the value holds a line boundary that is
  written as it is.  Among the code points of the model that is U+0085: \<open>str.splitlines\<close> breaks
  a line there, and \<open>json.dumps\<close> with \<open>ensure_ascii=False\<close> does not escape it.
\<close>

abbreviation NEL :: char where "NEL \<equiv> CHR 0x85"

fun no_nel :: "json \<Rightarrow> bool" where
  "no_nel (JStr s) = (NEL \<notin> set s)"
| "no_nel (JArr vs) = list_all no_nel vs"
| "no_nel (JObj kvs) = list_all (\<lambda>(k, v). NEL \<notin> set k \<and> no_nel v) kvs"
| "no_nel j = True"

definition unbroken :: "str \<Rightarrow> bool" where
  "unbroken s \<longleftrightarrow> (\<forall>c \<in> set s. \<not> is_linebreak c)"

lemma unbroken_simps [simp]: "unbroken []" "unbroken (a @ b) \<longleftrightarrow> unbroken a \<and> unbroken b"
  by (auto simp: unbroken_def)

lemma unbroken_Cons [simp]: "unbroken (c # a) \<longleftrightarrow> \<not> is_linebreak c \<and> unbroken a"
  by (auto simp: unbroken_def)

lemma visible_not_linebreak: "32 \<le> code c \<Longrightarrow> c \<noteq> NEL \<Longrightarrow> \<not> is_linebreak c"
proof -
  have "code NEL = 133" by code_simp
  then have "c = NEL" if "code c = 133" using that code_eq_iff by metis
  then show "32 \<le> code c \<Longrightarrow> c \<noteq> NEL \<Longrightarrow> \<not> is_linebreak c"
    unfolding is_linebreak_def Let_def by linarith
qed

lemma hex_digit_visible: "n < 16 \<Longrightarrow> \<not> is_linebreak (hex_digit n)"
proof -
  have "\<forall>n \<in> {..<16}. \<not> is_linebreak (hex_digit n)" by code_simp
  then show "n < 16 \<Longrightarrow> \<not> is_linebreak (hex_digit n)" by simp
qed

lemma linebreak_consts [simp]: "\<not> is_linebreak DQ" "\<not> is_linebreak BSL" "is_linebreak LF"
  "\<not> is_linebreak CHR '':''" "\<not> is_linebreak CHR '',''" "\<not> is_linebreak CHR ''[''"
  "\<not> is_linebreak CHR '']''" "\<not> is_linebreak CHR ''{''" "\<not> is_linebreak CHR ''}''"
  "is_linebreak NEL"
  by code_simp+

lemma code_nel: "code NEL = 133"
  by code_simp

lemma unbroken_quote_char: "a \<or> c \<noteq> NEL \<Longrightarrow> unbroken (quote_char a c)"
proof -
  assume c: "a \<or> c \<noteq> NEL"
  have n: "\<forall>c \<in> set ''nrtfbu0''. \<not> is_linebreak c" by code_simp
  have v: "\<not> is_linebreak c" if "\<not> (code c < 32 \<or> a \<and> 127 \<le> code c)"
    by (rule visible_not_linebreak) (use that c code_nel in auto)
  have h: "code c div 16 < 16" using code_less [of c] by simp
  show ?thesis using n v hex_digit_visible [OF h] hex_digit_visible [of "code c mod 16"]
    by (simp add: quote_char_def)
qed

lemma unbroken_json_string: "a \<or> NEL \<notin> set s \<Longrightarrow> unbroken (json_string a s)"
  unfolding json_string_def by (induction s) (auto simp: unbroken_quote_char)

lemma unbroken_str_int: "unbroken (str_int i)"
  using str_int_word [of i] linebreak_space by (auto simp: unbroken_def)

lemma unbroken_compact: "jwf j \<Longrightarrow> no_nel j \<Longrightarrow> unbroken (dumps_at Compact n j)"
  "list_all jwf vs \<Longrightarrow> list_all no_nel vs \<Longrightarrow> unbroken (dumps_rest Compact n vs)"
  "list_all (\<lambda>(k, v). jwf v) kvs \<Longrightarrow> list_all (\<lambda>(k, v). NEL \<notin> set k \<and> no_nel v) kvs \<Longrightarrow>
     unbroken (dumps_items Compact n kvs)"
proof (induction Compact n j and Compact n vs and Compact n kvs
    rule: dumps_at_dumps_rest_dumps_items.induct)
qed (auto simp: unbroken_json_string unbroken_str_int, (code_simp+)?)

section \<open>Keys\<close>

text \<open>Whatever is read, no object has a key twice.\<close>

fun keys_once :: "json \<Rightarrow> bool" where
  "keys_once (JArr vs) = list_all keys_once vs"
| "keys_once (JObj kvs) = (distinct (map fst kvs) \<and> list_all (\<lambda>(k, v). keys_once v) kvs)"
| "keys_once j = True"

lemma dict_of_once:
  assumes "list_all (\<lambda>(k, v). keys_once v) kvs"
  shows "keys_once (JObj (dict_of kvs))"
proof -
  have "keys_once (JObj (fold (\<lambda>(k, v). dset k v) kvs d))" if "keys_once (JObj d)" for d
    using assms that
  proof (induction kvs arbitrary: d)
    case (Cons kv kvs)
    obtain k v where kv: "kv = (k, v)" by (cases kv)
    have "set (dset k v d) \<subseteq> insert (k, v) (set d)" by (induction d) auto
    then have "keys_once (JObj (dset k v d))"
      using Cons.prems kv by (auto simp: AList.distinct_update list_all_iff)
    then show ?case using Cons.IH Cons.prems kv by simp
  qed simp
  then show ?thesis by (simp add: dict_of_def)
qed

lemma parsed_once:
  "jval s = Some (j, r) \<Longrightarrow> keys_once j"
  "jarr s = Some (vs, r) \<Longrightarrow> list_all keys_once vs"
  "jobj s = Some (kvs, r) \<Longrightarrow> list_all (\<lambda>(k, v). keys_once v) kvs"
proof (induction s and s and s arbitrary: j r and vs r and kvs r rule: jval_jarr_jobj.induct)
  case (2 c s)
  have word: "keys_once v" if "jword t = Some (v, q)" for t v q
    using that by (auto simp: jword_def word_values_def split: if_splits)
  have num: "keys_once v" if "jnum t = Some (v, q)" for t v q
    using that by (auto simp: jnum_def Let_def split: if_splits)
  have "keys_once (JObj [])" by simp
  then show ?case using 2 dict_of_once
    by (auto split: if_splits option.splits dest: word num simp del: keys_once.simps(2))
next
  case (3 s)
  from 3(3) obtain v q where v: "jval s = Some (v, q)"
    by (cases "jval s") (auto simp: jarr.simps [of s])
  have "vs = [v] \<or> (\<exists>t u. jarr (ws t) = Some (u, r) \<and> vs = v # u \<and> (\<exists>d. ws q = d # t \<and> d \<noteq> CHR '']'' \<and> d = CHR '','' \<and> length t < length s))"
    using 3(3) v by (cases "ws q") (auto simp: jarr.simps [of s] split: if_splits)
  then show ?case using 3(1) [OF v] 3(2) [OF v refl] by auto
next
  case (4 s)
  have q: "startswith s [DQ]" using 4(3) by (cases "startswith s [DQ]") (auto simp: jobj.simps [of s])
  obtain k q where k: "jstr (tl s) = Some (k, q)"
    using 4(3) q by (cases "jstr (tl s)") (auto simp: jobj.simps [of s])
  have c: "\<not> (\<not> startswith (ws q) '':'' \<or> length s \<le> length q)"
    using 4(3) q k by (cases "\<not> startswith (ws q) '':'' \<or> length s \<le> length q") (auto simp: jobj.simps [of s])
  obtain v q' where v: "jval (ws (tl (ws q))) = Some (v, q')"
    using 4(3) q k c by (cases "jval (ws (tl (ws q)))") (auto simp: jobj.simps [of s])
  have "kvs = [(k, v)] \<or> (\<exists>t u. jobj (ws t) = Some (u, r) \<and> kvs = (k, v) # u
      \<and> (\<exists>d. ws q' = d # t \<and> d \<noteq> CHR ''}'' \<and> d = CHR '','' \<and> length t < length s))"
    using 4(3) q k c v by (cases "ws q'") (auto simp: jobj.simps [of s] split: if_splits)
  then show ?case using 4(1) [OF _ k refl c v] 4(2) [OF _ k refl c v refl] q by auto
qed simp

lemma loads_once: "loads s = Inr j \<Longrightarrow> keys_once j"
  by (auto simp: loads_def split: option.splits if_splits dest: parsed_once(1))
end
