(* ===== verification/Diagnostics.thy ===== *)
theory Diagnostics
  imports Json
begin

text \<open>
  Diagnostics as the harness handles them (\<open>tools/waxdiff.py\<close>): one JSON object per line, with
  the \<open>file\<close> field cut down to a repository-relative path.  The contract between what writes
  such lines and what reads them back is the locale \<open>line_codec\<close>.
\<close>

section \<open>One value per line\<close>

definition parse_jsonl :: "str \<Rightarrow> json list res" where
  "parse_jsonl s = mapr loads (filter (\<lambda>l. \<not> blank l) (splitlines s))"

definition jsonl_text :: "json list \<Rightarrow> str" where
  "jsonl_text ds = concat (map (\<lambda>d. dumps Compact d @ [LF]) ds)"

locale line_codec =
  fixes wr :: "'a \<Rightarrow> str" and rd :: "str \<Rightarrow> 'a res" and good :: "'a \<Rightarrow> bool"
  assumes rd_wr: "good x \<Longrightarrow> rd (wr x) = Inr x"
    and wr_unbroken: "good x \<Longrightarrow> c \<in> set (wr x) \<Longrightarrow> \<not> is_linebreak c"
    and wr_visible: "good x \<Longrightarrow> \<not> blank (wr x)"
begin

lemma lines_back:
  "\<forall>x \<in> set xs. good x \<Longrightarrow> splitlines (concat (map (\<lambda>x. wr x @ [LF]) xs)) = map wr xs"
  using splitlines_concat [of "map wr xs"] wr_unbroken by (fastforce simp: comp_def)

lemma read_back:
  assumes "\<forall>x \<in> set xs. good x"
  shows "mapr rd (filter (\<lambda>l. \<not> blank l) (splitlines (concat (map (\<lambda>x. wr x @ [LF]) xs)))) = Inr xs"
proof -
  have "filter (\<lambda>l. \<not> blank l) (map wr xs) = map wr xs"
    using assms wr_visible by (auto simp: filter_id_conv)
  moreover have "mapr rd (map wr xs) = Inr xs"
    using assms rd_wr by (induction xs) auto
  ultimately show ?thesis using lines_back [OF assms] by simp
qed

lemma no_carriage_return: "\<forall>x \<in> set xs. good x \<Longrightarrow> CR \<notin> set (concat (map (\<lambda>x. wr x @ [LF]) xs))"
proof -
  have "is_linebreak CR" by code_simp
  then show "\<forall>x \<in> set xs. good x \<Longrightarrow> ?thesis" using wr_unbroken by auto
qed

end

interpretation jsonl: line_codec "dumps Compact" loads "\<lambda>j. jwf j \<and> no_nel j"
proof unfold_locales
  fix j c assume g: "jwf j \<and> no_nel j"
  show "loads (dumps Compact j) = Inr j" using g by (simp add: loads_dumps)
  show "c \<in> set (dumps Compact j) \<Longrightarrow> \<not> is_linebreak c"
    using g unbroken_compact(1) [of j 0] by (auto simp: dumps_def unbroken_def)
  show "\<not> blank (dumps Compact j)"
    unfolding dumps_def by (rule opens_not_blank, rule opens_dumps) (use g in simp)
qed

section \<open>The file a diagnostic is about\<close>

definition corpus_marker :: str where
  "corpus_marker = ''test/corpus/''"

definition normalize_obj :: "(str, json) dict \<Rightarrow> (str, json) dict" where
  "normalize_obj d = (case jget d ''file'' of
      JStr f \<Rightarrow> (case rfind f corpus_marker of
         None \<Rightarrow> d
       | Some at \<Rightarrow> dset ''file'' (JStr (drop at f)) d)
    | _ \<Rightarrow> d)"

definition normalize_file :: "json \<Rightarrow> (str, json) dict res" where
  "normalize_file j = bindr (as_obj j) (\<lambda>d. Inr (normalize_obj d))"

lemma rfind_self: "p \<noteq> [] \<Longrightarrow> rfind s p = Some i \<Longrightarrow> rfind (drop i s) p = Some 0"
proof -
  assume p: "p \<noteq> []" and i: "rfind s p = Some i"
  have st: "startswith (drop i s) p" using rfind_Some [OF i p] by simp
  then obtain k where k: "rfind (drop i s) p = Some k"
    using rfind_None [OF p, of "drop i s"] contains_iff [of "drop i s" p] startswith_iff
    by (metis append_Nil option.exhaust)
  have "startswith (drop (i + k) s) p" using rfind_Some [OF k p] by (simp add: add.commute)
  then have "k = 0" using rfind_last [OF i p, of "i + k"] by auto
  then show ?thesis using k by simp
qed

lemma jget_dset [simp]: "jget (dset k v d) k' = (if k' = k then v else jget d k')"
  by (simp add: jget_def)

lemma jget_normalize: "k \<noteq> ''file'' \<Longrightarrow> jget (normalize_obj d) k = jget d k"
  by (simp add: normalize_obj_def split: json.split option.split)

lemma normalize_obj_twice: "normalize_obj (normalize_obj d) = normalize_obj d"
proof (cases "\<exists>f at. jget d ''file'' = JStr f \<and> rfind f corpus_marker = Some at")
  case True
  then obtain f at where f: "jget d ''file'' = JStr f" "rfind f corpus_marker = Some at" by blast
  have n: "normalize_obj d = dset ''file'' (JStr (drop at f)) d"
    using f by (simp add: normalize_obj_def)
  have "rfind (drop at f) corpus_marker = Some 0"
    by (rule rfind_self [OF _ f(2)]) (simp add: corpus_marker_def)
  moreover have "dset k v (dset k v d) = dset k v d" for k :: str and v d
    by (induction d) auto
  ultimately show ?thesis unfolding n unfolding normalize_obj_def by simp
next
  case False
  then have "normalize_obj d = d"
    by (auto simp: normalize_obj_def split: json.split option.split)
  then show ?thesis by simp
qed

lemma normalize_keeps:
  assumes "jwf (JObj d)"
  shows "jwf (JObj (normalize_obj d))"
    and "no_nel (JObj d) \<Longrightarrow> no_nel (JObj (normalize_obj d))"
proof -
  have u: "list_all P (dset k v d)" if "list_all P d" "P (k, v)" for P and k :: str and v :: json and d
    using that by (induction d) (auto split: if_splits)
  have f: "\<exists>v. (k, v) \<in> set d \<and> jget d k = v \<or> jget d k = JNull" for k
    by (auto simp: jget_def dest: map_of_SomeD split: option.split)
  have sub: "NEL \<notin> set f \<Longrightarrow> NEL \<notin> set (drop i f)" for i and f :: str
    using set_drop_subset by fastforce
  show "jwf (JObj (normalize_obj d))"
    using assms
    by (auto simp: normalize_obj_def intro!: u AList.distinct_update split: json.split option.split)
  show "no_nel (JObj (normalize_obj d))" if "no_nel (JObj d)"
  proof (cases "normalize_obj d = d")
    case False
    then obtain s at where s: "jget d ''file'' = JStr s"
      "normalize_obj d = dset ''file'' (JStr (drop at s)) d"
      by (auto simp: normalize_obj_def split: json.splits option.splits)
    then have "(''file'', JStr s) \<in> set d"
      by (auto simp: jget_def dest: map_of_SomeD split: option.splits)
    then have "NEL \<notin> set s" using that by (auto simp: list_all_iff)
    then have "no_nel (JStr (drop at s))" using sub by simp
    moreover have "NEL \<notin> set ''file''" by code_simp
    ultimately show ?thesis using that s(2) by (auto intro!: u)
  qed (use that in simp)
qed

text \<open>The lines \<open>write_golden\<close> records for the diagnostics of a file.\<close>

definition golden_lines :: "str \<Rightarrow> str res" where
  "golden_lines diagnostics = bindr (parse_jsonl diagnostics) (\<lambda>ds.
     bindr (mapr normalize_file ds) (\<lambda>ns. Inr (jsonl_text (map JObj ns))))"

end
