(* ===== verification/World.thy ===== *)
theory World
  imports Diagnostics
begin

text \<open>
  What the harness acts on (\<open>tools/waxdiff.py\<close>, 72--165): the file system, the child processes
  and the four module globals that \<open>grade\<close> replaces and restores.  Operations are functions of
  a world that return a value or an exception and the next world.  The programs that are run
  (the reference, the implementation under test, \<open>wasm-tools\<close>), the hash, the names
  \<open>tempfile\<close> chooses and the order in which a directory is walked are fields of the environment.
\<close>

type_synonym path = str
type_synonym files = "path \<Rightarrow> bytes option"

record proc =
  pcode :: int
  pout :: bytes
  perr :: bytes

datatype answer = Exited int bytes bytes | TimedOut | NoSuchProgram

record env =
  exec :: "str list \<Rightarrow> bytes option \<Rightarrow> files \<Rightarrow> answer \<times> files"
  digest :: "bytes \<Rightarrow> str"
  has_systemd :: bool
  mem_cap :: str
  has_wasm_tools :: bool
  temp_file :: "str \<Rightarrow> files \<Rightarrow> path"
  temp_dir :: "str \<Rightarrow> files \<Rightarrow> path"
  walk :: "files \<Rightarrow> path list"
  root :: path

record world =
  disk :: files
  corpus :: path
  golden :: path
  span_exempt :: "(str, str) dict"

type_synonym 'a io = "world \<Rightarrow> 'a res \<times> world"

definition ret :: "'a \<Rightarrow> 'a io" where
  "ret x w = (Inr x, w)"

definition raise :: "exn \<Rightarrow> 'a io" where
  "raise e w = (Inl e, w)"

definition lift :: "'a res \<Rightarrow> 'a io" where
  "lift r w = (r, w)"

definition bindio :: "'a io \<Rightarrow> ('a \<Rightarrow> 'b io) \<Rightarrow> 'b io" where
  "bindio m f w = (case m w of (Inl e, w') \<Rightarrow> (Inl e, w') | (Inr x, w') \<Rightarrow> f x w')"

definition try_finally :: "'a io \<Rightarrow> unit io \<Rightarrow> 'a io" where
  \<comment> \<open>\<open>try: m finally: f\<close>\<close>
  "try_finally m f w = (case m w of (r, w1) \<Rightarrow>
     (case f w1 of (Inl e, w2) \<Rightarrow> (Inl e, w2) | (Inr _, w2) \<Rightarrow> (r, w2)))"

definition on_json_error :: "'a io \<Rightarrow> 'a io \<Rightarrow> 'a io" where
  \<comment> \<open>\<open>try: m except json.JSONDecodeError: h\<close>\<close>
  "on_json_error m h w = (case m w of (Inl JSONDecodeError, w1) \<Rightarrow> h w1 | other \<Rightarrow> other)"

fun mapio :: "('a \<Rightarrow> 'b io) \<Rightarrow> 'a list \<Rightarrow> 'b list io" where
  "mapio f [] = ret []"
| "mapio f (x # xs) = bindio (f x) (\<lambda>y. bindio (mapio f xs) (\<lambda>ys. ret (y # ys)))"

lemma io_simps [simp]:
  "ret x w = (Inr x, w)" "raise e w = (Inl e, w)" "lift r w = (r, w)"
  by (simp_all add: ret_def raise_def lift_def)

lemma run_eq: "fst x = r \<Longrightarrow> x = (r, snd x)"
  by (cases x) simp

lemma bindio_Inr_iff:
  "bindio m f w = (Inr y, w') \<longleftrightarrow> (\<exists>x w1. m w = (Inr x, w1) \<and> f x w1 = (Inr y, w'))"
  by (auto simp: bindio_def split: prod.splits sum.splits)

lemma bindio_step: "m w = (Inr x, w1) \<Longrightarrow> bindio m f w = f x w1"
  by (simp add: bindio_def)

lemma bindio_stop: "m w = (Inl e, w1) \<Longrightarrow> bindio m f w = (Inl e, w1)"
  by (simp add: bindio_def)

lemma bindio_ret [simp]: "bindio (ret x) f = f x"
  by (rule ext) (simp add: bindio_def)

lemma bindio_lift: "bindio (lift r) f w = (case r of Inl e \<Rightarrow> (Inl e, w) | Inr x \<Rightarrow> f x w)"
  by (simp add: bindio_def)

text \<open>
  \<open>ensures m Q\<close>: every value that \<open>m\<close> returns, from any world, satisfies \<open>Q\<close>.
\<close>

named_theorems ensures_rules "what a composed operation returns"

definition ensures :: "'a io \<Rightarrow> ('a \<Rightarrow> bool) \<Rightarrow> bool" where
  "ensures m Q \<longleftrightarrow> (\<forall>w y w'. m w = (Inr y, w') \<longrightarrow> Q y)"

lemma ensuresD: "ensures m Q \<Longrightarrow> m w = (Inr y, w') \<Longrightarrow> Q y"
  by (auto simp: ensures_def)

lemma ensures_ret [ensures_rules]: "Q x \<Longrightarrow> ensures (ret x) Q"
  by (simp add: ensures_def)

lemma ensures_raise [ensures_rules]: "ensures (raise e) Q"
  by (simp add: ensures_def)

lemma ensures_bind [ensures_rules]: "(\<And>x. ensures (f x) Q) \<Longrightarrow> ensures (bindio m f) Q"
  by (auto simp: ensures_def bindio_Inr_iff)

lemma ensures_bind_post: "ensures m R \<Longrightarrow> (\<And>x. R x \<Longrightarrow> ensures (f x) Q) \<Longrightarrow> ensures (bindio m f) Q"
  unfolding ensures_def bindio_Inr_iff by blast

lemma ensures_if [ensures_rules]:
  "(b \<Longrightarrow> ensures m Q) \<Longrightarrow> (\<not> b \<Longrightarrow> ensures n Q) \<Longrightarrow> ensures (if b then m else n) Q"
  by simp

lemma ensures_weaken: "ensures m Q \<Longrightarrow> (\<And>x. Q x \<Longrightarrow> R x) \<Longrightarrow> ensures m R"
  by (auto simp: ensures_def)

lemma ensures_finally: "ensures m Q \<Longrightarrow> ensures (try_finally m f) Q"
  by (auto simp: ensures_def try_finally_def split: prod.splits sum.splits)

section \<open>Files\<close>

definition joinp :: "path \<Rightarrow> str \<Rightarrow> path" where
  "joinp d p = d @ ''/'' @ p"

definition under :: "path \<Rightarrow> path \<Rightarrow> bool" where
  "under d p \<longleftrightarrow> startswith p (d @ ''/'')"

definition set_disk :: "(files \<Rightarrow> files) \<Rightarrow> unit io" where
  "set_disk f w = (Inr (), w\<lparr>disk := f (disk w)\<rparr>)"

definition exists_file :: "path \<Rightarrow> bool io" where
  "exists_file p w = (Inr (disk w p \<noteq> None), w)"

definition read_bytes :: "path \<Rightarrow> bytes io" where
  "read_bytes p w = (case disk w p of None \<Rightarrow> (Inl (FileNotFound p), w) | Some b \<Rightarrow> (Inr b, w))"

definition read_text :: "path \<Rightarrow> str io" where
  \<comment> \<open>text mode: decoded, then with line endings translated\<close>
  "read_text p = bindio (read_bytes p) (\<lambda>b.
     bindio (lift (utf8_strict b)) (\<lambda>s. ret (universal_newlines s)))"

definition write_bytes :: "path \<Rightarrow> bytes \<Rightarrow> unit io" where
  "write_bytes p b = set_disk (\<lambda>m. m(p \<mapsto> b))"

definition write_text :: "path \<Rightarrow> str \<Rightarrow> unit io" where
  "write_text p s = write_bytes p (utf8_encode s)"

definition unlink :: "path \<Rightarrow> unit io" where
  "unlink p = bindio (exists_file p) (\<lambda>there.
     if there then set_disk (\<lambda>m. m(p := None)) else raise (FileNotFound p))"

definition rmtree :: "path \<Rightarrow> unit io" where
  \<comment> \<open>\<open>shutil.rmtree(d, ignore_errors=True)\<close>\<close>
  "rmtree d = set_disk (\<lambda>m p. if under d p then None else m p)"

definition rglob :: "env \<Rightarrow> path \<Rightarrow> str \<Rightarrow> path list io" where
  \<comment> \<open>\<open>sorted(d.rglob("*" + sfx))\<close>: paths are compared part by part\<close>
  "rglob E d sfx w = (Inr (sort_key (split_on ''/'')
     (filter (\<lambda>p. under d p \<and> endswith p sfx) (walk E (disk w)))), w)"

definition relative_to :: "path \<Rightarrow> path \<Rightarrow> str res" where
  "relative_to d p = (if under d p then Inr (drop (length d + 1) p) else Inl (ValueError p))"

lemma relative_to_joinp [simp]: "relative_to d (joinp d p) = Inr p"
  by (simp add: relative_to_def joinp_def under_def startswith_def)

definition corpus_path :: "str \<Rightarrow> path io" where
  "corpus_path rel w = (Inr (joinp (corpus w) rel), w)"

definition golden_path :: "str \<Rightarrow> path io" where
  "golden_path rel w = (Inr (joinp (golden w) rel), w)"

definition new_temp_file :: "env \<Rightarrow> str \<Rightarrow> bytes \<Rightarrow> path io" where
  \<comment> \<open>\<open>NamedTemporaryFile(suffix=..., delete=False)\<close>, written and closed\<close>
  "new_temp_file E sfx b w =
     (let p = temp_file E sfx (disk w) in (Inr p, w\<lparr>disk := (disk w)(p \<mapsto> b)\<rparr>))"

section \<open>Processes\<close>

definition reference :: "env \<Rightarrow> path" where
  "reference E = joinp (root E) ''tools/wax-ref''"

definition report :: "env \<Rightarrow> path" where
  "report E = joinp (root E) ''test/report''"

definition capped :: "env \<Rightarrow> str list \<Rightarrow> str list" where
  "capped E argv = (if \<not> has_systemd E then argv
     else [''systemd-run'', ''--user'', ''--scope'', ''-q'',
           ''-p'', ''MemoryMax='' @ mem_cap E, ''-p'', ''MemorySwapMax=0''] @ argv)"

definition run :: "env \<Rightarrow> str list \<Rightarrow> bool \<Rightarrow> bytes option \<Rightarrow> proc io" where
  "run E argv cap stdin w =
     (case exec E (if cap then capped E argv else argv) stdin (disk w) of (a, m) \<Rightarrow>
       (case a of
          Exited c o' e \<Rightarrow> (Inr \<lparr>pcode = c, pout = o', perr = e\<rparr>, w\<lparr>disk := m\<rparr>)
        | TimedOut \<Rightarrow> (Inr \<lparr>pcode = -1, pout = [], perr = ''waxdiff: timed out'' @ [LF]\<rparr>, w\<lparr>disk := m\<rparr>)
        | NoSuchProgram \<Rightarrow> (Inl (FileNotFound (join '' '' argv)), w\<lparr>disk := m\<rparr>)))"

definition wax :: "env \<Rightarrow> str list \<Rightarrow> proc io" where
  "wax E args = run E (reference E # args) True None"

definition impl_run :: "env \<Rightarrow> str list \<Rightarrow> str list \<Rightarrow> proc io" where
  "impl_run E impl args = run E (impl @ args) True None"

definition wasm_tools :: "env \<Rightarrow> str list \<Rightarrow> bytes option \<Rightarrow> proc io" where
  "wasm_tools E args stdin = run E (''wasm-tools'' # args) False stdin"

definition decode :: "bytes \<Rightarrow> str" where
  \<comment> \<open>\<open>b.decode("utf-8", "replace")\<close>\<close>
  "decode = utf8_decode"

lemma decode_code [code]: "decode b = (if seven_bit b then b else utf8_decode b)"
  by (simp add: decode_def ascii_decode)

definition obj_item :: "json \<Rightarrow> str \<Rightarrow> json res" where
  \<comment> \<open>\<open>j[k]\<close> for a string \<open>k\<close>\<close>
  "obj_item j k = (case j of JObj d \<Rightarrow> dindex d k | _ \<Rightarrow> Inl TypeError)"

definition need_reference :: "env \<Rightarrow> unit io" where
  "need_reference E =
     bindio (read_text (joinp (root E) ''tools/reference.json'')) (\<lambda>s.
     bindio (lift (bindr (loads s) (\<lambda>j. obj_item j ''asset''))) (\<lambda>asset.
     bindio (exists_file (reference E)) (\<lambda>r.
     bindio (case asset of JStr a \<Rightarrow> exists_file (joinp (root E) (''tools/'' @ a)) | _ \<Rightarrow> raise TypeError) (\<lambda>b.
       if \<not> r \<or> \<not> b then raise (SystemExit ''waxdiff: reference missing; run tools/fetch-reference.sh'')
       else ret ()))))"

definition default_jobs :: "nat option \<Rightarrow> nat" where
  \<comment> \<open>the argument is \<open>os.cpu_count()\<close>\<close>
  "default_jobs cpus = min 4 (case cpus of None \<Rightarrow> 4 | Some n \<Rightarrow> if n = 0 then 4 else n)"

lemma default_jobs_bounds: "1 \<le> default_jobs c \<and> default_jobs c \<le> 4"
  by (auto simp: default_jobs_def split: option.split)

subsection \<open>The operations that do not change the globals\<close>

text \<open>Only \<open>grade\<close> assigns \<open>CORPUS\<close>, \<open>GOLDEN\<close> and \<open>SPAN_EXEMPT\<close>.\<close>

definition keeps_globals :: "'a io \<Rightarrow> bool" where
  "keeps_globals m \<longleftrightarrow> (\<forall>w. corpus (snd (m w)) = corpus w \<and> golden (snd (m w)) = golden w
     \<and> span_exempt (snd (m w)) = span_exempt w)"

named_theorems globals_rules "operations that keep the module globals"

lemma keeps_basic [globals_rules]:
  "keeps_globals (ret x)" "keeps_globals (raise e)" "keeps_globals (lift r)"
  "keeps_globals (set_disk f)" "keeps_globals (exists_file p)" "keeps_globals (read_bytes p)"
  "keeps_globals (corpus_path q)" "keeps_globals (golden_path q)" "keeps_globals (new_temp_file E s b)"
  by (auto simp: keeps_globals_def set_disk_def exists_file_def read_bytes_def corpus_path_def
      golden_path_def new_temp_file_def Let_def split: option.splits)

lemma keeps_bind [globals_rules]:
  assumes m: "keeps_globals m" and f: "\<And>x. keeps_globals (f x)"
  shows "keeps_globals (bindio m f)"
proof -
  have "corpus (snd (bindio m f w)) = corpus w \<and> golden (snd (bindio m f w)) = golden w
      \<and> span_exempt (snd (bindio m f w)) = span_exempt w" for w
  proof -
    obtain r w1 where r: "m w = (r, w1)" by (cases "m w")
    have g: "corpus w1 = corpus w" "golden w1 = golden w" "span_exempt w1 = span_exempt w"
      using m [unfolded keeps_globals_def, rule_format, of w] r by auto
    show ?thesis
      using g f [unfolded keeps_globals_def] by (cases r) (auto simp: bindio_def r)
  qed
  then show ?thesis by (simp add: keeps_globals_def)
qed

lemma keeps_if [globals_rules]:
  "keeps_globals m \<Longrightarrow> keeps_globals n \<Longrightarrow> keeps_globals (if b then m else n)"
  by simp

lemma keeps_finally [globals_rules]:
  assumes m: "keeps_globals m" and f: "keeps_globals f"
  shows "keeps_globals (try_finally m f)"
proof -
  have "corpus (snd (try_finally m f w)) = corpus w \<and> golden (snd (try_finally m f w)) = golden w
      \<and> span_exempt (snd (try_finally m f w)) = span_exempt w" for w
  proof -
    obtain r w1 where r: "m w = (r, w1)" by (cases "m w")
    obtain r2 w2 where r2: "f w1 = (r2, w2)" by (cases "f w1")
    have "corpus w1 = corpus w" "golden w1 = golden w" "span_exempt w1 = span_exempt w"
      "corpus w2 = corpus w1" "golden w2 = golden w1" "span_exempt w2 = span_exempt w1"
      using m [unfolded keeps_globals_def, rule_format, of w] r
        f [unfolded keeps_globals_def, rule_format, of w1] r2 by auto
    then show ?thesis by (cases r2) (auto simp: try_finally_def r r2)
  qed
  then show ?thesis by (simp add: keeps_globals_def)
qed

lemma keeps_run [globals_rules]: "keeps_globals (run E argv cap i)"
  by (auto simp: keeps_globals_def run_def split: prod.split answer.split)

lemma keeps_calls [globals_rules]:
  "keeps_globals (wax E args)" "keeps_globals (impl_run E impl args)"
  "keeps_globals (wasm_tools E args i)" "keeps_globals (unlink p)" "keeps_globals (rmtree p)"
  "keeps_globals (write_bytes p b)" "keeps_globals (write_text p s)" "keeps_globals (read_text p)"
  by (auto simp: wax_def impl_run_def wasm_tools_def unlink_def rmtree_def write_bytes_def
      write_text_def read_text_def intro!: globals_rules)

end
