(* ===== verification/Oracles.thy ===== *)
theory Oracles
  imports World
begin

text \<open>
  The four oracles of \<open>tools/waxdiff.py\<close> (548--1032): each runs the implementation under test
  on one corpus file, compares it with the recorded or the live reference, and moves one counter
  of an \<open>Outcome\<close>.  The messages are kept as values: one constructor per format string, with
  what it interpolates.
\<close>

section \<open>Outcomes\<close>

datatype rung =
    ToolsMissing
  | T0Invalid str
  | T0Valid
  | T1NoReference
  | T1ReferenceExited int
  | T1NoPrint
  | T1Equal
  | T1Differs bytes bytes

datatype detail =
    ExitedWith int str
  | TextDiff bytes bytes
  | NowStable
  | BinaryDiffers str str "rung list"
  | BackEndExited int str
  | ReprintExited int
  | DoesNotCompile str
  | ErrorsReported nat str json
  | WrongExit int int
  | WrongCount nat nat
  | WrongField nat str json json
  | StaleExemption str
  | NonJson str

datatype drift =
    T0Note str
  | T1Note str
  | FieldDrift str nat str "str option" json json
  | NotPrinted str str
  | WatDiffers str bytes bytes

record failure =
  ffile :: str
  foracle :: str
  fdetail :: detail

record outcome =
  passed :: nat
  failed :: nat
  skipped :: nat
  failures :: "failure list"
  drifts :: "drift list"

definition no_outcome :: outcome where
  "no_outcome = \<lparr>passed = 0, failed = 0, skipped = 0, failures = [], drifts = []\<rparr>"

definition pass :: "outcome \<Rightarrow> outcome" where
  "pass out = out\<lparr>passed := passed out + 1\<rparr>"

definition skip :: "outcome \<Rightarrow> outcome" where
  "skip out = out\<lparr>skipped := skipped out + 1\<rparr>"

definition fail :: "str \<Rightarrow> str \<Rightarrow> detail \<Rightarrow> outcome \<Rightarrow> outcome" where
  "fail file oracle d out = out\<lparr>failed := failed out + 1,
     failures := failures out @ [\<lparr>ffile = file, foracle = oracle, fdetail = d\<rparr>]\<rparr>"

definition add_drift :: "drift \<Rightarrow> outcome \<Rightarrow> outcome" where
  "add_drift d out = out\<lparr>drifts := drifts out @ [d]\<rparr>"

section \<open>Policy and index entries\<close>

record policy =
  buckets :: "(str, json) dict"
  gated :: "str list"
  reported :: "str list"
  oracle2_route :: str
  self_test :: bool

definition via_reference :: str where "via_reference = ''via-reference''"
definition native :: str where "native = ''native''"

definition strings_of :: "json \<Rightarrow> str list res" where
  "strings_of j = (case j of
      JArr vs \<Rightarrow> mapr (\<lambda>v. case v of JStr s \<Rightarrow> Inr s | _ \<Rightarrow> Inl TypeError) vs
    | _ \<Rightarrow> Inl TypeError)"

definition str_of :: "json \<Rightarrow> str res" where
  "str_of j = (case j of JStr s \<Rightarrow> Inr s | _ \<Rightarrow> Inl TypeError)"

definition policy_of :: "str option \<Rightarrow> json \<Rightarrow> policy res" where
  "policy_of scope_override p =
     bindr (case scope_override of
              Some x \<Rightarrow> if x = [] then bindr (obj_item p ''scope'') str_of else Inr x
            | None \<Rightarrow> bindr (obj_item p ''scope'') str_of) (\<lambda>scope.
     bindr (bindr (obj_item p ''scopes'') as_obj) (\<lambda>scopes.
     if dget scopes scope = None then Inl (SystemExit (''waxdiff: unknown policy scope '' @ scope))
     else
     bindr (bindr (dindex scopes scope) as_obj) (\<lambda>bs.
     bindr (bindr (obj_item p ''gated_fields'') strings_of) (\<lambda>g.
     bindr (bindr (obj_item p ''reported_fields'') strings_of) (\<lambda>r.
       Inr \<lparr>buckets = bs, gated = g, reported = r, oracle2_route = via_reference,
            self_test = False\<rparr>)))))"

definition load_policy :: "env \<Rightarrow> str option \<Rightarrow> policy io" where
  "load_policy E scope_override =
     bindio (read_text (joinp (root E) ''test/oracle-policy.json'')) (\<lambda>s.
     lift (bindr (loads s) (policy_of scope_override)))"

record meta =
  bucket :: str
  reprint_code :: int
  diag_code :: int
  wasm_sha256 :: "str option"

definition meta_of :: "json \<Rightarrow> meta res" where
  "meta_of j =
     bindr (bindr (obj_item j ''bucket'') str_of) (\<lambda>b.
     bindr (obj_item j ''reprint_code'') (\<lambda>rc.
     bindr (obj_item j ''diag_code'') (\<lambda>dc.
       (case (rc, dc, case j of JObj d \<Rightarrow> jget d ''wasm_sha256'' | _ \<Rightarrow> JNull) of
          (JInt r, JInt d, JStr s) \<Rightarrow>
            Inr \<lparr>bucket = b, reprint_code = r, diag_code = d, wasm_sha256 = Some s\<rparr>
        | (JInt r, JInt d, JNull) \<Rightarrow>
            Inr \<lparr>bucket = b, reprint_code = r, diag_code = d, wasm_sha256 = None\<rparr>
        | _ \<Rightarrow> Inl TypeError))))"

definition load_index :: "env \<Rightarrow> (str \<times> meta) list io" where
  "load_index E =
     bindio (golden_path ''index.json'') (\<lambda>p.
     bindio (exists_file p) (\<lambda>there.
       if \<not> there then raise (SystemExit ''waxdiff: no goldens; run `waxdiff.py golden` first'')
       else bindio (read_text p) (\<lambda>s.
         lift (bindr (bindr (loads s) (\<lambda>j. obj_item j ''files'')) (\<lambda>files.
           bindr (as_obj files) (mapr (\<lambda>(k, v). bindr (meta_of v) (\<lambda>m. Inr (k, m)))))))))"

definition mode :: "policy \<Rightarrow> str \<Rightarrow> str \<Rightarrow> json res" where
  \<comment> \<open>\<open>policy["buckets"][bucket][oracle]\<close>\<close>
  "mode P b o' = bindr (dindex (buckets P) b) (\<lambda>m. obj_item m o')"

definition is_skip :: "json \<Rightarrow> bool" where
  "is_skip m \<longleftrightarrow> m = JStr ''skip''"

definition err_text :: "proc \<Rightarrow> str" where
  "err_text r = take 400 (decode (perr r))"

section \<open>Oracle 1: reprint parity\<close>

definition non_idempotent_upstream :: "str list" where
  "non_idempotent_upstream =
     [''cram/custom-page-sizes__huge-pow2.wax'', ''docs/language__130_checked.wax'']"

definition check_idempotent ::
    "env \<Rightarrow> str list \<Rightarrow> str \<Rightarrow> bytes \<Rightarrow> outcome \<Rightarrow> (bool \<times> outcome) io" where
  "check_idempotent E impl rel once out =
     bindio (new_temp_file E ''.wax'' once) (\<lambda>tmp.
     bindio (try_finally (impl_run E impl [tmp, ''-f'', ''wax'']) (unlink tmp)) (\<lambda>twice.
       let stable = (pcode twice = 0 \<and> pout twice = once);
           expected_unstable = (rel \<in> set non_idempotent_upstream)
       in if stable \<and> expected_unstable then ret (False, fail rel ''idempotence'' NowStable out)
          else if \<not> stable \<and> \<not> expected_unstable
          then ret (False, fail rel ''idempotence'' (TextDiff once (pout twice)) out)
          else ret (True, out)))"

definition check_oracle1 ::
    "env \<Rightarrow> str list \<Rightarrow> str \<Rightarrow> path \<Rightarrow> meta \<Rightarrow> policy \<Rightarrow> outcome \<Rightarrow> outcome io" where
  "check_oracle1 E impl rel p m P out =
     bindio (lift (mode P (bucket m) ''oracle1'')) (\<lambda>how.
     if is_skip how then ret (skip out) else
     bindio (golden_path (removesuffix rel ''.wax'' @ ''.reprint'')) (\<lambda>want_path.
     bindio (exists_file want_path) (\<lambda>there.
     if \<not> there then ret (skip out) else
     bindio (impl_run E impl [p, ''-f'', ''wax'']) (\<lambda>got.
     bindio (read_bytes want_path) (\<lambda>want.
     if pcode got \<noteq> 0 then ret (fail rel ''reprint'' (ExitedWith (pcode got) (err_text got)) out)
     else if pout got \<noteq> want then ret (fail rel ''reprint'' (TextDiff want (pout got)) out)
     else bindio (check_idempotent E impl rel (pout got) out) (\<lambda>(stable, out').
       if \<not> stable then ret out' else ret (pass out')))))))"

section \<open>Oracle 2: wasm equivalence\<close>

definition stripped_wat :: "env \<Rightarrow> bytes \<Rightarrow> bytes option io" where
  "stripped_wat E binary =
     bindio (new_temp_file E ''.wasm'' binary) (\<lambda>src.
       let dst = src @ ''.stripped'' in
       try_finally
         (bindio (wasm_tools E [''strip'', ''--all'', src, ''-o'', dst] None) (\<lambda>s.
          if pcode s \<noteq> 0 then ret None
          else bindio (wasm_tools E [''print'', dst] None) (\<lambda>printed.
            ret (if pcode printed = 0 then Some (pout printed) else None))))
         (bindio (unlink src) (\<lambda>_. bindio (exists_file dst) (\<lambda>there.
            if there then unlink dst else ret ()))))"

definition ladder :: "env \<Rightarrow> str \<Rightarrow> bytes \<Rightarrow> str \<Rightarrow> outcome \<Rightarrow> (bool \<times> outcome) io" where
  "ladder E rel got want_sha out =
     (if digest E got = want_sha then ret (True, pass out) else
      let verdict = (\<lambda>rungs out. (False,
            fail rel ''wasm'' (BinaryDiffers (take 12 want_sha) (take 12 (digest E got)) rungs) out))
      in if \<not> has_wasm_tools E then ret (verdict [ToolsMissing] out) else
      bindio (wasm_tools E [''validate'', ''--features'', ''all'', ''-''] (Some got)) (\<lambda>valid.
      if pcode valid \<noteq> 0
      then ret (verdict [T0Invalid (err_text valid)] (add_drift (T0Note rel) out)) else
      bindio (exists_file (reference E)) (\<lambda>there.
      if \<not> there then ret (verdict [T0Valid, T1NoReference] out) else
      bindio (corpus_path rel) (\<lambda>src.
      bindio (wax E [src, ''-f'', ''wasm'', ''-o'', ''-'']) (\<lambda>r.
      if pcode r \<noteq> 0 then ret (verdict [T0Valid, T1ReferenceExited (pcode r)] out) else
      bindio (stripped_wat E got) (\<lambda>ours.
      bindio (stripped_wat E (pout r)) (\<lambda>theirs.
      ret (case (ours, theirs) of
             (Some u, Some t) \<Rightarrow>
               if u = t then verdict [T0Valid, T1Equal] (add_drift (T1Note rel) out)
               else verdict [T0Valid, T1Differs t u] out
           | _ \<Rightarrow> verdict [T0Valid, T1NoPrint] out))))))))"

definition check_oracle2 ::
    "env \<Rightarrow> str list \<Rightarrow> str \<Rightarrow> path \<Rightarrow> meta \<Rightarrow> policy \<Rightarrow> outcome \<Rightarrow> outcome io" where
  "check_oracle2 E impl rel p m P out =
     bindio (lift (mode P (bucket m) ''oracle2'')) (\<lambda>how.
     case (if is_skip how then None else wasm_sha256 m) of
       None \<Rightarrow> ret (skip out)
     | Some want_sha \<Rightarrow>
       if want_sha = [] then ret (skip out)
       else if oracle2_route P = native then
         bindio (impl_run E impl [p, ''-f'', ''wasm'', ''-o'', ''-'']) (\<lambda>built.
         if pcode built \<noteq> 0
         then ret (fail rel ''wasm'' (BackEndExited (pcode built) (err_text built)) out)
         else bindio (ladder E rel (pout built) want_sha out) (\<lambda>(_, out'). ret out'))
       else
         bindio (impl_run E impl [p, ''-f'', ''wax'']) (\<lambda>printed.
         if pcode printed \<noteq> 0 then ret (fail rel ''wasm'' (ReprintExited (pcode printed)) out)
         else
           let mid = joinp (joinp (report E) ''tmp'') (replace ''/'' ''__'' rel) in
           bindio (write_bytes mid (pout printed)) (\<lambda>_.
           bindio (wax E [mid, ''-f'', ''wasm'', ''-o'', ''-'']) (\<lambda>built.
           if pcode built \<noteq> 0 then ret (fail rel ''wasm'' (DoesNotCompile (err_text built)) out)
           else if digest E (pout built) \<noteq> want_sha
           then ret (fail rel ''wasm'' (BinaryDiffers (take 12 want_sha)
                  (take 12 (digest E (pout built))) []) out)
           else ret (pass out)))))"

section \<open>Oracle 3: error parity\<close>

definition span_fields :: "str list" where
  "span_fields = [''startLine'', ''startColumn'', ''endLine'', ''endColumn'',
     ''startOffset'', ''endOffset'']"

definition span_exempt_init :: "(str, str) dict" where
  "span_exempt_init =
     [(''docs/language__093.wax'', ''finding 9 (string span)''),
      (''docs/language__095.wax'', ''finding 9 (string span)''),
      (''fuzz/hint-attr-then-syntax-error.wax'', ''finding 12 (action timing)''),
      (''fuzz/missing-params-then-syntax-error.wax'', ''finding 12 (action timing)'')]"

type_synonym diag = "(str, json) dict"

definition differs :: "diag \<Rightarrow> diag \<Rightarrow> str \<Rightarrow> bool" where
  \<comment> \<open>\<open>w.get(f) != g.get(f)\<close>\<close>
  "differs d e f \<longleftrightarrow> \<not> py_eq (jget d f) (jget e f)"

text \<open>
  The gated fields of one pair.  \<open>reason\<close> is the entry of \<open>SPAN_EXEMPT\<close> for the file, if it has
  one.  The first difference it does not excuse ends the check: \<open>Inl\<close> is the outcome it returns.
\<close>

fun gate_fields ::
    "str \<Rightarrow> str option \<Rightarrow> nat \<Rightarrow> diag \<Rightarrow> diag \<Rightarrow> str list \<Rightarrow> bool \<times> outcome \<Rightarrow> outcome + bool \<times> outcome"
where
  "gate_fields rel reason i w g [] so = Inr so"
| "gate_fields rel reason i w g (f # fs) (saw, out) =
     (if \<not> differs w g f then gate_fields rel reason i w g fs (saw, out)
      else if reason \<noteq> None \<and> f \<in> set span_fields
      then gate_fields rel reason i w g fs
             (True, add_drift (FieldDrift rel i f reason (jget w f) (jget g f)) out)
      else Inl (fail rel ''errors'' (WrongField i f (jget g f) (jget w f)) out))"

fun report_fields :: "str \<Rightarrow> nat \<Rightarrow> diag \<Rightarrow> diag \<Rightarrow> str list \<Rightarrow> outcome \<Rightarrow> outcome" where
  "report_fields rel i w g [] out = out"
| "report_fields rel i w g (f # fs) out = report_fields rel i w g fs
     (if differs w g f then add_drift (FieldDrift rel i f None (jget w f) (jget g f)) out else out)"

fun gate_pairs ::
    "str \<Rightarrow> str option \<Rightarrow> policy \<Rightarrow> nat \<Rightarrow> (diag \<times> diag) list \<Rightarrow> bool \<times> outcome \<Rightarrow> outcome + bool \<times> outcome"
where
  "gate_pairs rel reason P i [] so = Inr so"
| "gate_pairs rel reason P i ((w, g) # ps) so =
     (case gate_fields rel reason i w g (gated P) so of
        Inl out \<Rightarrow> Inl out
      | Inr (saw, out) \<Rightarrow>
          gate_pairs rel reason P (i + 1) ps (saw, report_fields rel i w g (reported P) out))"

definition compare_diags ::
    "str \<Rightarrow> str option \<Rightarrow> policy \<Rightarrow> meta \<Rightarrow> int \<Rightarrow> diag list \<Rightarrow> diag list \<Rightarrow> outcome \<Rightarrow> outcome" where
  "compare_diags rel reason P m c want got out =
     (if c \<noteq> diag_code m then fail rel ''errors'' (WrongExit c (diag_code m)) out
      else if length got \<noteq> length want
      then fail rel ''errors'' (WrongCount (length got) (length want)) out
      else (case gate_pairs rel reason P 0 (zip want got) (False, out) of
              Inl out' \<Rightarrow> out'
            | Inr (saw, out') \<Rightarrow>
                if reason \<noteq> None \<and> \<not> saw \<and> \<not> self_test P
                then fail rel ''errors'' (StaleExemption (the reason)) out'
                else pass out'))"

definition is_error :: "diag \<Rightarrow> bool" where
  "is_error d \<longleftrightarrow> jget d ''severity'' = JStr ''error''"

definition no_errors ::
    "str \<Rightarrow> meta \<Rightarrow> diag list \<Rightarrow> outcome \<Rightarrow> outcome" where
  "no_errors rel m got out = (case filter is_error got of
      [] \<Rightarrow> pass out
    | e # es \<Rightarrow> fail rel ''errors''
        (ErrorsReported (length (e # es)) (bucket m) (jget e ''message'')) out)"

definition normalized :: "str \<Rightarrow> diag list res" where
  "normalized s = bindr (parse_jsonl s) (mapr normalize_file)"

definition read_golden_diags :: "str \<Rightarrow> diag list io" where
  "read_golden_diags rel =
     bindio (golden_path (removesuffix rel ''.wax'' @ ''.diag.jsonl'')) (\<lambda>want_path.
     bindio (exists_file want_path) (\<lambda>there.
     if there then bindio (read_text want_path) (\<lambda>s. lift (normalized s)) else ret []))"

definition exemption :: "str \<Rightarrow> str option io" where
  "exemption rel w = (Inr (dget (span_exempt w) rel), w)"

definition check_oracle3 ::
    "env \<Rightarrow> str list \<Rightarrow> str \<Rightarrow> path \<Rightarrow> meta \<Rightarrow> policy \<Rightarrow> outcome \<Rightarrow> outcome io" where
  "check_oracle3 E impl rel p m P out =
     bindio (lift (mode P (bucket m) ''oracle3'')) (\<lambda>how.
     if is_skip how then ret (skip out) else
     bindio (read_golden_diags rel) (\<lambda>want.
     bindio (impl_run E impl [''check'', ''--error-format'', ''json'', p]) (\<lambda>got_run.
     bindio (lift (normalized (decode (perr got_run)))) (\<lambda>got.
     if how = JStr ''no-errors'' then ret (no_errors rel m got out)
     else bindio (exemption rel) (\<lambda>reason.
       ret (compare_diags rel reason P m (pcode got_run) want got out))))))"

section \<open>Oracle 4: text parity\<close>

definition mode_or_skip :: "policy \<Rightarrow> str \<Rightarrow> str \<Rightarrow> json res" where
  \<comment> \<open>\<open>policy["buckets"][bucket].get(oracle, "skip")\<close>\<close>
  "mode_or_skip P b o' = bindr (dindex (buckets P) b) (\<lambda>m. bindr (as_obj m) (\<lambda>d.
     Inr (case dget d o' of None \<Rightarrow> JStr ''skip'' | Some v \<Rightarrow> v)))"

definition check_oracle4 ::
    "env \<Rightarrow> str list \<Rightarrow> str \<Rightarrow> path \<Rightarrow> meta \<Rightarrow> policy \<Rightarrow> outcome \<Rightarrow> outcome io" where
  "check_oracle4 E impl rel p m P out =
     bindio (lift (mode_or_skip P (bucket m) ''oracle4'')) (\<lambda>how.
     if is_skip how then ret (skip out) else
     bindio (wax E [p, ''-f'', ''wat'']) (\<lambda>theirs.
     if pcode theirs \<noteq> 0 then ret (skip out) else
     bindio (impl_run E impl [p, ''-f'', ''wat'']) (\<lambda>ours.
     if pcode ours \<noteq> 0 then
       (let d = take 400 (strip (decode (perr ours))) in
        ret (add_drift (NotPrinted rel d) (fail rel ''wat'' (ExitedWith (pcode ours) d) out)))
     else if pout ours \<noteq> pout theirs
     then ret (add_drift (WatDiffers rel (pout theirs) (pout ours))
                 (fail rel ''wat'' (TextDiff (pout theirs) (pout ours)) out))
     else ret (pass out))))"

section \<open>Exactly one verdict\<close>

text \<open>
  \<open>verdict rel out out'\<close>: one counter has moved by one, a failure is recorded for \<open>rel\<close> exactly
  when it is the failure counter, and drift entries are only appended.
\<close>

definition only_drift :: "outcome \<Rightarrow> outcome \<Rightarrow> bool" where
  "only_drift out out' \<longleftrightarrow> passed out' = passed out \<and> failed out' = failed out
     \<and> skipped out' = skipped out \<and> failures out' = failures out \<and> prefix (drifts out) (drifts out')"

definition verdict :: "str \<Rightarrow> outcome \<Rightarrow> outcome \<Rightarrow> bool" where
  "verdict rel out out' \<longleftrightarrow> prefix (drifts out) (drifts out') \<and>
     (passed out' = passed out + 1 \<and> failed out' = failed out \<and> skipped out' = skipped out
        \<and> failures out' = failures out
      \<or> passed out' = passed out \<and> failed out' = failed out \<and> skipped out' = skipped out + 1
        \<and> failures out' = failures out
      \<or> passed out' = passed out \<and> failed out' = failed out + 1 \<and> skipped out' = skipped out
        \<and> (\<exists>f. ffile f = rel \<and> failures out' = failures out @ [f]))"

lemma counters [verdict_simps]:
  "passed (pass out) = passed out + 1" "failed (pass out) = failed out"
  "skipped (pass out) = skipped out" "failures (pass out) = failures out"
  "passed (skip out) = passed out" "failed (skip out) = failed out"
  "skipped (skip out) = skipped out + 1" "failures (skip out) = failures out"
  "passed (fail r k d out) = passed out" "failed (fail r k d out) = failed out + 1"
  "skipped (fail r k d out) = skipped out"
  "failures (fail r k d out) = failures out @ [\<lparr>ffile = r, foracle = k, fdetail = d\<rparr>]"
  "passed (add_drift n out) = passed out" "failed (add_drift n out) = failed out"
  "skipped (add_drift n out) = skipped out" "failures (add_drift n out) = failures out"
  "drifts (pass out) = drifts out" "drifts (skip out) = drifts out"
  "drifts (fail r k d out) = drifts out" "drifts (add_drift n out) = drifts out @ [n]"
  by (simp_all add: pass_def skip_def fail_def add_drift_def)

lemma verdict_intros [intro]:
  "verdict rel out (pass out)" "verdict rel out (skip out)" "verdict rel out (fail rel k d out)"
  "verdict rel out (fail rel k d (add_drift n out))" "verdict rel out (add_drift n (fail rel k d out))"
  by (auto simp: verdict_def verdict_simps)

lemma only_drift_intros [intro]: "only_drift out out" "only_drift out (add_drift n out)"
  by (auto simp: only_drift_def verdict_simps)

lemma only_drift_trans: "only_drift a b \<Longrightarrow> only_drift b c \<Longrightarrow> only_drift a c"
  by (auto simp: only_drift_def)

lemma only_drift_verdict: "only_drift a b \<Longrightarrow> verdict rel b c \<Longrightarrow> verdict rel a c"
  by (auto simp: only_drift_def verdict_def)

lemma verdict_pass_iff: "verdict rel out out' \<Longrightarrow> passed out' = passed out + 1 \<longleftrightarrow>
    failed out' = failed out \<and> skipped out' = skipped out"
  by (auto simp: verdict_def)

lemma after_drift: "verdict rel (add_drift n out) out' \<Longrightarrow> verdict rel out out'"
  "only_drift (add_drift n out) out' \<Longrightarrow> only_drift out out'"
  using only_drift_verdict only_drift_trans by blast+

lemma gate_fields_verdict:
  "gate_fields rel reason i w g fs so = Inl out' \<Longrightarrow> verdict rel (snd so) out'"
  "gate_fields rel reason i w g fs so = Inr so' \<Longrightarrow> only_drift (snd so) (snd so')"
proof (induction rel reason i w g fs so rule: gate_fields.induct)
  case (2 rel reason i w g f fs saw out)
  { case 1 show ?case using 1 2(1,3) by (auto split: if_splits dest: after_drift) }
  { case 2 show ?case using 2 "2.IH"(2,4) by (auto split: if_splits dest: after_drift) }
qed auto

lemma report_fields_drift: "only_drift out (report_fields rel i w g fs out)"
  by (induction fs arbitrary: out) (auto intro: after_drift)

lemma gate_pairs_verdict:
  "gate_pairs rel reason P i ps so = Inl out' \<Longrightarrow> verdict rel (snd so) out'"
  "gate_pairs rel reason P i ps so = Inr so' \<Longrightarrow> only_drift (snd so) (snd so')"
proof (induction ps arbitrary: i so)
  case (Cons p ps)
  obtain w g where p: "p = (w, g)" by (cases p)
  { case 1 show ?case
    proof (cases "gate_fields rel reason i w g (gated P) so")
      case (Inl o1)
      then show ?thesis using 1 gate_fields_verdict(1) [OF Inl] by (simp add: p)
    next
      case (Inr so1)
      have "only_drift (snd so) (report_fields rel i w g (reported P) (snd so1))"
        using gate_fields_verdict(2) [OF Inr] report_fields_drift only_drift_trans by blast
      then show ?thesis using 1 Inr Cons.IH(1) [of "i + 1" "(fst so1, report_fields rel i w g (reported P) (snd so1))"]
        by (auto simp: p case_prod_beta intro: only_drift_verdict)
    qed }
  { case 2 show ?case
    proof (cases "gate_fields rel reason i w g (gated P) so")
      case (Inl o1)
      then show ?thesis using 2 by (simp add: p)
    next
      case (Inr so1)
      have "only_drift (snd so) (report_fields rel i w g (reported P) (snd so1))"
        using gate_fields_verdict(2) [OF Inr] report_fields_drift only_drift_trans by blast
      then show ?thesis using 2 Inr Cons.IH(2) [of "i + 1" "(fst so1, report_fields rel i w g (reported P) (snd so1))"]
        by (auto simp: p case_prod_beta intro: only_drift_trans)
    qed }
qed auto

lemma compare_diags_verdict: "verdict rel out (compare_diags rel reason P m c want got out)"
  by (auto simp: compare_diags_def split: sum.splits intro: only_drift_verdict
      dest!: gate_pairs_verdict)

lemma no_errors_verdict: "verdict rel out (no_errors rel m got out)"
  by (auto simp: no_errors_def split: list.split)

lemma check_idempotent_verdict:
  "ensures (check_idempotent E impl rel once out)
     (\<lambda>(stable, out'). if stable then out' = out else verdict rel out out')"
  unfolding check_idempotent_def Let_def by (intro ensures_rules) auto

lemma ladder_verdict:
  "ensures (ladder E rel got sha out)
     (\<lambda>(good, out'). verdict rel out out' \<and> (good \<longleftrightarrow> digest E got = sha)
        \<and> (passed out' = passed out + 1 \<longleftrightarrow> good))"
  unfolding ladder_def Let_def
  by (intro ensures_rules) (auto simp: verdict_simps split: option.split)

locale grader =
  fixes check :: "env \<Rightarrow> str list \<Rightarrow> str \<Rightarrow> path \<Rightarrow> meta \<Rightarrow> policy \<Rightarrow> outcome \<Rightarrow> outcome io"
  assumes one_verdict: "ensures (check E impl rel p m P out) (verdict rel out)"
    and globals_kept: "keeps_globals (check E impl rel p m P out)"
begin

lemma on_fresh:
  assumes "check E impl rel p m P no_outcome w = (Inr out, w')"
  shows "passed out + failed out + skipped out = 1"
    and "length (failures out) = failed out"
    and "\<forall>f \<in> set (failures out). ffile f = rel"
  using ensuresD [OF one_verdict assms] by (auto simp: verdict_def no_outcome_def)

lemma accumulates:
  assumes "check E impl rel p m P out w = (Inr out', w')"
  shows "passed out' + failed out' + skipped out' = passed out + failed out + skipped out + 1"
    and "length (failures out') - length (failures out) = failed out' - failed out"
    and "prefix (failures out) (failures out')"
  using ensuresD [OF one_verdict assms] by (auto simp: verdict_def)

end

lemma ensures_case_prod [ensures_rules]:
  "(\<And>a b. x = (a, b) \<Longrightarrow> ensures (f a b) Q) \<Longrightarrow> ensures (case x of (a, b) \<Rightarrow> f a b) Q"
  by (cases x) simp

lemma ensures_case_option [ensures_rules]:
  "ensures n Q \<Longrightarrow> (\<And>a. x = Some a \<Longrightarrow> ensures (f a) Q) \<Longrightarrow>
   ensures (case x of None \<Rightarrow> n | Some a \<Rightarrow> f a) Q"
  by (cases x) simp_all

lemma keeps_case_prod [globals_rules]:
  "(\<And>a b. keeps_globals (f a b)) \<Longrightarrow> keeps_globals (case x of (a, b) \<Rightarrow> f a b)"
  by (cases x) simp

lemma keeps_case_option [globals_rules]:
  "keeps_globals n \<Longrightarrow> (\<And>a. keeps_globals (f a)) \<Longrightarrow>
   keeps_globals (case x of None \<Rightarrow> n | Some a \<Rightarrow> f a)"
  by (cases x) simp_all

lemma keeps_parts [globals_rules]:
  "keeps_globals (check_idempotent E impl rel once out)"
  "keeps_globals (stripped_wat E b)" "keeps_globals (read_golden_diags rel)"
  "keeps_globals (exemption rel)"
  unfolding check_idempotent_def stripped_wat_def read_golden_diags_def Let_def
  by (intro globals_rules)+ (simp add: keeps_globals_def exemption_def)

lemma keeps_ladder [globals_rules]: "keeps_globals (ladder E rel got sha out)"
  unfolding ladder_def Let_def by (intro globals_rules)

lemma ensures_skipped [ensures_rules]: "ensures (ret (skip out)) (verdict rel out)"
  "ensures (ret (pass out)) (verdict rel out)" "ensures (ret (fail rel k d out)) (verdict rel out)"
  "ensures (ret (add_drift n (fail rel k d out))) (verdict rel out)"
  "ensures (ret (no_errors rel m got out)) (verdict rel out)"
  "ensures (ret (compare_diags rel reason P m c want got out)) (verdict rel out)"
  by (auto intro!: ensures_ret no_errors_verdict compare_diags_verdict)

interpretation oracle1: grader check_oracle1
proof
  fix E impl rel p m P out
  show "keeps_globals (check_oracle1 E impl rel p m P out)"
    unfolding check_oracle1_def by (intro globals_rules)
  have "ensures (bindio (check_idempotent E impl rel once out)
      (\<lambda>(stable, out'). if \<not> stable then ret out' else ret (pass out'))) (verdict rel out)" for once
    by (rule ensures_bind_post [OF check_idempotent_verdict]) (auto intro!: ensures_ret)
  note last = this
  show "ensures (check_oracle1 E impl rel p m P out) (verdict rel out)"
    unfolding check_oracle1_def by (rule last | rule ensures_rules)+
qed

interpretation oracle2: grader check_oracle2
proof
  fix E impl rel p m P out
  show "keeps_globals (check_oracle2 E impl rel p m P out)"
    unfolding check_oracle2_def Let_def by (intro globals_rules)
  have "ensures (bindio (ladder E rel b sha out) (\<lambda>(_, out'). ret out')) (verdict rel out)" for b sha
    by (rule ensures_bind_post [OF ladder_verdict]) (auto intro!: ensures_ret)
  note last = this
  show "ensures (check_oracle2 E impl rel p m P out) (verdict rel out)"
    unfolding check_oracle2_def Let_def by (rule last | rule ensures_rules)+
qed

interpretation oracle3: grader check_oracle3
proof
  fix E impl rel p m P out
  show "keeps_globals (check_oracle3 E impl rel p m P out)"
    unfolding check_oracle3_def by (intro globals_rules)
  show "ensures (check_oracle3 E impl rel p m P out) (verdict rel out)"
    unfolding check_oracle3_def by (rule ensures_rules)+
qed

interpretation oracle4: grader check_oracle4
proof
  fix E impl rel p m P out
  show "keeps_globals (check_oracle4 E impl rel p m P out)"
    unfolding check_oracle4_def Let_def by (intro globals_rules)
  show "ensures (check_oracle4 E impl rel p m P out) (verdict rel out)"
    unfolding check_oracle4_def Let_def by (rule ensures_rules)+
qed

section \<open>When an oracle passes\<close>

definition excused :: "str option \<Rightarrow> str \<Rightarrow> bool" where
  "excused reason f \<longleftrightarrow> reason \<noteq> None \<and> f \<in> set span_fields"

definition agree :: "str option \<Rightarrow> str list \<Rightarrow> diag \<Rightarrow> diag \<Rightarrow> bool" where
  \<comment> \<open>every difference on a gated field is excused\<close>
  "agree reason flds w g \<longleftrightarrow> (\<forall>f \<in> set flds. differs w g f \<longrightarrow> excused reason f)"

definition diverges :: "str list \<Rightarrow> diag \<Rightarrow> diag \<Rightarrow> bool" where
  "diverges flds w g \<longleftrightarrow> (\<exists>f \<in> set flds. differs w g f)"

lemma gate_fields_agree:
  "gate_fields rel reason i w g fs so = Inl out' \<Longrightarrow> \<not> agree reason fs w g"
  "gate_fields rel reason i w g fs so = Inr so' \<Longrightarrow>
     agree reason fs w g \<and> (fst so' \<longleftrightarrow> fst so \<or> diverges fs w g)"
proof (induction rel reason i w g fs so rule: gate_fields.induct)
  case (2 rel reason i w g f fs saw out)
  { case 1 show ?case using 1 2(1,3)
      by (auto simp: agree_def excused_def split: if_splits) }
  { case 2 show ?case using 2 "2.IH"(2,4)
      by (auto simp: agree_def diverges_def excused_def split: if_splits) }
qed (auto simp: agree_def diverges_def)

lemma gate_pairs_agree:
  "gate_pairs rel reason P i ps so = Inl out' \<Longrightarrow> \<exists>(w, g) \<in> set ps. \<not> agree reason (gated P) w g"
  "gate_pairs rel reason P i ps so = Inr so' \<Longrightarrow>
     (\<forall>(w, g) \<in> set ps. agree reason (gated P) w g)
     \<and> (fst so' \<longleftrightarrow> fst so \<or> (\<exists>(w, g) \<in> set ps. diverges (gated P) w g))"
proof (induction ps arbitrary: i so)
  case (Cons p ps)
  obtain w g where p: "p = (w, g)" by (cases p)
  { case 1
    then show ?case using gate_fields_agree [of rel reason i w g "gated P" so] Cons.IH(1)
      by (force simp: p split: sum.splits prod.splits) }
  { case 2
    then obtain saw out where f: "gate_fields rel reason i w g (gated P) so = Inr (saw, out)"
      and r: "gate_pairs rel reason P (i + 1) ps (saw, report_fields rel i w g (reported P) out) = Inr so'"
      by (auto simp: p split: sum.splits prod.splits)
    show ?case using gate_fields_agree(2) [OF f] Cons.IH(2) [OF r] by (auto simp: p) }
qed auto

lemma gate_fields_fail: "gate_fields rel reason i w g fs so = Inl out' \<Longrightarrow> passed out' = passed (snd so)"
  by (induction rel reason i w g fs so rule: gate_fields.induct)
    (auto simp: verdict_simps split: if_splits)

lemma gate_pairs_fail: "gate_pairs rel reason P i ps so = Inl out' \<Longrightarrow> passed out' = passed (snd so)"
proof (induction ps arbitrary: i so)
  case (Cons p ps)
  obtain w g where p: "p = (w, g)" by (cases p)
  show ?case
  proof (cases "gate_fields rel reason i w g (gated P) so")
    case (Inl o1)
    then show ?thesis using Cons.prems gate_fields_fail [OF Inl] by (simp add: p)
  next
    case (Inr so1)
    obtain saw o1 where so1: "so1 = (saw, o1)" by (cases so1)
    have "passed o1 = passed (snd so)"
      using gate_fields_verdict(2) [OF Inr] so1 by (simp add: only_drift_def)
    moreover have "passed (report_fields rel i w g (reported P) o1) = passed o1"
      using report_fields_drift [of o1] by (simp add: only_drift_def)
    ultimately show ?thesis using Cons.prems Cons.IH Inr so1 by (fastforce simp: p)
  qed
qed simp

lemma verdict_not_pass: "verdict rel out out' \<Longrightarrow> passed out' = passed out \<or> passed out' = passed out + 1"
  by (auto simp: verdict_def)

text \<open>The condition of error parity, as a property of the two lists of diagnostics.\<close>

definition error_parity :: "str option \<Rightarrow> policy \<Rightarrow> meta \<Rightarrow> int \<Rightarrow> diag list \<Rightarrow> diag list \<Rightarrow> bool" where
  "error_parity reason P m c want got \<longleftrightarrow>
     c = diag_code m \<and> length got = length want
     \<and> list_all2 (agree reason (gated P)) want got
     \<and> (reason = None \<or> self_test P \<or> (\<exists>(w, g) \<in> set (zip want got). diverges (gated P) w g))"

lemma compare_diags_passes:
  "passed (compare_diags rel reason P m c want got out) = passed out + 1
     \<longleftrightarrow> error_parity reason P m c want got"
proof (cases "c = diag_code m \<and> length got = length want")
  case False
  then show ?thesis by (auto simp: compare_diags_def error_parity_def verdict_simps)
next
  case True
  then have la: "list_all2 (agree reason (gated P)) want got
      \<longleftrightarrow> (\<forall>(w, g) \<in> set (zip want got). agree reason (gated P) w g)"
    by (simp add: list_all2_iff)
  show ?thesis
  proof (cases "gate_pairs rel reason P 0 (zip want got) (False, out)")
    case (Inl out')
    have "passed out' = passed out" using gate_pairs_fail [OF Inl] by simp
    then show ?thesis using True Inl gate_pairs_agree(1) [OF Inl] la
      by (auto simp: compare_diags_def error_parity_def)
  next
    case (Inr so')
    have d: "only_drift out (snd so')" using gate_pairs_verdict(2) [OF Inr] by simp
    show ?thesis using True Inr gate_pairs_agree(2) [OF Inr] la d
      by (cases so') (auto simp: compare_diags_def error_parity_def verdict_simps only_drift_def)
  qed
qed

section \<open>What the oracles that compare bytes promise\<close>

definition converts :: "env \<Rightarrow> str list \<Rightarrow> str list \<Rightarrow> world \<Rightarrow> (bytes \<times> world) option" where
  \<comment> \<open>what a program prints when it exits with 0, and the world it leaves\<close>
  "converts E prog args w = (case run E (prog @ args) True None w of
      (Inr r, w') \<Rightarrow> if pcode r = 0 then Some (pout r, w') else None
    | (Inl _, _) \<Rightarrow> None)"

definition reprints :: "env \<Rightarrow> str list \<Rightarrow> path \<Rightarrow> world \<Rightarrow> (bytes \<times> world) option" where
  "reprints E impl p w = converts E impl [p, ''-f'', ''wax''] w"

definition stable_reprint :: "env \<Rightarrow> str list \<Rightarrow> bytes \<Rightarrow> world \<Rightarrow> bool" where
  "stable_reprint E impl once w =
     (let tmp = temp_file E ''.wax'' (disk w) in
      map_option fst (reprints E impl tmp (w\<lparr>disk := (disk w)(tmp \<mapsto> once)\<rparr>)) = Some once)"

definition reprint_golden :: "world \<Rightarrow> str \<Rightarrow> path" where
  "reprint_golden w rel = joinp (golden w) (removesuffix rel ''.wax'' @ ''.reprint'')"

definition reprint_parity :: "env \<Rightarrow> str list \<Rightarrow> str \<Rightarrow> path \<Rightarrow> world \<Rightarrow> bool" where
  "reprint_parity E impl rel p w = (case reprints E impl p w of
      None \<Rightarrow> False
    | Some (once, w1) \<Rightarrow> disk w1 (reprint_golden w rel) = Some once
        \<and> (stable_reprint E impl once w1 \<longleftrightarrow> rel \<notin> set non_idempotent_upstream))"

lemma idempotent_stable:
  assumes "check_idempotent E impl rel once out w = (Inr (b, out'), w')"
  shows "b \<longleftrightarrow> (stable_reprint E impl once w \<longleftrightarrow> rel \<notin> set non_idempotent_upstream)"
proof -
  let ?tmp = "temp_file E ''.wax'' (disk w)"
  let ?w1 = "w\<lparr>disk := (disk w)(?tmp \<mapsto> once)\<rparr>"
  obtain twice w2 where t: "try_finally (impl_run E impl [?tmp, ''-f'', ''wax'']) (unlink ?tmp) ?w1 = (Inr twice, w2)"
    using assms by (auto simp: check_idempotent_def bindio_Inr_iff new_temp_file_def Let_def)
  then obtain w3 where r: "impl_run E impl [?tmp, ''-f'', ''wax''] ?w1 = (Inr twice, w3)"
    by (auto simp: try_finally_def split: prod.splits sum.splits)
  have "b \<longleftrightarrow> ((pcode twice = 0 \<and> pout twice = once) \<longleftrightarrow> rel \<notin> set non_idempotent_upstream)"
    using assms t
    by (auto simp: check_idempotent_def bindio_def new_temp_file_def Let_def split: if_splits)
  moreover have "stable_reprint E impl once w \<longleftrightarrow> pcode twice = 0 \<and> pout twice = once"
    using r by (simp add: stable_reprint_def reprints_def converts_def impl_run_def Let_def)
  ultimately show ?thesis by simp
qed

lemma oracle1_pass_iff:
  assumes run: "check_oracle1 E impl rel p m P out w = (Inr out', w')"
    and how: "mode P (bucket m) ''oracle1'' = Inr how" "\<not> is_skip how"
    and there: "disk w (reprint_golden w rel) = Some g"
  shows "passed out' = passed out + 1 \<longleftrightarrow> reprint_parity E impl rel p w"
proof -
  obtain got w1 want where got: "impl_run E impl [p, ''-f'', ''wax''] w = (Inr got, w1)"
    and want: "disk w1 (reprint_golden w rel) = Some want"
    using run how there
    by (auto simp: check_oracle1_def bindio_lift bindio_Inr_iff golden_path_def exists_file_def
        reprint_golden_def read_bytes_def split: option.splits)
  have step: "check_oracle1 E impl rel p m P out w =
     (if pcode got \<noteq> 0 then (Inr (fail rel ''reprint'' (ExitedWith (pcode got) (err_text got)) out), w1)
      else if pout got \<noteq> want then (Inr (fail rel ''reprint'' (TextDiff want (pout got)) out), w1)
      else bindio (check_idempotent E impl rel (pout got) out) (\<lambda>(stable, out').
       if \<not> stable then ret out' else ret (pass out')) w1)"
    using how there got want
    by (simp add: check_oracle1_def bindio_lift bindio_def golden_path_def exists_file_def
        reprint_golden_def read_bytes_def)
  show ?thesis
  proof (cases "pcode got = 0 \<and> pout got = want")
    case False
    then show ?thesis using run step got want
      by (auto simp: verdict_simps reprint_parity_def reprints_def converts_def impl_run_def)
  next
    case True
    have "bindio (check_idempotent E impl rel (pout got) out) (\<lambda>(stable, out').
        if \<not> stable then ret out' else ret (pass out')) w1 = (Inr out', w')"
      using run step True by simp
    then obtain b o1 where "\<exists>w2. check_idempotent E impl rel (pout got) out w1 = (Inr (b, o1), w2)
        \<and> (if \<not> b then ret o1 else ret (pass o1)) w2 = (Inr out', w')"
      by (auto simp: bindio_Inr_iff split: prod.splits)
    then have b: "check_idempotent E impl rel (pout got) out w1 = (Inr (b, o1), w')"
      and o': "out' = (if b then pass o1 else o1)"
      by (auto split: if_splits)
    have v: "if b then o1 = out else verdict rel out o1"
      using ensuresD [OF check_idempotent_verdict b] by simp
    have "b \<or> passed o1 = passed out"
      using b by (auto simp: check_idempotent_def bindio_def new_temp_file_def Let_def verdict_simps
          split: if_splits prod.splits sum.splits)
    then have "passed out' = passed out + 1 \<longleftrightarrow> b" using v o' by (auto simp: verdict_simps)
    then show ?thesis using idempotent_stable [OF b] True got want
      by (simp add: reprint_parity_def reprints_def converts_def impl_run_def)
  qed
qed

definition native_parity :: "env \<Rightarrow> str list \<Rightarrow> path \<Rightarrow> str \<Rightarrow> world \<Rightarrow> bool" where
  "native_parity E impl p sha w =
     (case converts E impl [p, ''-f'', ''wasm'', ''-o'', ''-''] w of
        None \<Rightarrow> False | Some (b, _) \<Rightarrow> digest E b = sha)"

definition via_parity :: "env \<Rightarrow> str list \<Rightarrow> str \<Rightarrow> path \<Rightarrow> str \<Rightarrow> world \<Rightarrow> bool" where
  "via_parity E impl rel p sha w =
     (case reprints E impl p w of
        None \<Rightarrow> False
      | Some (b, w1) \<Rightarrow>
          let mid = joinp (joinp (report E) ''tmp'') (replace ''/'' ''__'' rel) in
          (case converts E [reference E] [mid, ''-f'', ''wasm'', ''-o'', ''-'']
                  (w1\<lparr>disk := (disk w1)(mid \<mapsto> b)\<rparr>) of
             None \<Rightarrow> False | Some (c, _) \<Rightarrow> digest E c = sha))"

lemma oracle2_pass_iff:
  assumes run: "check_oracle2 E impl rel p m P out w = (Inr out', w')"
    and how: "mode P (bucket m) ''oracle2'' = Inr how" "\<not> is_skip how"
    and sha: "wasm_sha256 m = Some sha" "sha \<noteq> []"
  shows "passed out' = passed out + 1 \<longleftrightarrow>
    (if oracle2_route P = native then native_parity E impl p sha w else via_parity E impl rel p sha w)"
proof (cases "oracle2_route P = native")
  case True
  obtain built w1 where built: "impl_run E impl [p, ''-f'', ''wasm'', ''-o'', ''-''] w = (Inr built, w1)"
    using run how sha True by (auto simp: check_oracle2_def bindio_lift bindio_Inr_iff)
  show ?thesis
  proof (cases "pcode built = 0")
    case False
    then show ?thesis using run how sha True built
      by (auto simp: check_oracle2_def bindio_lift bindio_def verdict_simps native_parity_def
          converts_def impl_run_def)
  next
    case c: True
    then obtain b where b: "ladder E rel (pout built) sha out w1 = (Inr (b, out'), w')"
      using run how sha True built
      by (auto simp: check_oracle2_def bindio_lift bindio_def split: prod.splits sum.splits)
    show ?thesis using ensuresD [OF ladder_verdict b] True c built
      by (simp add: native_parity_def converts_def impl_run_def)
  qed
next
  case False
  then show ?thesis using run how sha
    by (auto simp: check_oracle2_def bindio_lift bindio_def verdict_simps via_parity_def reprints_def
        converts_def impl_run_def wax_def write_bytes_def set_disk_def Let_def
        split: prod.splits sum.splits if_splits)
qed

lemma oracle4_pass_iff:
  assumes run: "check_oracle4 E impl rel p m P out w = (Inr out', w')"
    and how: "mode_or_skip P (bucket m) ''oracle4'' = Inr how" "\<not> is_skip how"
  shows "passed out' = passed out + 1 \<longleftrightarrow>
    (case converts E [reference E] [p, ''-f'', ''wat''] w of None \<Rightarrow> False
     | Some (theirs, w1) \<Rightarrow> map_option fst (converts E impl [p, ''-f'', ''wat''] w1) = Some theirs)"
  using run how
  by (auto simp: check_oracle4_def bindio_lift bindio_def verdict_simps converts_def impl_run_def
      wax_def Let_def split: prod.splits sum.splits if_splits)

section \<open>A small instance\<close>

text \<open>
  A formatter that trims white space, a compiler that prefixes the text, a checker that objects
  to a file holding \<open>bad\<close>; the reference and the implementation are both this program.
\<close>

definition demo_diag :: "path \<Rightarrow> str" where
  "demo_diag p = dumps Compact (JObj [(''severity'', JStr ''error''), (''file'', JStr p),
     (''startOffset'', JInt 0), (''endOffset'', JInt 3), (''message'', JStr ''Expecting x'')]) @ [LF]"

definition demo_format :: "bytes \<Rightarrow> answer" where
  "demo_format b = (if contains b ''bad'' then Exited 1 [] ''syntax'' else Exited 0 (strip b @ [LF]) [])"

definition demo_check :: "path \<Rightarrow> bytes \<Rightarrow> answer" where
  "demo_check p b = (if contains b ''bad'' then Exited 1 [] (demo_diag p) else Exited 0 [] [])"

definition demo_compile :: "bytes \<Rightarrow> answer" where
  "demo_compile b = (if contains b ''bad'' then Exited 1 [] ''no'' else Exited 0 (''wasm:'' @ strip b) [])"

definition demo_exec :: "str list \<Rightarrow> bytes option \<Rightarrow> files \<Rightarrow> answer \<times> files" where
  "demo_exec argv inp m = (let on = (\<lambda>p f. case m p of None \<Rightarrow> Exited 2 [] ''no such file'' | Some b \<Rightarrow> f b) in
     (if length argv = 4 \<and> argv ! 2 = ''-f'' \<and> argv ! 3 = ''wax'' then on (argv ! 1) demo_format
      else if length argv = 4 \<and> argv ! 2 = ''-f'' \<and> argv ! 3 = ''wat'' then on (argv ! 1) demo_compile
      else if length argv = 6 \<and> argv ! 3 = ''wasm'' then on (argv ! 1) demo_compile
      else if length argv = 5 \<and> argv ! 1 = ''check'' then on (argv ! 4) (demo_check (argv ! 4))
      else NoSuchProgram, m))"

definition demo_env :: env where
  "demo_env = \<lparr>exec = demo_exec, digest = (\<lambda>b. b), has_systemd = False, mem_cap = ''1G'',
     has_wasm_tools = False, temp_file = (\<lambda>s m. ''/tmp/t'' @ s), temp_dir = (\<lambda>s m. ''/tmp/'' @ s),
     walk = (\<lambda>m. filter (\<lambda>p. m p \<noteq> None)
       [''c/a.wax'', ''c/b.wax'', ''g/a.reprint'', ''g/b.diag.jsonl'', ''g/index.json'']),
     root = []\<rparr>"

definition demo_world :: world where
  "demo_world = \<lparr>disk = map_of
       [(''c/a.wax'', ''x; ''), (''c/b.wax'', ''bad''), (''g/a.reprint'', ''x;'' @ [LF]),
        (''g/b.diag.jsonl'', demo_diag ''c/b.wax''), (''/tools/wax-ref'', ''bin'')],
     corpus = ''c'', golden = ''g'', span_exempt = span_exempt_init\<rparr>"

definition demo_modes :: json where
  "demo_modes = JObj [(''oracle1'', JStr ''match''), (''oracle2'', JStr ''match''),
     (''oracle3'', JStr ''match''), (''oracle4'', JStr ''match'')]"

definition demo_policy :: policy where
  "demo_policy = \<lparr>buckets = [(''syntax-bad'', demo_modes), (''compiles-clean'', demo_modes),
       (''type-bad'', JObj [(''oracle3'', JStr ''no-errors'')])],
     gated = [''severity'', ''startOffset'', ''endOffset''], reported = [''message''],
     oracle2_route = native, self_test = False\<rparr>"

definition demo_meta :: meta where
  "demo_meta = \<lparr>bucket = ''compiles-clean'', reprint_code = 0, diag_code = 0,
     wasm_sha256 = Some ''wasm:x;''\<rparr>"

definition demo_bad_meta :: meta where
  "demo_bad_meta = \<lparr>bucket = ''syntax-bad'', reprint_code = 1, diag_code = 1, wasm_sha256 = None\<rparr>"

definition demo_impl :: "str list" where
  "demo_impl = [''/tools/wax-ref'']"

lemmas demo_defs = demo_env_def demo_world_def demo_policy_def demo_meta_def demo_bad_meta_def
  demo_impl_def demo_modes_def

section \<open>Properties\<close>

text \<open>
  C20: an oracle that returns has moved exactly one of the three counters by one; it records one
  failure, for the file it was given, exactly when it moved the failure counter, and it leaves
  the failures recorded before in place.  This holds of each of the four oracles, for every
  program under test and every state of the file system.
\<close>

theorem oracles_one_verdict:
  assumes "check \<in> {check_oracle1, check_oracle2, check_oracle3, check_oracle4}"
    and "fst (check E impl rel p m P out w) = Inr out'"
  shows "verdict rel out out'"
proof -
  have "grader check"
    using assms(1) oracle1.grader_axioms oracle2.grader_axioms oracle3.grader_axioms
      oracle4.grader_axioms by blast
  from ensuresD [OF grader.one_verdict [OF this] run_eq [OF assms(2)]] show ?thesis .
qed

theorem oracles_one_verdict_witness:
  "verdict ''a.wax'' no_outcome (pass no_outcome)"
  by (rule oracles_one_verdict [of check_oracle1 demo_env demo_impl _ "''c/a.wax''" demo_meta
        demo_policy _ demo_world])
    (simp, code_simp)

text \<open>
  C4: oracle 1 passes a file whose bucket is not skipped and that has a golden exactly when
  the implementation exits with 0, prints the bytes of the golden, and formatting that output
  once more gives it back, unless the file is listed as unstable in the reference, in which
  case it must not.
\<close>

theorem oracle1_passes:
  assumes "fst (check_oracle1 E impl rel p m P out w) = Inr out'"
    and "mode P (bucket m) ''oracle1'' = Inr how" "\<not> is_skip how"
    and "disk w (reprint_golden w rel) = Some g"
  shows "passed out' = passed out + 1 \<longleftrightarrow> reprint_parity E impl rel p w"
  by (rule oracle1_pass_iff [OF run_eq [OF assms(1)] assms(2-4)])

theorem oracle1_passes_witness:
  "reprint_parity demo_env demo_impl ''a.wax'' ''c/a.wax'' demo_world"
proof -
  have "passed (pass no_outcome) = passed no_outcome + 1 \<longleftrightarrow>
      reprint_parity demo_env demo_impl ''a.wax'' ''c/a.wax'' demo_world"
    by (rule oracle1_passes [where m = demo_meta and P = demo_policy and how = "JStr ''match''"
          and g = "''x;'' @ [LF]"]) code_simp+
  then show ?thesis by (simp add: verdict_simps)
qed

text \<open>
  C16: oracle 2 passes exactly when the bytes reached on the configured route have the golden
  hash: on the native route the implementation's own binary, on the other the reference's
  binary of the implementation's reprint.
\<close>

theorem oracle2_passes:
  assumes "fst (check_oracle2 E impl rel p m P out w) = Inr out'"
    and "mode P (bucket m) ''oracle2'' = Inr how" "\<not> is_skip how"
    and "wasm_sha256 m = Some sha" "sha \<noteq> []"
  shows "passed out' = passed out + 1 \<longleftrightarrow>
    (if oracle2_route P = native then native_parity E impl p sha w else via_parity E impl rel p sha w)"
  by (rule oracle2_pass_iff [OF run_eq [OF assms(1)] assms(2-5)])

theorem oracle2_passes_witness:
  "native_parity demo_env demo_impl ''c/a.wax'' ''wasm:x;'' demo_world"
proof -
  have "passed (pass no_outcome) = passed no_outcome + 1 \<longleftrightarrow>
      (if oracle2_route demo_policy = native
       then native_parity demo_env demo_impl ''c/a.wax'' ''wasm:x;'' demo_world
       else via_parity demo_env demo_impl ''a.wax'' ''c/a.wax'' ''wasm:x;'' demo_world)"
    by (rule oracle2_passes [where m = demo_meta and P = demo_policy and how = "JStr ''match''"])
      code_simp+
  then show ?thesis by (simp add: verdict_simps demo_policy_def)
qed

text \<open>
  C8: the tiers below the hash never decide: whatever \<open>wasm-tools\<close> and the reference answer,
  \<open>ladder\<close> reports agreement exactly when the hash of the bytes is the wanted one, and counts
  one pass then and one failure for the file otherwise.
\<close>

theorem ladder_gated_by_hash:
  assumes "fst (ladder E rel got sha out w) = Inr (good, out')"
  shows "(good \<longleftrightarrow> digest E got = sha) \<and> verdict rel out out'
    \<and> (passed out' = passed out + 1 \<longleftrightarrow> good)"
proof -
  from ensuresD [OF ladder_verdict run_eq [OF assms]] show ?thesis by simp
qed

theorem ladder_gated_by_hash_witness:
  "verdict ''a.wax'' no_outcome
     (fail ''a.wax'' ''wasm'' (BinaryDiffers ''t'' ''s'' [ToolsMissing]) no_outcome)"
  using ladder_gated_by_hash [of demo_env "''a.wax''" "''s''" "''t''" no_outcome demo_world False
      "fail ''a.wax'' ''wasm'' (BinaryDiffers ''t'' ''s'' [ToolsMissing]) no_outcome"]
  by (simp add: ladder_def demo_env_def Let_def)

text \<open>
  C6: oracle 3 in its matching mode passes exactly when the exit codes agree, both sides report
  the same number of diagnostics, every difference on a gated field is a span difference of a
  listed file, and a listed file still shows one (or the run is a self test).
\<close>

theorem oracle3_passes:
  assumes "fst (check_oracle3 E impl rel p m P out w) = Inr out'"
    and "mode P (bucket m) ''oracle3'' = Inr how" "\<not> is_skip how" "how \<noteq> JStr ''no-errors''"
  shows "\<exists>want w1 r w2 got. read_golden_diags rel w = (Inr want, w1)
      \<and> impl_run E impl [''check'', ''--error-format'', ''json'', p] w1 = (Inr r, w2)
      \<and> normalized (decode (perr r)) = Inr got
      \<and> (passed out' = passed out + 1
          \<longleftrightarrow> error_parity (dget (span_exempt w) rel) P m (pcode r) want got)"
proof -
  obtain w' where run: "check_oracle3 E impl rel p m P out w = (Inr out', w')"
    using assms(1) by (metis prod.collapse)
  then obtain want w1 r w2 got where g: "read_golden_diags rel w = (Inr want, w1)"
    "impl_run E impl [''check'', ''--error-format'', ''json'', p] w1 = (Inr r, w2)"
    "normalized (decode (perr r)) = Inr got"
    and o': "out' = compare_diags rel (dget (span_exempt w2) rel) P m (pcode r) want got out"
    using assms(2-)
    by (auto simp: check_oracle3_def bindio_Inr_iff exemption_def)
  have "keeps_globals (read_golden_diags rel)"
    "keeps_globals (impl_run E impl [''check'', ''--error-format'', ''json'', p])"
    by (intro globals_rules)+
  then have "span_exempt w2 = span_exempt w"
    using g(1,2) unfolding keeps_globals_def by (metis snd_conv)
  then show ?thesis using g o' compare_diags_passes by auto
qed

theorem oracle3_passes_witness:
  "\<exists>want w1 r w2 got. read_golden_diags ''b.wax'' demo_world = (Inr want, w1)
      \<and> impl_run demo_env demo_impl [''check'', ''--error-format'', ''json'', ''c/b.wax''] w1 = (Inr r, w2)
      \<and> normalized (decode (perr r)) = Inr got
      \<and> (passed (pass no_outcome) = passed no_outcome + 1
          \<longleftrightarrow> error_parity (dget (span_exempt demo_world) ''b.wax'') demo_policy demo_bad_meta
                (pcode r) want got)"
  by (rule oracle3_passes [where how = "JStr ''match''"]) code_simp+

text \<open>
  C21: oracle 4 passes exactly when the reference prints the file, the implementation does too,
  and the two outputs are the same bytes.
\<close>

theorem oracle4_passes:
  assumes "fst (check_oracle4 E impl rel p m P out w) = Inr out'"
    and "mode_or_skip P (bucket m) ''oracle4'' = Inr how" "\<not> is_skip how"
  shows "passed out' = passed out + 1 \<longleftrightarrow>
    (case converts E [reference E] [p, ''-f'', ''wat''] w of None \<Rightarrow> False
     | Some (theirs, w1) \<Rightarrow> map_option fst (converts E impl [p, ''-f'', ''wat''] w1) = Some theirs)"
  by (rule oracle4_pass_iff [OF run_eq [OF assms(1)] assms(2-3)])

theorem oracle4_passes_witness:
  "passed (pass no_outcome) = passed no_outcome + 1 \<longleftrightarrow>
    (case converts demo_env [reference demo_env] [''c/a.wax'', ''-f'', ''wat''] demo_world of None \<Rightarrow> False
     | Some (theirs, w1) \<Rightarrow>
         map_option fst (converts demo_env demo_impl [''c/a.wax'', ''-f'', ''wat''] w1) = Some theirs)"
  by (rule oracle4_passes [where rel = "''a.wax''" and m = demo_meta and P = demo_policy
        and how = "JStr ''match''"]) code_simp+

end
