(* ===== verification/Paths.thy ===== *)
theory Paths
  imports World
begin

text \<open>
  The parts of a path that \<open>pathlib\<close> gives, and the listings of a directory.  The model's disk
  holds files only: a directory is there when a file under it is.
\<close>

definition basename :: "path \<Rightarrow> str" where
  "basename p = rsplit1 CHR ''/'' p"

definition py_stem :: "path \<Rightarrow> str" where
  \<comment> \<open>\<open>Path(p).stem\<close>\<close>
  "py_stem p = (let n = basename p in case rfind n ''.'' of
      None \<Rightarrow> n | Some i \<Rightarrow> if 0 < i \<and> i < length n - 1 then take i n else n)"

definition parent :: "path \<Rightarrow> path" where
  "parent p = take (length p - length (basename p) - 1) p"

definition has_dir :: "env \<Rightarrow> path \<Rightarrow> bool io" where
  "has_dir E d w = (Inr (list_ex (under d) (walk E (disk w))), w)"

definition glob_files :: "env \<Rightarrow> path \<Rightarrow> str \<Rightarrow> path list io" where
  \<comment> \<open>\<open>sorted(d.glob("*" + sfx))\<close>\<close>
  "glob_files E d sfx w = (Inr (sort_key (split_on ''/'')
     (filter (\<lambda>p. under d p \<and> CHR ''/'' \<notin> set (drop (length d + 1) p) \<and> endswith p sfx)
       (walk E (disk w)))), w)"

fun foldio :: "('a \<Rightarrow> 's \<Rightarrow> 's io) \<Rightarrow> 'a list \<Rightarrow> 's \<Rightarrow> 's io" where
  "foldio f [] s = ret s"
| "foldio f (x # xs) s = bindio (f x s) (foldio f xs)"

text \<open>A relation between the state before and after that composes holds of the loop when it holds of a step.\<close>

lemma ensures_foldio:
  assumes "\<And>x s. ensures (f x s) (R s)" and "\<And>s. R s s" and "\<And>s t u. R s t \<Longrightarrow> R t u \<Longrightarrow> R s u"
  shows "ensures (foldio f xs s) (R s)"
proof (induction xs arbitrary: s)
  case Nil
  show ?case unfolding foldio.simps by (rule ensures_ret) (rule assms(2))
next
  case (Cons x xs)
  show ?case unfolding foldio.simps
    by (rule ensures_bind_post [OF assms(1)]) (rule ensures_weaken [OF Cons.IH], rule assms(3))
qed

lemma read_text_world: "read_text p w = (r, w') \<Longrightarrow> w' = w"
  by (auto simp: read_text_def read_bytes_def bindio_def split: option.splits sum.splits)

section \<open>Operations that only read\<close>

definition reads_only :: "'a io \<Rightarrow> bool" where
  "reads_only m \<longleftrightarrow> (\<forall>w. snd (m w) = w)"

named_theorems reads_rules "operations that leave the world as it is"

lemma reads_basic [reads_rules]:
  "reads_only (ret x)" "reads_only (raise e)" "reads_only (lift r)" "reads_only (exists_file p)"
  "reads_only (\<lambda>w. (f w, w))"
  by (simp_all add: reads_only_def exists_file_def)

lemma reads_text [reads_rules]: "reads_only (read_text p)"
  unfolding reads_only_def
proof
  fix w
  obtain r w' where "read_text p w = (r, w')" by (cases "read_text p w")
  then show "snd (read_text p w) = w" using read_text_world [of p w r w'] by simp
qed

lemma reads_bind [reads_rules]:
  assumes "reads_only m" and "\<And>x. reads_only (f x)"
  shows "reads_only (bindio m f)"
  unfolding reads_only_def
proof
  fix w
  have "snd (m w) = w" using assms(1) by (simp add: reads_only_def)
  then show "snd (bindio m f w) = w" using assms(2)
    by (cases "m w") (auto simp: bindio_def reads_only_def split: sum.split)
qed

lemma reads_if [reads_rules]: "reads_only m \<Longrightarrow> reads_only n \<Longrightarrow> reads_only (if b then m else n)"
  by simp

lemma reads_mapio [reads_rules]: "(\<And>x. reads_only (f x)) \<Longrightarrow> reads_only (mapio f xs)"
  by (induction xs) (simp_all only: mapio.simps reads_rules)

lemma reads_step: "reads_only m \<Longrightarrow> m w = (r, w') \<Longrightarrow> w' = w"
  by (metis reads_only_def snd_conv)

lemma mapio_reads:
  assumes "\<And>x. reads_only (f x)" and "mapio f xs w = (Inr ys, w')"
  shows "list_all2 (\<lambda>x y. fst (f x w) = Inr y) xs ys"
  using assms(2)
proof (induction xs arbitrary: ys)
  case (Cons x xs)
  obtain y w1 zs where y: "f x w = (Inr y, w1)" and zs: "mapio f xs w1 = (Inr zs, w')" "ys = y # zs"
    using Cons.prems by (auto simp: bindio_Inr_iff)
  then show ?case using Cons.IH reads_step [OF assms(1) y] by simp
qed simp

lemma list_all2_function: "list_all2 (\<lambda>x y. y = f x) xs ys \<longleftrightarrow> ys = map f xs"
  by (induction xs arbitrary: ys) (auto simp: list_all2_Cons1)

text \<open>What an operation that returns would return here.\<close>

definition value_of :: "'a io \<Rightarrow> world \<Rightarrow> 'a" where
  "value_of m w = projr (fst (m w))"

text \<open>The text of a file, empty when there is none.\<close>

definition text_at :: "world \<Rightarrow> path \<Rightarrow> str" where
  "text_at w p = (case disk w p of None \<Rightarrow> [] | Some b \<Rightarrow> universal_newlines (projr (utf8_strict b)))"

lemma text_read: "fst (read_text p w) = Inr s \<Longrightarrow> text_at w p = s"
  by (auto simp: read_text_def read_bytes_def text_at_def bindio_def split: option.splits sum.splits)

end
