(* ===== verification/Lines.thy ===== *)
theory Lines
  imports Py_Text
begin

text \<open>
  Texts as lists of lines: what the generators write is a join of lines, and reading it back starts
  by splitting it at the line feeds.
\<close>

section \<open>Quoting\<close>

definition dquoted :: "str \<Rightarrow> str" where
  "dquoted s = [DQ] @ s @ [DQ]"

definition code_span :: "str \<Rightarrow> str" where
  "code_span s = [BTICK] @ s @ [BTICK]"

section \<open>Joining and splitting\<close>

lemma split_line_append: "LF \<notin> set l \<Longrightarrow> split_on [LF] (l @ LF # s) = l # split_on [LF] s"
  by (induction l) (auto simp: startswith_def)

lemma split_one_line: "LF \<notin> set l \<Longrightarrow> split_on [LF] l = [l]"
  by (induction l) (auto simp: startswith_def)

lemma split_join_lines:
  "ls \<noteq> [] \<Longrightarrow> list_all (\<lambda>l. LF \<notin> set l) ls \<Longrightarrow> split_on [LF] (join [LF] ls) = ls"
  by (induction ls rule: induct_list012) (simp_all add: split_one_line split_line_append)

lemma split_lines_unbroken: "list_all (\<lambda>l. LF \<notin> set l) (split_on [LF] s)"
proof (induction "[LF]" s rule: split_on.induct)
  case (2 c s)
  then show ?case by (cases "c = LF") (auto simp: startswith_def split: list.splits)
qed simp

lemma set_join_member: "l \<in> set ls \<Longrightarrow> set l \<subseteq> set (join sep ls)"
  by (induction ls rule: induct_list012) auto

lemma set_split_on: "l \<in> set (split_on sep s) \<Longrightarrow> set l \<subseteq> set s"
  by (rule set_join_member [of l "split_on sep s" sep, unfolded join_split_on])

lemma join_append:
  "xs \<noteq> [] \<Longrightarrow> ys \<noteq> [] \<Longrightarrow> join sep (xs @ ys) = join sep xs @ sep @ join sep ys"
  by (induction xs) (auto simp: join_Cons)

lemma join_groups:
  "list_all2 (\<lambda>p ls. ls \<noteq> [] \<and> p = join sep ls) ps lss \<Longrightarrow> join sep ps = join sep (concat lss)"
proof (induction ps lss rule: list_all2_induct)
  case (Cons p ps ls lss)
  then show ?case by (cases ps; cases lss) (auto simp: join_Cons join_append)
qed simp

lemma join_last: "xs \<noteq> [] \<Longrightarrow> \<exists>a. join sep xs = a @ last xs"
  by (induction xs rule: induct_list012) auto

lemma replace_no_LF: "LF \<notin> set s \<Longrightarrow> LF \<notin> set new \<Longrightarrow> LF \<notin> set (replace old new s)"
proof (induction old new s rule: replace.induct)
  case (2 old new c s)
  have "LF \<notin> set (drop (length old) (c # s))" using 2(3) in_set_dropD by metis
  then show ?case using 2 by (cases "old \<noteq> [] \<and> startswith (c # s) old") auto
qed simp

lemma concat_singles: "concat (map (\<lambda>l. [l]) xs) = xs"
  by (induction xs) auto

lemma singles: "list_all2 (\<lambda>p ls. ls \<noteq> [] \<and> p = join sep ls) xs (map (\<lambda>l. [l]) xs)"
  by (induction xs) auto

lemma splitlines_unbroken_lines: "list_all (\<lambda>l. list_all (\<lambda>c. \<not> is_linebreak c) l) (splitlines s)"
  by (induction s rule: splitlines.induct) (auto split: list.splits)

end
