(* ===== verification/Messages_File.thy ===== *)
theory Messages_File
  imports Reduce_Ids Oracles Paths Lines
begin

text \<open>
  The files \<open>tools/gen_parser_messages.py\<close> reads and writes: the tables read off the parser that
  \<open>moonyacc\<close> generates, \<open>error_reduce.mbt\<close>, and \<open>parser_messages.mbt\<close> with the two tables as
  \<open>match\<close> expressions.  The programs it runs (\<open>moonx\<close>, \<open>moon\<close>, \<open>errstate\<close>) are those of the
  environment.
\<close>

section \<open>Reading the generated parser\<close>

definition digits_rx :: rx where
  "digits_rx = plus (CharIf is_digit)"

definition any_lazy :: rx where
  \<comment> \<open>\<open>.*?\<close> with \<open>re.S\<close>\<close>
  "any_lazy = ManyLazy (CharIf (\<lambda>_. True))"

definition columns_rx :: rx where
  "columns_rx = cat [lit ''fn yy_state('', any_lazy, lit ''[state * '', Grp 1 digits_rx, lit '' + symbol]'']"

definition ranges_rx :: rx where
  "ranges_rx = cat [lit ''2..='', Grp 1 digits_rx, lit '' => Shift'', any_lazy, Grp 2 digits_rx, lit ''..='',
     Grp 3 digits_rx, lit '' =>'']"

definition quoted_line_rx :: rx where
  "quoted_line_rx = cat [lit ''// '', digits_rx, lit ''|'', Many (none_of [LF]), lit [LF]]"

definition action_rx :: rx where
  "action_rx = cat [lit ''// file:///'', Grp 1 (plus (CharIf (\<lambda>c. \<not> is_space c))), lit [LF],
     lit ''// '', Grp 2 digits_rx, lit ''|'', Many (none_of [LF]), lit [LF], Many quoted_line_rx,
     lit ''fn yy_action_'', Grp 3 digits_rx, lit ''('']"

definition terminals_rx :: rx where
  "terminals_rx = cat [lit ''let terminal_symbol_count = '', Grp 1 digits_rx]"

definition declared_rx :: rx where
  "declared_rx = cat [lit ''%on_error_reduce '', Grp 1 (Many dot)]"

definition must_find :: "rx \<Rightarrow> str \<Rightarrow> caps res" where
  \<comment> \<open>\<open>re.search(...).group\<close>\<close>
  "must_find r s = (case rx_search r s of None \<Rightarrow> Inl AttributeError | Some g \<Rightarrow> Inr g)"

definition natural_table :: "str \<Rightarrow> str \<Rightarrow> nat list res" where
  \<comment> \<open>the tables hold indices: \<open>moonyacc\<close> writes no negative number\<close>
  "natural_table src name = bindr (parser_tables src name) (\<lambda>is.
     if list_all (\<lambda>i. 0 \<le> i) is then Inr (map nat is) else Inl (ValueError name))"

definition automaton_of :: "str \<Rightarrow> automaton res" where
  "automaton_of src =
     bindr (natural_table src ''yy_prod_lhs_table'') (\<lambda>l.
     bindr (natural_table src ''yy_prod_act_table'') (\<lambda>a.
     bindr (natural_table src ''yy_prod_len_table'') (\<lambda>n.
     bindr (natural_table src ''yy_state_table'') (\<lambda>t.
     bindr (must_find columns_rx src) (\<lambda>c.
     bindr (must_find ranges_rx src) (\<lambda>r.
     Inr \<lparr>lhs = l, act = a, rhs_length = n, cells = t, cols = nat_of_digits (group c 1),
       last_shift = nat_of_digits (group r 1), first_reduce = nat_of_digits (group r 2),
       last_reduce = nat_of_digits (group r 3), terminals = 0\<rparr>))))))"

definition line_of_action :: "str \<Rightarrow> (nat, nat) dict" where
  "line_of_action src = fold (\<lambda>(_, g) d. dset (nat_of_digits (group g 3)) (nat_of_digits (group g 2)) d)
     (filter (\<lambda>(_, g). endswith (group g 1) ''parser.mbty'') (rx_findall action_rx src)) []"

section \<open>Running the tools\<close>

definition grammar_path :: "env \<Rightarrow> path" where
  "grammar_path E = joinp (root E) ''lib/syntax/parser/parser.mbty''"

definition expected_path :: "env \<Rightarrow> path" where
  "expected_path E = joinp (root E) ''wax/src/lib-wax/parser_messages.expected''"

definition messages_out :: "env \<Rightarrow> path" where
  "messages_out E = joinp (root E) ''lib/syntax/parser/parser_messages.mbt''"

definition reduce_out :: "env \<Rightarrow> path" where
  "reduce_out E = joinp (root E) ''lib/syntax/parser/error_reduce.mbt''"

definition mly_path :: "env \<Rightarrow> path" where
  "mly_path E = joinp (root E) ''wax/src/lib-wax/parser.mly''"

definition state_path :: "env \<Rightarrow> path" where
  "state_path E = joinp (root E) ''lib/syntax/parser/state.mbt''"

definition errstate_path :: "env \<Rightarrow> path" where
  "errstate_path E = joinp (root E)
     ''_build/native/debug/build/marianoguerra/wax-dev/tools/errstate/errstate.exe''"

definition check_run :: "env \<Rightarrow> str list \<Rightarrow> proc io" where
  \<comment> \<open>\<open>subprocess.run(argv, check=True, capture_output=True)\<close>\<close>
  "check_run E argv = bindio (run E argv False None) (\<lambda>r.
     if pcode r \<noteq> 0 then raise (CalledProcessError (pcode r)) else ret r)"

definition generated_parser :: "env \<Rightarrow> str io" where
  \<comment> \<open>what \<open>moonyacc\<close> writes to a temporary directory\<close>
  "generated_parser E w = (let d = temp_dir E ''tmp'' (disk w) in
     try_finally
       (bindio (check_run E ([''moonx'', ''moonbitlang/yacc@0.7.25'', ''--external-tokens'', ''--table'',
            grammar_path E, ''-o'', joinp d ''parser.mbt''])) (\<lambda>_. read_text (joinp d ''parser.mbt'')))
       (rmtree d) w)"

definition error_reduce_of :: "env \<Rightarrow> (nat, str) dict io" where
  "error_reduce_of E =
     bindio (generated_parser E) (\<lambda>src.
     bindio (lift (automaton_of src)) (\<lambda>A.
     bindio (read_text (grammar_path E)) (\<lambda>grammar.
     bindio (lift (ids_of A (line_of_action src) (splitlines grammar))) (\<lambda>ids.
     bindio (read_text (state_path E)) (\<lambda>state.
     bindio (lift (must_find terminals_rx state)) (\<lambda>n.
     if cols A = 0 then raise ZeroDivisionError else
     bindio (read_text (mly_path E)) (\<lambda>mly.
     bindio (lift (must_find declared_rx mly)) (\<lambda>d.
     lift (reduce_ids (A\<lparr>terminals := nat_of_digits (group n 1)\<rparr>) ids (words (group d 1)) [])))))))))"

definition states_io :: "env \<Rightarrow> str list \<Rightarrow> err_row option list io" where
  "states_io E sources =
     bindio (exists_file (errstate_path E)) (\<lambda>built.
     if \<not> built then lift (states_of False (\<lambda>_. []) sources)
     else bindio (new_temp_file E ''.txt'' (utf8_encode (join [LF] sources @ [LF]))) (\<lambda>p.
       bindio (check_run E [errstate_path E, p]) (\<lambda>r.
       bindio (lift (utf8_strict (pout r))) (\<lambda>out.
       lift (states_of True (\<lambda>_. out) sources)))))"

section \<open>The generated files\<close>

definition reduce_parts :: "(nat, str) dict \<Rightarrow> str list" where
  "reduce_parts ids =
     [''// The reference's '' @ code_span ''%on_error_reduce'' @ '' set, as OUR nonterminal ids.'',
      ''//'',
      ''// GENERATED by tools/gen_parser_messages.py from wax/src/lib-wax/parser.mly'',
      ''// and parser.mbty -- do not edit. The ids are the generated parser's, so this'',
      ''// is stale the moment the grammar changes: regenerate with the messages.'',
      [],
      ''///|'',
      ''/// Whether Menhir reduces to '' @ code_span ''symbol'' @ '' when an error is detected. See'',
      ''/// '' @ code_span ''error_reduction'' @ ''.'',
      ''fn on_error_reduce(symbol : Int) -> Bool {'',
      ''  match symbol {'',
      error_reduce_arms ids,
      ''    _ => false'', ''  }'', ''}'', []]"

definition messages_preamble :: "nat \<Rightarrow> tables \<Rightarrow> str list" where
  "messages_preamble n T =
     [''// The reference's syntax messages, keyed by OUR parser stack.'',
      ''//'',
      ''// GENERATED by tools/gen_parser_messages.py from'',
      ''// wax/src/lib-wax/parser_messages.expected -- do not edit. Regenerating needs'',
      ''// the wax/ checkout and is a deliberate local act, like regenerating goldens.'',
      ''//'',
      ''// The reference derives these from Menhir's automaton with '' @ code_span ''stele'' @ '': the'',
      ''// '' @ dquoted ''Assuming that the X is complete'' @ '' subject names the grammar symbol the parser'',
      ''// was in the middle of, which no MoonYacc error value carries and no'',
      ''// expected-token set determines ('' @ dquoted ''an expression'' @ '', '' @ dquoted ''a then-branch'' @ '' and '' @ [DQ] @ ''an index'',
      ''// expression'' @ [DQ] @ '' share theirs exactly). What CAN be recovered here is the state'',
      ''// stack (grammar/state.mbt), so the reference's own table is rekeyed onto it:'',
      ''// each of its error sentences is written out as source, parsed, and the stack'',
      ''// it fails on becomes the key.'',
      ''//'',
      ''// The key is the SHALLOWEST stack suffix that names one message. Most are one'',
      ''// frame; Menhir distinguishes by the reductions it performs at the error, which'',
      ''// depend on the stack, so where it has several messages our state 55 ('' @ [DQ] @ ''after an'',
      ''// expression'' @ [DQ] @ '') needs a second frame to tell them apart. '' @ code_span ''Deeper'' @ '' says to'',
      ''// extend the key by one more frame.'',
      ''//'',
      ''// '' @ str_nat (length (resolved (table T))) @ '' keys from the golden's '' @ str_nat n @ '' sentences, '' @ str_nat (dropped T) @ '' dropped'',
      ''// as unresolvable. A miss retries with the stack the failure REDUCES to, in a'',
      ''// second table built the same way ('' @ str_nat (length (resolved (reduced_table T))) @ '' keys, '' @ str_nat (reduced_dropped T) @ '' dropped): Menhir'',
      ''// reports from the state after those reductions, MoonYacc fails before them.'',
      ''// A miss in both falls back to the locally rendered '' @ code_span ''Expecting ...'' @ '' list,'',
      ''// which is always correct if less specific.'',
      [],
      ''///|''  ]"

definition message_types :: "str list" where
  "message_types =
     [''/// One recorded message.'',
      ''priv struct Message {'',
      ''  /// The acceptable-token signature it was recorded with. A stack suffix can'',
      ''  /// recur in a context whose continuations differ; this is what tells the two'',
      ''  /// apart.'',
      ''  signature : String'',
      ''  text : String'',
      ''  /// The label on the construct the hedge names ('' @ dquoted ''this statement'' @ ''), or '' @ dquoted [] @ '' when'',
      ''  /// the reference emits none. Where it points is '' @ code_span ''ErrorState::subject_span'' @ ''.'',
      ''  subject : String'',
      ''  /// The label on the enclosing construct's opening delimiter, or '' @ dquoted [] @ ''. Where it'',
      ''  /// points is '' @ code_span ''enclosing_opener'' @ ''.'',
      ''  opener : String'',
      ''}'',
      [],
      ''///|'',
      ''priv enum Entry {'',
      ''  Msg(Message)'',
      ''  Deeper'',
      ''}'',
      [],
      ''///|'',
      ''/// The reference's message for a failing stack, bottom first, or None.'',
      ''fn reference_message(stack : ArrayView[Int], signature : String) -> Message? {'',
      ''  lookup(stack, signature, entry_of)'',
      ''}'',
      [],
      ''///|'',
      ''/// The reference's message for the stack a failure reduces to, or None.'',
      ''fn reduced_message(stack : ArrayView[Int], signature : String) -> Message? {'',
      ''  lookup(stack, signature, entry_of_reduced)'',
      ''}'']"

definition lookup_source :: "nat \<Rightarrow> str list" where
  "lookup_source depth =
     [[],
      ''///|'',
      ''/// Walks from the top frame down, deepening only where the table says the'',
      ''/// shallower key stands for more than one message.'',
      ''fn lookup('',
      ''  stack : ArrayView[Int],'',
      ''  signature : String,'',
      ''  entry_of : (String) -> Entry?,'',
      '') -> Message? {'',
      ''  let key = StringBuilder()'',
      ''  for depth = 1; depth <= stack.length() && depth <= '' @ str_nat depth @ ''; depth = depth + 1 {'',
      ''    // The key reads bottom-up within the suffix, as the generator writes it.'',
      ''    key.reset()'',
      ''    let from = stack.length() - depth'',
      ''    for i in from..<stack.length() {'',
      ''      if i > from {'',
      ''        key.write_char(' ')'',
      ''      }'',
      ''      key.write_string(stack[i].to_string())'',
      ''    }'',
      ''    match entry_of(key.to_string()) {'',
      ''      None => return None'',
      ''      // The signature is proof the recorded context is this one. Failing'',
      ''      // that, the message may still be borrowed if it names only tokens this'',
      ''      // state accepts -- see '' @ code_span ''message_fits'' @ ''.'',
      ''      Some(Msg(m)) =>'',
      ''        return if m.signature == signature || message_fits(m.text, signature) {'',
      ''          Some(m)'',
      ''        } else {'',
      ''          None'',
      ''        }'',
      ''      Some(Deeper) => continue'',
      ''    }'',
      ''  }'',
      ''  None'',
      ''}'']"

definition head_line :: "str \<Rightarrow> str" where
  "head_line fn = ''fn '' @ fn @ ''(key : String) -> Entry? {''"

definition match_head :: "str \<Rightarrow> str list" where
  "match_head fn = [[], ''///|'', head_line fn, ''  match key {'']"

definition match_tail :: "str list" where
  "match_tail = [''    _ => None'', ''  }'', ''}'']"

definition messages_parts :: "nat \<Rightarrow> tables \<Rightarrow> str list" where
  "messages_parts n T =
     messages_preamble n T @ message_types @ lookup_source (max_depth T)
     @ match_head ''entry_of'' @ [arms_of (table T)] @ match_tail
     @ match_head ''entry_of_reduced'' @ [arms_of (reduced_table T)] @ match_tail @ [[]]"

definition messages_report :: "nat \<Rightarrow> nat \<Rightarrow> selection \<Rightarrow> tables \<Rightarrow> str list" where
  "messages_report ids n sel T =
     [''on_error_reduce:    '' @ str_nat ids @ '' symbols'',
      ''entries:            '' @ str_nat n,
      ''  we parse them:    '' @ str_nat (parsed_fine sel),
      ''  wrong token:      '' @ str_nat (misplaced sel),
      ''  dropped:          '' @ str_nat (dropped T) @ '' (a key two messages claim, no deeper frame)'',
      ''  keys:             '' @ str_nat (length (resolved (table T))) @ '' ('' @ str_nat (shallow (table T)) @ '' on one frame)'',
      ''  reduced keys:     '' @ str_nat (length (resolved (reduced_table T))) @ '' ('' @ str_nat (reduced_dropped T) @ '' dropped)'',
      ''  deepest key:      '' @ str_nat (max_depth T) @ '' frames'',
      [], ''wrote lib/syntax/parser/parser_messages.mbt'']"

definition messages_tables :: "env \<Rightarrow> (nat \<times> nat \<times> selection) io" where
  "messages_tables E =
     bindio (read_text (grammar_path E)) (\<lambda>grammar. let alias = aliases grammar in
     bindio (error_reduce_of E) (\<lambda>ids.
     bindio (write_text (reduce_out E) (join [LF] (reduce_parts ids))) (\<lambda>_.
     bindio (check_run E [''moon'', ''build'', ''--target'', ''native'']) (\<lambda>_.
     bindio (read_text (expected_path E)) (\<lambda>golden. let es = real_entries (entries golden) in
     bindio (states_io E (map (\<lambda>e. render alias (sentence e)) es)) (\<lambda>rs.
       ret (length ids, length es, select alias es rs)))))))"

definition messages_main :: "env \<Rightarrow> str list io" where
  "messages_main E =
     bindio (messages_tables E) (\<lambda>(ids, n, sel). let T = make_tables sel in
     bindio (write_text (messages_out E) (join [LF] (messages_parts n T))) (\<lambda>_.
       ret (messages_report ids n sel T)))"

section \<open>Nothing that is printed breaks a line\<close>

definition one_line :: "str \<Rightarrow> bool" where
  "one_line s \<longleftrightarrow> LF \<notin> set s"

definition message_ok :: "message \<Rightarrow> bool" where
  "message_ok m \<longleftrightarrow> one_line (signature m) \<and> one_line (wording m) \<and> one_line (subject m) \<and> one_line (opener m)"

definition entry_ok :: "str \<times> message entry \<Rightarrow> bool" where
  "entry_ok kv \<longleftrightarrow> one_line (fst kv) \<and> (case snd kv of Msg m \<Rightarrow> message_ok m | Deeper \<Rightarrow> True)"

lemma LF_breaks: "is_linebreak LF"
  by code_simp

lemma one_line_subset: "set s \<subseteq> set t \<Longrightarrow> one_line t \<Longrightarrow> one_line s"
  by (auto simp: one_line_def)

lemma one_line_splitlines: "list_all one_line (splitlines s)"
proof -
  have "one_line l" if "list_all (\<lambda>c. \<not> is_linebreak c) l" for l
    using that LF_breaks by (auto simp: one_line_def list_all_iff)
  then show ?thesis by (rule list.pred_mono_strong [OF splitlines_unbroken_lines])
qed

lemma set_strip: "set (strip s) \<subseteq> set s"
  by (auto simp: strip_def lstrip_def rstrip_def dest!: set_dropWhileD)

lemma one_line_labels:
  "list_all one_line mks \<Longrightarrow> one_line (fst so) \<Longrightarrow> one_line (snd so) \<Longrightarrow>
   one_line (fst (fold label_line mks so)) \<and> one_line (snd (fold label_line mks so))"
proof (induction mks arbitrary: so)
  case (Cons l mks)
  have g: "one_line (strip (group g n))" if "rx_match marker_rx l = Some g" for g n
    by (rule one_line_subset [OF subset_trans [OF set_strip rx_match_group [OF that]]]) (use Cons.prems in simp)
  have "one_line (fst (label_line l so)) \<and> one_line (snd (label_line l so))"
    using Cons.prems g by (auto simp: label_line_def split: option.split)
  then show ?case using Cons by simp
qed simp

definition golden_ok :: "golden_entry \<Rightarrow> bool" where
  "golden_ok e \<longleftrightarrow> one_line (message e) \<and> list_all one_line (markers e)"

lemma golden_ok_blocks: "list_all golden_ok (entry_blocks bs)"
proof (induction bs rule: entry_blocks.induct)
  case (1 b1 b2 blocks)
  have "one_line (case splitlines (strip b2) of [] \<Rightarrow> [] | l # _ \<Rightarrow> l) \<and> list_all one_line (tl (splitlines (strip b2)))"
    using one_line_splitlines [of "strip b2"] by (cases "splitlines (strip b2)") (auto simp: one_line_def)
  then show ?case using 1 by (auto simp: golden_ok_def Let_def split: prod.split)
qed simp_all

lemma golden_ok_entries: "list_all golden_ok (real_entries (entries text))"
  using golden_ok_blocks by (auto simp: entries_def real_entries_def list_all_iff)

definition row_ok :: "err_row option \<Rightarrow> bool" where
  "row_ok r \<longleftrightarrow> (case r of None \<Rightarrow> True | Some r \<Rightarrow> one_line (err_signature r))"

lemma parse_row_ok:
  assumes "one_line l" and "parse_row l = Inr r"
  shows "row_ok r"
proof (cases "l = ''-''")
  case False
  then show ?thesis
  proof (cases "length (split_on [TAB] l) < 5 \<or> length (split_on [TAB] l) \<le> 8")
    case short: True
    then show ?thesis using assms(2) False by (auto simp: parse_row_def Let_def split: if_splits)
  next
    case long: False
    then have "split_on [TAB] l ! 4 \<in> set (split_on [TAB] l)" by simp
    then have "one_line (split_on [TAB] l ! 4)"
      by (rule one_line_subset [OF set_split_on assms(1)])
    then show ?thesis using assms(2) False long
      by (auto simp: parse_row_def Let_def row_ok_def bindr_Inr_iff split: if_splits)
  qed
qed (use assms in \<open>auto simp: parse_row_def row_ok_def\<close>)

lemma states_ok:
  assumes "states_of b f sources = Inr rs"
  shows "list_all row_ok rs"
proof -
  have "list_all row_ok rs" if "list_all2 (\<lambda>l r. parse_row l = Inr r) ls rs" "list_all one_line ls" for ls
    using that by (induction rule: list_all2_induct) (auto simp: parse_row_ok)
  moreover have "list_all2 (\<lambda>l r. parse_row l = Inr r) (splitlines (f (join [LF] sources @ [LF]))) rs"
    using assms by (auto simp: states_of_def Let_def mapr_Inr_iff split: if_splits)
  ultimately show ?thesis using one_line_splitlines by blast
qed

lemma select_ok:
  assumes "list_all golden_ok es" and "list_all row_ok rs"
  shows "list_all (\<lambda>i. message_ok (snd i)) (items (select alias es rs))
    \<and> list_all (\<lambda>i. message_ok (snd i)) (reduced_items (select alias es rs))"
proof -
  have m: "message_ok (message_of e r)" if "golden_ok e" "row_ok (Some r)" for e r
    using that one_line_labels [of "markers e" "([], [])"]
    by (auto simp: message_ok_def message_of_def golden_ok_def row_ok_def labels_of_def one_line_def split: prod.split)
  have "list_all (\<lambda>i. message_ok (snd i)) (items (fold (select_one alias) ers sel))
      \<and> list_all (\<lambda>i. message_ok (snd i)) (reduced_items (fold (select_one alias) ers sel))"
    if "list_all (\<lambda>er. golden_ok (fst er) \<and> row_ok (snd er)) ers"
      and "list_all (\<lambda>i. message_ok (snd i)) (items sel)"
      and "list_all (\<lambda>i. message_ok (snd i)) (reduced_items sel)" for ers sel
    using that
  proof (induction ers arbitrary: sel)
    case (Cons er ers)
    have "list_all (\<lambda>i. message_ok (snd i)) (items (select_one alias er sel))
        \<and> list_all (\<lambda>i. message_ok (snd i)) (reduced_items (select_one alias er sel))"
      using Cons.prems m by (auto simp: select_one_def Let_def split: option.splits)
    then show ?case using Cons by simp
  qed simp
  moreover have "list_all (\<lambda>er. golden_ok (fst er) \<and> row_ok (snd er)) (zip es rs)"
    using assms by (auto simp: list_all_iff dest: set_zip_leftD set_zip_rightD)
  ultimately show ?thesis by (simp add: select_def)
qed

lemma set_dset: "set (dset k v d) \<subseteq> insert (k, v) (set d)"
  by (induction d) auto

lemma entries_dset: "list_all P d \<Longrightarrow> P (k, v) \<Longrightarrow> list_all P (dset k v d)"
  using set_dset [of k v d] by (auto simp: list_all_iff)

lemma one_line_key: "one_line (key_of st d)"
proof -
  have "one_line (join '' '' ws)" if "list_all one_line ws" for ws
    using that by (induction ws rule: induct_list012) (auto simp: one_line_def)
  moreover have "list_all one_line (map str_int (last_n d st))"
    using str_int_word linebreak_space [OF LF_breaks] by (fastforce simp: one_line_def list_all_iff)
  ultimately show ?thesis by (simp add: key_of_def)
qed

text \<open>The table holds messages that were recorded, under keys of stacks.\<close>

definition ok_group :: "str \<times> message item list \<Rightarrow> bool" where
  "ok_group kg \<longleftrightarrow> one_line (fst kg) \<and> list_all (\<lambda>i. message_ok (snd i)) (snd kg)"

lemma ok_groups_of: "list_all (\<lambda>i. message_ok (snd i)) is \<Longrightarrow> list_all ok_group (groups_of is d)"
  by (auto simp: groups_of_def group_by_mem ok_group_def list_all_iff one_line_key)

lemma build_ok:
  "list_all (\<lambda>i. message_ok (snd i)) is \<Longrightarrow> list_all entry_ok out \<Longrightarrow> distinct (map fst out) \<Longrightarrow>
     list_all entry_ok (fst (build is d out)) \<and> distinct (map fst (fst (build is d out)))"
  "list_all ok_group gs \<Longrightarrow> list_all entry_ok out \<Longrightarrow> distinct (map fst out) \<Longrightarrow>
     list_all entry_ok (fst (build_groups gs d out)) \<and> distinct (map fst (fst (build_groups gs d out)))"
proof (induction "is" d out and gs d out rule: build_build_groups.induct)
  case (1 "is" d out)
  then show ?case by (simp add: build.simps ok_groups_of)
next
  case (3 key grp gs d out)
  have k: "one_line key" and g: "list_all (\<lambda>i. message_ok (snd i)) grp" and gs: "list_all ok_group gs"
    using 3(5) by (simp_all add: ok_group_def [of "(key, grp)"])
  have deeper: "entry_ok (key, Deeper)" using k by (simp add: entry_ok_def)
  show ?case
  proof (cases "length (remdups (map snd grp)) = 1")
    case True
    then have "hd (remdups (map snd grp)) \<in> set (map snd grp)"
      by (metis hd_in_set length_0_conv set_remdups zero_neq_one)
    then have "entry_ok (key, Msg (hd (remdups (map snd grp))))"
      using g k by (auto simp: entry_ok_def list_all_iff)
    then show ?thesis
      using 3(1) [OF True gs] 3(6,7) True by (simp add: build_groups.simps(2) entries_dset AList.distinct_update)
  next
    case False
    show ?thesis
    proof (cases "list_ex (\<lambda>i. d < length (fst i)) grp")
      case ex: True
      obtain o1 d1 where b: "build grp (Suc d) (dset key Deeper out) = (o1, d1)" by force
      have o1: "list_all entry_ok o1 \<and> distinct (map fst o1)"
        using 3(3) [OF False, simplified, OF ex g] 3(6,7) b deeper by (simp add: entries_dset AList.distinct_update)
      show ?thesis
        using 3(4) [OF False, simplified, OF ex b [symmetric] refl gs] o1 False ex b
        by (simp add: build_groups.simps(2) case_prod_beta)
    next
      case nex: False
      then show ?thesis using 3(2) [OF False nex gs 3(6,7)] False
        by (simp add: build_groups.simps(2) case_prod_beta)
    qed
  qed
qed simp

lemma tables_ok:
  assumes "list_all golden_ok es" and "list_all row_ok rs" and T: "T = make_tables (select alias es rs)"
  shows "list_all entry_ok (table T) \<and> distinct (dkeys (table T))
    \<and> list_all entry_ok (reduced_table T) \<and> distinct (dkeys (reduced_table T))"
  using build_ok(1) [of "items (select alias es rs)" "[]" 1] build_ok(1) [of "reduced_items (select alias es rs)" "[]" 1]
    select_ok [OF assms(1,2), of "alias"]
  by (simp add: T make_tables_simps dkeys_def)

section \<open>Reading the files back\<close>

text \<open>A string literal after its opening quote, as MoonBit reads it: no line break inside.\<close>

fun read_literal :: "str \<Rightarrow> (str \<times> str) option" where
  "read_literal [] = None"
| "read_literal (c # s) =
     (if c = DQ then Some ([], s)
      else if c = LF then None
      else if c = BSL then (case s of [] \<Rightarrow> None
        | d # s' \<Rightarrow> if d = DQ \<or> d = BSL then map_option (apfst (Cons d)) (read_literal s') else None)
      else map_option (apfst (Cons c)) (read_literal s))"

definition expect :: "str \<Rightarrow> str \<Rightarrow> str option" where
  "expect p s = (if startswith s p then Some (drop (length p) s) else None)"

definition read_string :: "str \<Rightarrow> str \<Rightarrow> (str \<times> str) option" where
  \<comment> \<open>a fixed text, then a literal\<close>
  "read_string p s = Option.bind (expect (p @ [DQ]) s) read_literal"

definition read_message :: "str \<Rightarrow> (message \<times> str) option" where
  "read_message s =
     Option.bind (read_string ''Msg({signature: '' s) (\<lambda>(a, s).
     Option.bind (read_string '', text: '' s) (\<lambda>(b, s).
     Option.bind (read_string '', subject: '' s) (\<lambda>(c, s).
     Option.bind (read_string '', opener: '' s) (\<lambda>(d, s).
       Some (\<lparr>signature = a, wording = b, subject = c, opener = d\<rparr>, s)))))"

definition read_arm :: "str \<Rightarrow> (str \<times> message entry) option" where
  "read_arm l =
     Option.bind (read_string ''    '' l) (\<lambda>(k, s).
     Option.bind (expect '' => Some('' s) (\<lambda>s.
       if s = ''Deeper)'' then Some (k, Deeper)
       else Option.bind (read_message s) (\<lambda>(m, s). if s = ''}))'' then Some (k, Msg m) else None)))"

text \<open>The arms of the \<open>match\<close> of a function of the file, up to the one for every other key.\<close>

definition arm_lines :: "str \<Rightarrow> str list \<Rightarrow> str list" where
  "arm_lines fn ls = takeWhile (\<lambda>l. l \<noteq> ''    _ => None'')
     (drop 2 (dropWhile (\<lambda>l. l \<noteq> head_line fn) ls))"

definition read_table :: "str \<Rightarrow> str \<Rightarrow> (str, message entry) dict option" where
  "read_table fn s = those (map read_arm (filter (\<lambda>l. l \<noteq> []) (arm_lines fn (split_on [LF] s))))"

lemma read_escaped: "one_line s \<Longrightarrow> read_literal (concat (map escape_char s) @ DQ # r) = Some (s, r)"
  by (induction s) (auto simp: escape_char_def one_line_def)

lemma expect_append [simp]: "expect p (p @ s) = Some s"
  by (simp add: expect_def startswith_def)

lemma read_string_literal: "one_line t \<Longrightarrow> read_string p (p @ mbt_string t @ r) = Some (t, r)"
  using expect_append [of "p @ [DQ]" "concat (map escape_char t) @ DQ # r"]
  by (simp add: read_string_def mbt_string_escape read_escaped)

lemma read_message_literal:
  assumes "message_ok m"
  shows "read_message (''Msg({signature: '' @ mbt_string (signature m) @ '', text: '' @ mbt_string (wording m)
     @ '', subject: '' @ mbt_string (subject m) @ '', opener: '' @ mbt_string (opener m) @ r) = Some (m, r)"
proof -
  have ok: "one_line (signature m)" "one_line (wording m)" "one_line (subject m)" "one_line (opener m)"
    using assms by (simp_all add: message_ok_def)
  have "\<lparr>signature = signature m, wording = wording m, subject = subject m, opener = opener m\<rparr> = m"
    by simp
  then show ?thesis
    by (simp only: read_message_def Option.bind.simps case_prod_conv read_string_literal [OF ok(1)]
        read_string_literal [OF ok(2)] read_string_literal [OF ok(3)] read_string_literal [OF ok(4)])
qed

lemma read_arm_arm: "entry_ok (k, e) \<Longrightarrow> read_arm (arm k e) = Some (k, e)"
proof (cases e)
  case Deeper
  assume "entry_ok (k, e)"
  then have k: "one_line k" by (simp add: entry_ok_def)
  show ?thesis unfolding Deeper arm_def entry.case read_arm_def append_assoc
      read_string_literal [OF k] Option.bind.simps case_prod_conv expect_append by simp
next
  case (Msg m)
  assume "entry_ok (k, e)"
  then have k: "one_line k" and m: "message_ok m" using Msg by (simp_all add: entry_ok_def)
  have "''Msg({signature: '' @ s \<noteq> ''Deeper)''" for s by simp
  then show ?thesis unfolding Msg arm_def entry.case read_arm_def append_assoc
      read_string_literal [OF k] Option.bind.simps case_prod_conv expect_append
    by (simp only: if_False read_message_literal [OF m] Option.bind.simps case_prod_conv) simp
qed

text \<open>The generated file as lines.\<close>

definition arms_lines :: "(str, message entry) dict \<Rightarrow> str list" where
  "arms_lines t = (if t = [] then [[]] else map (\<lambda>k. arm k (the (dget t k))) (arm_order (dkeys t)))"

definition messages_lines :: "nat \<Rightarrow> tables \<Rightarrow> str list" where
  "messages_lines n T =
     messages_preamble n T @ message_types @ lookup_source (max_depth T)
     @ match_head ''entry_of'' @ arms_lines (table T) @ match_tail
     @ match_head ''entry_of_reduced'' @ arms_lines (reduced_table T) @ match_tail @ [[]]"

lemma arms_of_lines: "arms_lines t \<noteq> [] \<and> arms_of t = join [LF] (arms_lines t)"
proof (cases t)
  case (Cons kv t')
  then have "arm_order (dkeys t) \<noteq> []"
    using arm_order_set(1) [of "dkeys t"] by (metis dkeys_def list.map_disc_iff list.simps(3) set_empty)
  then show ?thesis using Cons by (simp add: arms_of_def arms_lines_def)
qed (simp add: arms_of_def arms_lines_def arm_order_def dkeys_def)

lemma messages_parts_lines: "join [LF] (messages_parts n T) = join [LF] (messages_lines n T)"
proof -
  have one: "list_all2 (\<lambda>p ls. ls \<noteq> [] \<and> p = join [LF] ls) [arms_of t] [arms_lines t]" for t
    using arms_of_lines [of t] by simp
  have "join [LF] (messages_parts n T) = join [LF] (concat
      (map (\<lambda>l. [l]) (messages_preamble n T) @ map (\<lambda>l. [l]) message_types @ map (\<lambda>l. [l]) (lookup_source (max_depth T))
       @ map (\<lambda>l. [l]) (match_head ''entry_of'') @ [arms_lines (table T)] @ map (\<lambda>l. [l]) match_tail
       @ map (\<lambda>l. [l]) (match_head ''entry_of_reduced'') @ [arms_lines (reduced_table T)] @ map (\<lambda>l. [l]) match_tail
       @ map (\<lambda>l. [l]) [[]]))"
    unfolding messages_parts_def by (intro join_groups list_all2_appendI singles one)
  then show ?thesis by (simp only: concat_append concat_singles concat.simps append_Nil2 messages_lines_def)
qed

lemma one_line_nat: "one_line (str_nat n)"
  using str_nat_digits [of n] digit_not_space linebreak_space [OF LF_breaks]
  by (auto simp: one_line_def list_all_iff)

lemma one_line_append [simp]: "one_line (s @ t) \<longleftrightarrow> one_line s \<and> one_line t"
  by (auto simp: one_line_def)

lemma one_line_list [simp]: "one_line []" "one_line (c # s) \<longleftrightarrow> c \<noteq> LF \<and> one_line s"
  by (auto simp: one_line_def)

lemma one_line_mbt_string [simp]: "one_line (mbt_string s) \<longleftrightarrow> one_line s"
  by (auto simp: mbt_string_escape one_line_def escape_char_def split: if_splits)

lemma one_line_quoted [simp]: "one_line (dquoted s) \<longleftrightarrow> one_line s" "one_line (code_span s) \<longleftrightarrow> one_line s"
  by (simp_all add: dquoted_def code_span_def)

lemma one_line_arm: "entry_ok (k, e) \<Longrightarrow> one_line (arm k e)"
  by (cases e) (simp_all add: arm_def entry_ok_def message_ok_def)

lemma arms_lines_ok: "list_all entry_ok t \<Longrightarrow> list_all one_line (arms_lines t)"
proof -
  assume ok: "list_all entry_ok t"
  have "one_line (arm k (the (dget t k)))" if k: "k \<in> set (dkeys t)" for k
  proof (rule one_line_arm)
    obtain e where "dget t k = Some e" using k dget_None_iff [of t k] by auto
    then show "entry_ok (k, the (dget t k))" using ok map_of_SomeD [of t k e] by (auto simp: list_all_iff)
  qed
  then show ?thesis by (simp add: arms_lines_def list_all_iff)
qed

lemma messages_lines_ok:
  assumes "list_all entry_ok (table T)" and "list_all entry_ok (reduced_table T)"
  shows "list_all one_line (messages_lines n T)"
proof -
  have "list_all one_line (messages_preamble n T)" by (simp add: messages_preamble_def one_line_nat)
  moreover have "list_all one_line message_types" by (simp add: message_types_def)
  moreover have "list_all one_line (lookup_source d)" for d by (simp add: lookup_source_def one_line_nat)
  moreover have "list_all one_line (match_head ''entry_of'')" "list_all one_line (match_head ''entry_of_reduced'')"
    "list_all one_line match_tail" by (simp_all add: match_head_def match_tail_def head_line_def)
  ultimately show ?thesis using assms by (simp add: messages_lines_def arms_lines_ok)
qed

text \<open>No line before a function of the file is its head.\<close>

lemma arms_not_head: "l \<in> set (arms_lines t) \<Longrightarrow> l \<noteq> head_line fn \<and> l \<noteq> ''    _ => None''"
  by (auto simp: arms_lines_def arm_def head_line_def mbt_string_escape split: if_splits)

lemma before_heads:
  "list_all (\<lambda>l. l \<noteq> head_line fn) (messages_preamble n T @ message_types @ lookup_source d)"
  by (simp add: messages_preamble_def message_types_def lookup_source_def head_line_def code_span_def dquoted_def)

lemma arm_lines_found:
  assumes "list_all (\<lambda>l. l \<noteq> head_line fn) xs" and "list_all (\<lambda>l. l \<noteq> ''    _ => None'') arms"
  shows "arm_lines fn (xs @ match_head fn @ arms @ match_tail @ rest) = arms"
proof -
  have "dropWhile (\<lambda>l. l \<noteq> head_line fn) (xs @ [[], ''///|''] @ head_line fn # ys) = head_line fn # ys" for ys
    using assms(1) by (induction xs) (simp_all add: head_line_def)
  moreover have "takeWhile (\<lambda>l. l \<noteq> ''    _ => None'') (arms @ match_tail @ rest) = arms"
    using assms(2) by (induction arms) (simp_all add: match_tail_def)
  ultimately show ?thesis by (simp add: arm_lines_def match_head_def)
qed

lemma arms_read:
  assumes "list_all entry_ok t"
  shows "those (map read_arm (filter (\<lambda>l. l \<noteq> []) (arms_lines t)))
    = Some (map (\<lambda>k. (k, the (dget t k))) (arm_order (dkeys t)))"
proof -
  have r: "read_arm (arm k (the (dget t k))) = Some (k, the (dget t k))" if k: "k \<in> set (dkeys t)" for k
  proof (rule read_arm_arm)
    obtain e where "dget t k = Some e" using k dget_None_iff [of t k] by auto
    then show "entry_ok (k, the (dget t k))" using assms map_of_SomeD [of t k e] by (auto simp: list_all_iff)
  qed
  have n: "arm k e \<noteq> []" for k e by (simp add: arm_def)
  have "those (map read_arm (filter (\<lambda>l. l \<noteq> []) (map (\<lambda>k. arm k (the (dget t k))) ks)))
      = Some (map (\<lambda>k. (k, the (dget t k))) ks)" if "set ks \<subseteq> set (dkeys t)" for ks
    using that by (induction ks) (simp_all add: n r)
  from this [of "arm_order (dkeys t)"] show ?thesis
    by (cases "t = []") (simp_all add: arms_lines_def, simp add: dkeys_def arm_order_def)
qed

lemma dget_arms: "dget (map (\<lambda>k. (k, the (dget t k))) (arm_order (dkeys t))) = dget t"
proof
  fix k
  have "dget (map (\<lambda>k. (k, the (dget t k))) ks) k = (if k \<in> set ks then Some (the (dget t k)) else None)" for ks
    by (induction ks) auto
  then show "dget (map (\<lambda>k. (k, the (dget t k))) (arm_order (dkeys t))) k = dget t k"
    using dget_None_iff [of t k] by (cases "dget t k") auto
qed

lemma split_one_lines: "ls \<noteq> [] \<Longrightarrow> list_all one_line ls \<Longrightarrow> split_on [LF] (join [LF] ls) = ls"
  by (rule split_join_lines) (simp_all add: one_line_def [abs_def])

lemma file_tables:
  assumes ok: "list_all entry_ok (table T)" "list_all entry_ok (reduced_table T)"
    and s_def: "s = join [LF] (messages_parts n T)"
  shows "map_option dget (read_table ''entry_of'' s) = Some (dget (table T))"
    and "map_option dget (read_table ''entry_of_reduced'' s) = Some (dget (reduced_table T))"
proof -
  have lines: "split_on [LF] s = messages_lines n T"
    unfolding s_def messages_parts_lines
    by (rule split_one_lines [OF _ messages_lines_ok [OF ok]]) (simp add: messages_lines_def messages_preamble_def)
  have a: "list_all (\<lambda>l. l \<noteq> ''    _ => None'') (arms_lines t)" "list_all (\<lambda>l. l \<noteq> head_line fn) (arms_lines t)" for t fn
    using arms_not_head by (auto simp: list_all_iff)
  have "arm_lines ''entry_of'' (messages_lines n T) = arms_lines (table T)"
    using arm_lines_found [OF before_heads a(1), of "''entry_of''"] by (simp add: messages_lines_def)
  then show "map_option dget (read_table ''entry_of'' s) = Some (dget (table T))"
    by (simp add: read_table_def lines arms_read [OF ok(1)] dget_arms)
  have "list_all (\<lambda>l. l \<noteq> head_line ''entry_of_reduced'') (match_head ''entry_of'' @ arms_lines (table T) @ match_tail)"
    using a(2) [of "''entry_of_reduced''"] by (simp add: match_head_def match_tail_def head_line_def)
  then have "list_all (\<lambda>l. l \<noteq> head_line ''entry_of_reduced'') ((messages_preamble n T @ message_types @ lookup_source (max_depth T))
      @ match_head ''entry_of'' @ arms_lines (table T) @ match_tail)"
    using before_heads by (simp only: list_all_append)
  from arm_lines_found [OF this a(1), of "reduced_table T" "[[]]"]
  have "arm_lines ''entry_of_reduced'' (messages_lines n T) = arms_lines (reduced_table T)"
    by (simp add: messages_lines_def)
  then show "map_option dget (read_table ''entry_of_reduced'' s) = Some (dget (reduced_table T))"
    by (simp add: read_table_def lines arms_read [OF ok(2)] dget_arms)
qed

section \<open>Properties\<close>

lemma states_io_ok: "ensures (states_io E sources) (\<lambda>rs. list_all row_ok rs \<and> length rs = length sources)"
proof -
  have "ensures (lift (states_of b f sources)) (\<lambda>rs. list_all row_ok rs \<and> length rs = length sources)" for b f
    using states_ok [of b f sources]
    by (auto simp: ensures_def states_of_def Let_def split: if_splits dest!: mapr_Inr_length)
  then show ?thesis unfolding states_io_def by (intro ensures_rules)
qed

lemma messages_tables_ok: "ensures (messages_tables E) (\<lambda>(ids, n, sel).
    \<exists>a es rs. sel = select a es rs \<and> n = length es \<and> length rs = n \<and> list_all golden_ok es \<and> list_all row_ok rs)"
proof -
  have "ensures (bindio (states_io E (map f (real_entries (entries golden))))
      (\<lambda>rs. ret (k, length (real_entries (entries golden)), select a (real_entries (entries golden)) rs))) (\<lambda>(ids, n, sel).
      \<exists>a es rs. sel = select a es rs \<and> n = length es \<and> length rs = n \<and> list_all golden_ok es \<and> list_all row_ok rs)"
    for f golden k a
    by (rule ensures_bind_post [OF states_io_ok], rule ensures_ret, unfold case_prod_conv length_map)
      (use golden_ok_entries in blast)
  then show ?thesis unfolding messages_tables_def Let_def
    by (rule ensures_bind [OF ensures_bind [OF ensures_bind [OF ensures_bind [OF ensures_bind]]]])
qed

text \<open>
  C3: the table the generator writes is the table it built.  Whatever the messages, labels and
  signatures hold, \<open>parser_messages.mbt\<close> reads back, line by line and literal by literal, as two
  \<open>match\<close> expressions that answer every key as the two tables in memory do; and the printed report
  counts those tables and accounts for every sentence.
\<close>

theorem messages_file_reads_back:
  assumes "messages_main E w = (Inr printed, w')"
  shows "\<exists>ids n sel s. let T = make_tables sel in
    disk w' (messages_out E) = Some (utf8_encode s)
    \<and> map_option dget (read_table ''entry_of'' s) = Some (dget (table T))
    \<and> map_option dget (read_table ''entry_of_reduced'' s) = Some (dget (reduced_table T))
    \<and> printed = messages_report ids n sel T
    \<and> parsed_fine sel + misplaced sel + length (items sel) = n"
proof -
  obtain ids n sel w1 where t: "messages_tables E w = (Inr (ids, n, sel), w1)"
    and out: "write_text (messages_out E) (join [LF] (messages_parts n (make_tables sel))) w1 = (Inr (), w')"
    and printed: "printed = messages_report ids n sel (make_tables sel)"
    using assms by (auto simp: messages_main_def bindio_Inr_iff Let_def)
  obtain a es rs where sel: "sel = select a es rs" and n: "n = length es" "length rs = n"
    and ok: "list_all golden_ok es" "list_all row_ok rs"
    using ensuresD [OF messages_tables_ok t] by auto
  define s where "s = join [LF] (messages_parts n (make_tables sel))"
  note T = tables_ok [OF ok refl, of a, folded sel]
  have "disk w' (messages_out E) = Some (utf8_encode s)"
    using out by (auto simp: write_text_def write_bytes_def set_disk_def s_def)
  moreover have "parsed_fine sel + misplaced sel + length (items sel) = n"
    using n by (simp add: sel select_def select_fold_count)
  moreover have "map_option dget (read_table ''entry_of'' s) = Some (dget (table (make_tables sel)))"
    "map_option dget (read_table ''entry_of_reduced'' s) = Some (dget (reduced_table (make_tables sel)))"
    by (rule file_tables [OF _ _ s_def]; use T in simp)+
  ultimately show ?thesis using printed unfolding Let_def by blast
qed

text \<open>
  A run on one sentence: \<open>moonx\<close> writes a parser without productions, \<open>errstate\<close> reports that
  the sentence's one token fails on the stack \<open>0 5\<close>.
\<close>

definition tiny_parser :: str where
  "tiny_parser = concat (map (\<lambda>n. ''let '' @ n @ '' : FixedArray[I] = []'')
       [''yy_prod_lhs_table'', ''yy_prod_act_table'', ''yy_prod_len_table'', ''yy_state_table''])
     @ ''fn yy_state([state * 1 + symbol]2..=2 => Shift3..=4 =>''"

definition gen_exec :: "str list \<Rightarrow> bytes option \<Rightarrow> files \<Rightarrow> answer \<times> files" where
  "gen_exec argv stdin m =
     (if hd argv = ''moonx'' then (Exited 0 [] [], m(last argv \<mapsto> tiny_parser))
      else if hd argv = ''moon'' then (Exited 0 [] [], m)
      else (Exited 0 (join [TAB] [''1'', ''0 5'', ''0'', ''1'', ''sig'', ''-'', ''-'', ''-'', ''-''] @ [LF]) [], m))"

definition gen_env :: env where
  "gen_env = demo_env\<lparr>exec := gen_exec\<rparr>"

definition gen_world :: world where
  "gen_world = \<lparr>disk = map_of
     [(grammar_path gen_env, []), (state_path gen_env, ''let terminal_symbol_count = 1''),
      (mly_path gen_env, ''%on_error_reduce ''), (errstate_path gen_env, []),
      (expected_path gen_env, ''s: A'' @ [LF, LF] @ ''Expecting an expression.'' @ [LF])],
     corpus = ''c'', golden = ''g'', span_exempt = []\<rparr>"

definition gen_selection :: selection where
  "gen_selection = \<lparr>parsed_fine = 0, misplaced = 0,
     items = [([0, 5], \<lparr>signature = ''sig'', wording = ''Expecting an expression.'', subject = [], opener = []\<rparr>)],
     reduced_items = []\<rparr>"

lemma gen_demo: "fst (messages_tables gen_env gen_world) = Inr (0, 1, gen_selection)"
  by code_simp

theorem messages_file_reads_back_witness:
  "\<exists>s. disk (snd (messages_main gen_env gen_world)) (messages_out gen_env) = Some (utf8_encode s)"
proof -
  obtain w1 where "messages_tables gen_env gen_world = (Inr (0, 1, gen_selection), w1)"
    using run_eq [OF gen_demo] by blast
  then have "messages_main gen_env gen_world = (Inr (messages_report 0 1 gen_selection (make_tables gen_selection)),
      snd (messages_main gen_env gen_world))"
    by (simp add: messages_main_def bindio_def write_text_def write_bytes_def set_disk_def Let_def)
  from messages_file_reads_back [OF this] show ?thesis unfolding Let_def by blast
qed

end
