(* ===== verification/Arguments.thy ===== *)
theory Arguments
  imports Oracles
begin

text \<open>
  The command line of \<open>tools/waxdiff.py\<close>: the options that \<open>main\<close> declares for every subcommand,
  what \<open>argparse\<close> promises of the namespace it returns (a value of its kind for every declared
  option), and how the commands read their attributes.
\<close>

section \<open>Options\<close>

datatype aval = ANone | AStr str | AInt int | ABool bool | AList "aval list"

datatype akind =
    Store \<comment> \<open>\<open>add_argument\<close> without an action\<close>
  | StoreInt \<comment> \<open>\<open>type=int\<close>\<close>
  | AppendStr \<comment> \<open>\<open>action="append"\<close>\<close>
  | AppendInt
  | StoreTrue

record argspec =
  dest :: str
  kind :: akind
  choices :: "aval list"  \<comment> \<open>none: any\<close>
  default :: "aval option"  \<comment> \<open>none: required\<close>

definition arg :: "str \<Rightarrow> akind \<Rightarrow> aval list \<Rightarrow> aval option \<Rightarrow> argspec" where
  "arg d k cs v = \<lparr>dest = d, kind = k, choices = cs, default = v\<rparr>"

definition jobs_option :: "nat option \<Rightarrow> argspec" where
  "jobs_option cpus = arg ''jobs'' StoreInt [] (Some (AInt (int (default_jobs cpus))))"

definition oracle_option :: argspec where
  "oracle_option = arg ''oracle'' AppendInt (map AInt [1, 2, 3, 4]) (Some ANone)"

definition route_option :: argspec where
  "route_option = arg ''oracle2_route'' Store (map AStr [via_reference, native]) (Some (AStr via_reference))"

definition scope_option :: argspec where
  "scope_option = arg ''scope'' Store (map AStr [''front-end'', ''full'']) (Some ANone)"

definition filter_option :: argspec where
  "filter_option = arg ''filter'' Store [] (Some ANone)"

definition subcommands :: "nat option \<Rightarrow> (str, argspec list) dict" where
  "subcommands cpus =
     [(''collect'',
        [arg ''only'' AppendStr (map AStr [''cram'', ''docs'', ''wat'', ''spec'']) (Some ANone),
         arg ''spec_limit'' StoreInt [] (Some ANone),
         arg ''spec_per_wast'' StoreInt [] (Some (AInt 5))]),
      (''classify'', [jobs_option cpus]),
      (''fuzz'',
        [arg ''impl'' Store [] (Some (AStr ''tools/wax-mb'')),
         arg ''count'' StoreInt [] (Some (AInt 100)),
         arg ''edits'' StoreInt [] (Some (AInt 3)),
         arg ''seed'' StoreInt [] (Some ANone),
         filter_option, oracle_option, route_option, scope_option]),
      (''adopt'',
        [arg ''file'' Store [] None,
         arg ''name'' Store [] (Some ANone), arg ''origin'' Store [] (Some ANone),
         arg ''force'' StoreTrue [] (Some (ABool False))]),
      (''classify-cram'', [arg ''dry_run'' StoreTrue [] (Some (ABool False))]),
      (''golden'', [jobs_option cpus]),
      (''run'',
        [arg ''impl'' Store [] (Some (AStr ''tools/wax-ref'')),
         oracle_option, route_option, filter_option, scope_option, jobs_option cpus,
         arg ''self_test'' StoreTrue [] (Some (ABool False)),
         arg ''max_report'' StoreInt [] (Some (AInt 50))])]"

section \<open>What argparse promises\<close>

fun of_kind :: "akind \<Rightarrow> aval \<Rightarrow> bool" where
  "of_kind Store (AStr s) = True"
| "of_kind StoreInt (AInt i) = True"
| "of_kind AppendStr (AStr s) = True"
| "of_kind AppendInt (AInt i) = True"
| "of_kind _ _ = False"

definition given :: "argspec \<Rightarrow> aval \<Rightarrow> bool" where
  "given x v \<longleftrightarrow> of_kind (kind x) v \<and> (choices x = [] \<or> v \<in> set (choices x))"

fun permitted :: "argspec \<Rightarrow> aval \<Rightarrow> bool" where
  \<comment> \<open>the default, or what the words of the command line gave\<close>
  "permitted x v \<longleftrightarrow> default x = Some v \<or>
     (case kind x of
        StoreTrue \<Rightarrow> v = ABool True
      | AppendStr \<Rightarrow> (case v of AList vs \<Rightarrow> vs \<noteq> [] \<and> list_all (given x) vs | _ \<Rightarrow> False)
      | AppendInt \<Rightarrow> (case v of AList vs \<Rightarrow> vs \<noteq> [] \<and> list_all (given x) vs | _ \<Rightarrow> False)
      | _ \<Rightarrow> given x v)"

type_synonym namespace = "(str, aval) dict"

definition conforms :: "nat option \<Rightarrow> str \<Rightarrow> namespace \<Rightarrow> bool" where
  "conforms cpus cmd ns \<longleftrightarrow> (case dget (subcommands cpus) cmd of
      None \<Rightarrow> False
    | Some os \<Rightarrow> list_all (\<lambda>x. case dget ns (dest x) of None \<Rightarrow> False | Some v \<Rightarrow> permitted x v) os)"

section \<open>What the commands read\<close>

text \<open>An attribute read at its type; \<open>None\<close> is the \<open>AttributeError\<close> or \<open>TypeError\<close> of a wrong one.\<close>

fun str_arg :: "aval \<Rightarrow> str option" where
  "str_arg (AStr s) = Some s"
| "str_arg _ = None"

fun int_arg :: "aval \<Rightarrow> int option" where
  "int_arg (AInt i) = Some i"
| "int_arg _ = None"

fun bool_arg :: "aval \<Rightarrow> bool option" where
  "bool_arg (ABool b) = Some b"
| "bool_arg _ = None"

fun optional :: "(aval \<Rightarrow> 'a option) \<Rightarrow> aval \<Rightarrow> 'a option option" where
  "optional f ANone = Some None"
| "optional f v = map_option Some (f v)"

fun list_arg :: "(aval \<Rightarrow> 'a option) \<Rightarrow> aval \<Rightarrow> 'a list option" where
  \<comment> \<open>the commands read \<open>args.x or ...\<close>, so that no list and an empty one are the same\<close>
  "list_arg f ANone = Some []"
| "list_arg f (AList vs) = those (map f vs)"
| "list_arg f _ = None"

definition attr :: "(aval \<Rightarrow> 'a option) \<Rightarrow> namespace \<Rightarrow> str \<Rightarrow> 'a option" where
  "attr f ns d = Option.bind (dget ns d) f"

section \<open>What an attribute read returns\<close>

lemma conformsD:
  assumes "conforms cpus cmd ns" and "dget (subcommands cpus) cmd = Some os" and "arg d k cs v \<in> set os"
  shows "\<exists>u. dget ns d = Some u \<and> permitted (arg d k cs v) u"
proof -
  have "list_all (\<lambda>x. case dget ns (dest x) of None \<Rightarrow> False | Some v \<Rightarrow> permitted x v) os"
    using assms(1,2) by (simp add: conforms_def)
  then have "case dget ns (dest (arg d k cs v)) of None \<Rightarrow> False | Some u \<Rightarrow> permitted (arg d k cs v) u"
    unfolding list_all_iff by (rule bspec [OF _ assms(3)])
  then have "case dget ns d of None \<Rightarrow> False | Some u \<Rightarrow> permitted (arg d k cs v) u"
    by (simp only: arg_def argspec.select_convs)
  then show ?thesis by (cases "dget ns d") auto
qed

text \<open>What is read of an option, by its kind and default.\<close>

lemma those_strs: "list_all (given (arg d AppendStr cs v)) vs \<Longrightarrow>
    \<exists>ts. those (map str_arg vs) = Some ts \<and> (cs = [] \<or> AStr ` set ts \<subseteq> set cs)"
proof (induction vs)
  case (Cons a vs)
  then obtain ts where "those (map str_arg vs) = Some ts" "cs = [] \<or> AStr ` set ts \<subseteq> set cs" by auto
  then show ?case using Cons.prems by (cases a) (auto simp: given_def arg_def)
qed simp

lemma those_ints: "list_all (given (arg d AppendInt cs v)) vs \<Longrightarrow>
    \<exists>ts. those (map int_arg vs) = Some ts \<and> (cs = [] \<or> AInt ` set ts \<subseteq> set cs)"
proof (induction vs)
  case (Cons a vs)
  then obtain ts where "those (map int_arg vs) = Some ts" "cs = [] \<or> AInt ` set ts \<subseteq> set cs" by auto
  then show ?case using Cons.prems by (cases a) (auto simp: given_def arg_def)
qed simp

lemma attr_some: "dget ns d = Some u \<Longrightarrow> attr f ns d = f u"
  by (simp add: attr_def)

lemma read_str:
  "\<exists>u. dget ns d = Some u \<and> permitted (arg d Store cs (Some (AStr s))) u \<Longrightarrow>
     \<exists>t. attr str_arg ns d = Some t \<and> (t = s \<or> cs = [] \<or> AStr t \<in> set cs)"
  by (elim exE conjE, rename_tac u, case_tac u) (auto simp: attr_def arg_def given_def)

lemma read_required:
  "\<exists>u. dget ns d = Some u \<and> permitted (arg d Store cs None) u \<Longrightarrow> \<exists>t. attr str_arg ns d = Some t"
  by (elim exE conjE, rename_tac u, case_tac u) (auto simp: attr_def arg_def given_def)

lemma read_opt_str:
  "\<exists>u. dget ns d = Some u \<and> permitted (arg d Store cs (Some ANone)) u \<Longrightarrow>
     \<exists>t. attr (optional str_arg) ns d = Some t \<and> (case t of None \<Rightarrow> True | Some t \<Rightarrow> cs = [] \<or> AStr t \<in> set cs)"
  by (elim exE conjE, rename_tac u, case_tac u) (auto simp: attr_def arg_def given_def)

lemma read_int:
  "\<exists>u. dget ns d = Some u \<and> permitted (arg d StoreInt cs (Some (AInt i))) u \<Longrightarrow> \<exists>t. attr int_arg ns d = Some t"
  by (elim exE conjE, rename_tac u, case_tac u) (auto simp: attr_def arg_def given_def)

lemma read_opt_int:
  "\<exists>u. dget ns d = Some u \<and> permitted (arg d StoreInt cs (Some ANone)) u \<Longrightarrow> \<exists>t. attr (optional int_arg) ns d = Some t"
  by (elim exE conjE, rename_tac u, case_tac u) (auto simp: attr_def arg_def given_def)

lemma read_flag:
  "\<exists>u. dget ns d = Some u \<and> permitted (arg d StoreTrue cs (Some (ABool b))) u \<Longrightarrow> \<exists>t. attr bool_arg ns d = Some t"
  by (elim exE conjE, rename_tac u, case_tac u) (auto simp: attr_def arg_def)

lemma read_strs:
  "\<exists>u. dget ns d = Some u \<and> permitted (arg d AppendStr cs (Some ANone)) u \<Longrightarrow>
     \<exists>ts. attr (list_arg str_arg) ns d = Some ts \<and> (cs = [] \<or> AStr ` set ts \<subseteq> set cs)"
  using those_strs [of d cs "Some ANone"]
  by (elim exE conjE, rename_tac u, case_tac u) (auto simp: attr_def arg_def)

lemma read_ints:
  "\<exists>u. dget ns d = Some u \<and> permitted (arg d AppendInt cs (Some ANone)) u \<Longrightarrow>
     \<exists>ts. attr (list_arg int_arg) ns d = Some ts \<and> (cs = [] \<or> AInt ` set ts \<subseteq> set cs)"
  using those_ints [of d cs "Some ANone"]
  by (elim exE conjE, rename_tac u, case_tac u) (auto simp: attr_def arg_def)

end
