(* ===== verification/Golden.thy ===== *)
theory Golden
  imports Oracles
begin

text \<open>
  \<open>classify\<close> and \<open>golden\<close> of \<open>tools/waxdiff.py\<close> (448--595): the bucket the reference's own
  behaviour puts a file in, what is recorded for it, and the index of all files.  The passes run
  on a thread pool; results are consumed in the order of the files, and the model runs them in
  that order.
\<close>

section \<open>Classifying one file\<close>

definition syntax_bad :: str where "syntax_bad = ''syntax-bad''"
definition compiles_clean :: str where "compiles_clean = ''compiles-clean''"
definition type_bad :: str where "type_bad = ''type-bad''"

record classification =
  cfile :: str
  cbucket :: str
  creprint_code :: int
  cdiag_code :: int
  creprint :: "str option"
  cdiagnostics :: str
  cwasm_sha256 :: "str option"

definition reference_check :: "env \<Rightarrow> path \<Rightarrow> proc io" where
  "reference_check E p = wax E [''check'', ''--error-format'', ''json'', p]"

definition classify_one :: "env \<Rightarrow> path \<Rightarrow> classification io" where
  "classify_one E p =
     bindio (\<lambda>w. lift (relative_to (corpus w) p) w) (\<lambda>rel.
     bindio (wax E [p, ''-f'', ''wax'']) (\<lambda>reprint.
     if pcode reprint \<noteq> 0 then
       bindio (reference_check E p) (\<lambda>diag.
       ret \<lparr>cfile = rel, cbucket = syntax_bad, creprint_code = pcode reprint,
            cdiag_code = pcode diag, creprint = None, cdiagnostics = decode (perr diag),
            cwasm_sha256 = None\<rparr>)
     else
       bindio (wax E [p, ''-f'', ''wasm'', ''-o'', ''-'']) (\<lambda>compiled.
       let (b, sha) = (if pcode compiled = 0 then (compiles_clean, Some (digest E (pout compiled)))
                       else (type_bad, None))
       in bindio (reference_check E p) (\<lambda>diag.
          ret \<lparr>cfile = rel, cbucket = b, creprint_code = 0, cdiag_code = pcode diag,
               creprint = Some (decode (pout reprint)), cdiagnostics = decode (perr diag),
               cwasm_sha256 = sha\<rparr>))))"

section \<open>Recording it\<close>

definition write_reprint :: "str \<Rightarrow> str option \<Rightarrow> unit io" where
  "write_reprint stem r = (case r of
      None \<Rightarrow> ret ()
    | Some s \<Rightarrow> bindio (golden_path (stem @ ''.reprint'')) (\<lambda>p. write_text p s))"

definition write_diagnostics :: "str \<Rightarrow> str \<Rightarrow> unit io" where
  "write_diagnostics stem s = (if s = [] then ret () else
     bindio (golden_path (stem @ ''.diag.jsonl'')) (\<lambda>p.
     bindio (lift (golden_lines s)) (\<lambda>t. write_text p t)))"

definition write_golden :: "classification \<Rightarrow> meta io" where
  "write_golden res =
     (let stem = removesuffix (cfile res) ''.wax'' in
      bindio (write_reprint stem (creprint res)) (\<lambda>_.
      bindio (write_diagnostics stem (cdiagnostics res)) (\<lambda>_.
      ret \<lparr>bucket = cbucket res, reprint_code = creprint_code res, diag_code = cdiag_code res,
           wasm_sha256 = cwasm_sha256 res\<rparr>)))"

section \<open>The index\<close>

definition corpus_files :: "env \<Rightarrow> path list io" where
  "corpus_files E w = rglob E (corpus w) ''.wax'' w"

definition meta_json :: "meta \<Rightarrow> json" where
  "meta_json m = JObj [(''bucket'', JStr (bucket m)), (''reprint_code'', JInt (reprint_code m)),
     (''diag_code'', JInt (diag_code m)),
     (''wasm_sha256'', case wasm_sha256 m of None \<Rightarrow> JNull | Some s \<Rightarrow> JStr s)]"

definition counts_of :: "str list \<Rightarrow> (str, nat) dict" where
  "counts_of bs = fold bump bs []"

definition golden_comment :: str where
  "golden_comment = ''The reference's expected behaviour for every corpus file. Committed, so `waxdiff.py run` needs neither the reference binary nor the wax/ checkout. A diff here is either your behaviour change or upstream's -- never edit it to make a test pass.''"

definition index_json :: "json \<Rightarrow> (str, meta) dict \<Rightarrow> json" where
  "index_json sha index = JObj
     [(''_comment'', JStr golden_comment), (''reference'', sha),
      (''counts'', JObj (map (\<lambda>(b, n). (b, JInt (int n))) (counts_of (map (bucket \<circ> snd) index)))),
      (''files'', JObj (map (\<lambda>(k, m). (k, meta_json m)) (sort_items index)))]"

fun golden_loop :: "env \<Rightarrow> path list \<Rightarrow> (str, meta) dict \<Rightarrow> (str, meta) dict io" where
  "golden_loop E [] index = ret index"
| "golden_loop E (p # ps) index =
     bindio (classify_one E p) (\<lambda>res.
     bindio (write_golden res) (\<lambda>m. golden_loop E ps (dset (cfile res) m index)))"

definition bucket_report :: "(str, nat) dict \<Rightarrow> nat \<Rightarrow> (str \<times> nat) list" where
  \<comment> \<open>the lines that are printed: a count per bucket, then the total\<close>
  "bucket_report counts n =
     map (\<lambda>k. (k, dget_nat counts k)) [syntax_bad, compiles_clean, type_bad] @ [(''total'', n)]"

definition write_index :: "env \<Rightarrow> (str, meta) dict \<Rightarrow> unit io" where
  "write_index E index =
     bindio (read_text (joinp (root E) ''tools/reference.json'')) (\<lambda>s.
     bindio (lift (bindr (loads s) (\<lambda>j. obj_item j ''sha256''))) (\<lambda>sha.
     bindio (golden_path ''index.json'') (\<lambda>p.
       write_text p (dumps Indent2 (index_json sha index) @ [LF]))))"

definition cmd_golden :: "env \<Rightarrow> (str \<times> nat) list io" where
  "cmd_golden E =
     bindio (need_reference E) (\<lambda>_.
     bindio (corpus_files E) (\<lambda>files.
     if files = [] then raise (SystemExit ''waxdiff: corpus is empty; run `waxdiff.py collect` first'')
     else
     bindio (\<lambda>w. rmtree (golden w) w) (\<lambda>_.
     bindio (golden_loop E files []) (\<lambda>index.
     bindio (write_index E index) (\<lambda>_.
     ret (bucket_report (counts_of (map (bucket \<circ> snd) index)) (length index)))))))"

definition cmd_classify :: "env \<Rightarrow> (str \<times> nat) list io" where
  "cmd_classify E =
     bindio (need_reference E) (\<lambda>_.
     bindio (corpus_files E) (\<lambda>files.
     bindio (mapio (classify_one E) files) (\<lambda>rs.
     ret (bucket_report (counts_of (map cbucket rs)) (length files)))))"

section \<open>Buckets\<close>

lemma bucket_names: "distinct [syntax_bad, compiles_clean, type_bad]"
  by code_simp

definition bucketed :: "str \<Rightarrow> bool" where
  "bucketed b \<longleftrightarrow> b \<in> {syntax_bad, compiles_clean, type_bad}"

lemma classify_one_shape:
  "ensures (classify_one E p) (\<lambda>r. bucketed (cbucket r)
     \<and> (creprint r = None \<longleftrightarrow> cbucket r = syntax_bad)
     \<and> (creprint_code r = 0 \<longleftrightarrow> cbucket r \<noteq> syntax_bad)
     \<and> (cwasm_sha256 r \<noteq> None \<longleftrightarrow> cbucket r = compiles_clean))"
  using bucket_names unfolding classify_one_def Let_def bucketed_def
  by (intro ensures_rules) (auto split: if_splits)

lemma sum_counts:
  assumes "\<forall>b \<in> set bs. bucketed b"
  shows "dget_nat (counts_of bs) syntax_bad + dget_nat (counts_of bs) compiles_clean
    + dget_nat (counts_of bs) type_bad = length bs"
proof -
  have "dget_nat (counts_of bs) k = count_list bs k" for k
    by (simp add: counts_of_def dget_nat_fold_bump) (simp add: dget_nat_def)
  moreover have "count_list bs syntax_bad + count_list bs compiles_clean + count_list bs type_bad
      = length bs"
    using assms bucket_names by (induction bs) (auto simp: bucketed_def)
  ultimately show ?thesis by simp
qed

lemma mapio_ensures: "(\<And>x. ensures (f x) Q) \<Longrightarrow> ensures (mapio f xs) (\<lambda>ys. length ys = length xs \<and> (\<forall>y \<in> set ys. Q y))"
proof (induction xs)
  case (Cons x xs)
  show ?case
    by (simp, rule ensures_bind_post [OF Cons.prems], rule ensures_bind_post [OF Cons.IH [OF Cons.prems]])
      (auto intro!: ensures_ret)
qed (auto intro: ensures_ret)

lemma write_golden_bucket: "ensures (write_golden res) (\<lambda>m. bucket m = cbucket res
    \<and> diag_code m = cdiag_code res \<and> wasm_sha256 m = cwasm_sha256 res)"
  unfolding write_golden_def Let_def by (intro ensures_rules) simp

lemma dset_subset: "set (dset k v d) \<subseteq> insert (k, v) (set d)"
  by (induction d) auto

lemma golden_loop_buckets:
  "\<forall>m \<in> snd ` set index. bucketed (bucket m) \<Longrightarrow> distinct (dkeys index) \<Longrightarrow>
   ensures (golden_loop E ps index) (\<lambda>ix. (\<forall>m \<in> snd ` set ix. bucketed (bucket m)) \<and> distinct (dkeys ix))"
proof (induction ps arbitrary: index)
  case (Cons p ps)
  have "ensures (golden_loop E ps (dset (cfile r) m index))
      (\<lambda>ix. (\<forall>m \<in> snd ` set ix. bucketed (bucket m)) \<and> distinct (dkeys ix))"
    if "bucketed (bucket m)" for m r
    by (rule Cons.IH)
      (use Cons.prems that dset_subset [of "cfile r" m index] in \<open>fastforce simp: distinct_dkeys_dset\<close>)+
  note step = this
  show ?case unfolding golden_loop.simps
    by (rule ensures_bind_post [OF classify_one_shape], rule ensures_bind_post [OF write_golden_bucket],
        rule step) metis
qed (auto intro: ensures_ret)

section \<open>Reading the index back\<close>

text \<open>The files written with \<open>indent=2\<close> are ASCII without carriage returns.\<close>

lemma no_cr_quote: "CR \<notin> set (quote_char a c)"
proof -
  have "\<forall>n \<in> {..<16}. hex_digit n \<noteq> CR" by code_simp
  then have h: "n < 16 \<Longrightarrow> CR \<noteq> hex_digit n" for n by (metis lessThan_iff)
  have d: "code c div 16 < 16" using code_less [of c] by simp
  show ?thesis using h [OF d] h [of "code c mod 16"] by (auto simp: quote_char_def)
qed

lemma no_cr_string: "CR \<notin> set (json_string a s)"
  using no_cr_quote by (auto simp: json_string_def)

lemma no_cr_int: "CR \<notin> set (str_int i)"
proof -
  have "is_linebreak CR" by code_simp
  then show ?thesis using unbroken_str_int [of i] by (auto simp: unbroken_def)
qed

lemma no_cr_layout: "CR \<notin> set (nl l n)" "CR \<notin> set (colon l)"
  by (cases l; simp)+

lemma no_cr_dumps: "jwf j \<Longrightarrow> CR \<notin> set (dumps_at l n j)"
  "list_all jwf vs \<Longrightarrow> CR \<notin> set (dumps_rest l n vs)"
  "list_all (\<lambda>(k, v). jwf v) kvs \<Longrightarrow> CR \<notin> set (dumps_items l n kvs)"
  by (induction l n j and l n vs and l n kvs rule: dumps_at_dumps_rest_dumps_items.induct)
    (auto simp: no_cr_string no_cr_int no_cr_layout)

lemma text_file_back:
  assumes "jwf j" and "disk w p = Some (utf8_encode (dumps l j @ [LF]))"
  shows "bindio (read_text p) (\<lambda>s. lift (loads s)) w = (Inr j, w)"
proof -
  have "CR \<notin> set (dumps l j @ [LF])" using no_cr_dumps(1) [OF assms(1)] by (simp add: dumps_def)
  then show ?thesis using assms
    by (simp add: read_text_def read_bytes_def bindio_def universal_newlines_id loads_dumps)
qed

lemma meta_back: "meta_of (meta_json m) = Inr m"
  by (cases m) (auto simp: meta_of_def meta_json_def obj_item_def dindex_def str_of_def jget_def split: option.split)

lemma metas_back:
  "mapr (\<lambda>(k, v). bindr (meta_of v) (\<lambda>m. Inr (k, m))) (map (\<lambda>(k, m). (k, meta_json m)) ix) = Inr ix"
  by (induction ix) (auto simp: meta_back)

lemma distinct_sort_items: "distinct (dkeys d) \<Longrightarrow> distinct (map fst (sort_items d))"
proof -
  have "mset (map fst (sort_items d)) = mset (map fst d)" by (simp add: sort_items_def)
  then show "distinct (dkeys d) \<Longrightarrow> distinct (map fst (sort_items d))"
    using mset_eq_imp_distinct_iff unfolding dkeys_def by blast
qed

lemma jwf_index:
  assumes "jwf sha" and "distinct (dkeys index)"
  shows "jwf (index_json sha index)"
proof -
  have m: "jwf (meta_json m)" for m
    by (simp add: meta_json_def split: option.split)
  have b: "distinct (map fst (fold bump bs d))" if "distinct (map fst d)" for bs and d :: "(str, nat) dict"
    using that by (induction bs arbitrary: d) (auto simp: bump_def AList.distinct_update)
  have s: "distinct (map fst (sort_items index))"
    by (rule distinct_sort_items [OF assms(2)])
  have e: "map (fst \<circ> (\<lambda>(k, x). (k, f x))) d = map fst d" for f :: "'x \<Rightarrow> json" and d :: "(str \<times> 'x) list"
    by (induction d) auto
  show ?thesis using assms(1) m s b [of "[]" "map (bucket \<circ> snd) index"]
    by (simp add: index_json_def counts_of_def e list_all_iff case_prod_beta comp_def)
qed

lemma index_back:
  assumes "jwf sha" and "distinct (dkeys index)"
    and "disk w (joinp (golden w) ''index.json'') =
      Some (utf8_encode (dumps Indent2 (index_json sha index) @ [LF]))"
  shows "load_index E w = (Inr (sort_items index), w)"
proof -
  let ?j = "index_json sha index"
  have r: "bindio (read_text (joinp (golden w) ''index.json'')) (\<lambda>s. lift (loads s)) w = (Inr ?j, w)"
    by (rule text_file_back [OF jwf_index [OF assms(1,2)] assms(3)])
  then obtain s where s: "read_text (joinp (golden w) ''index.json'') w = (Inr s, w)" "loads s = Inr ?j"
    by (auto simp: bindio_Inr_iff)
  have "obj_item ?j ''files'' = Inr (JObj (map (\<lambda>(k, m). (k, meta_json m)) (sort_items index)))"
    by (simp add: index_json_def obj_item_def dindex_def)
  then show ?thesis using s assms(3)
    by (simp add: load_index_def bindio_def golden_path_def exists_file_def as_obj_def metas_back)
qed

section \<open>The reference against its own goldens\<close>

text \<open>
  What the self test relies on: the reference is installed, and asked about a file it answers
  from that file alone and writes nothing.
\<close>

definition commands :: "path \<Rightarrow> str list list" where
  "commands p = [[p, ''-f'', ''wax''], [p, ''-f'', ''wasm'', ''-o'', ''-''],
     [''check'', ''--error-format'', ''json'', p], [p, ''-f'', ''wat'']]"

lemma commands_mem [simp]:
  "[p, ''-f'', ''wax''] \<in> set (commands p)"
  "[p, ''-f'', ''wasm'', ''-o'', ''-''] \<in> set (commands p)"
  "[''check'', ''--error-format'', ''json'', p] \<in> set (commands p)"
  by (simp_all add: commands_def)

definition steady :: "env \<Rightarrow> str list \<Rightarrow> path \<Rightarrow> bool" where
  "steady E prog p \<longleftrightarrow> (\<forall>args m m'. args \<in> set (commands p) \<longrightarrow> m p = m' p \<longrightarrow>
     exec E (capped E (prog @ args)) None m = (fst (exec E (capped E (prog @ args)) None m'), m)
     \<and> fst (exec E (capped E (prog @ args)) None m) \<noteq> NoSuchProgram)"

lemma impl_is_reference: "impl_run E [reference E] args = wax E args"
  by (simp add: impl_run_def wax_def)

lemma steady_wax:
  assumes "steady E [reference E] p" "args \<in> set (commands p)"
  shows "snd (wax E args w) = w"
    and "disk w' p = disk w p \<Longrightarrow> fst (wax E args w') = fst (wax E args w)"
    and "\<exists>r. wax E args w = (Inr r, w)"
proof -
  have s: "exec E (capped E (reference E # args)) None m
      = (fst (exec E (capped E (reference E # args)) None m'), m)
      \<and> fst (exec E (capped E (reference E # args)) None m) \<noteq> NoSuchProgram" if "m p = m' p" for m m'
    using assms that unfolding steady_def by (metis append_Cons append_Nil)
  show "\<exists>r. wax E args w = (Inr r, w)"
    using s [of "disk w" "disk w"]
    by (cases "exec E (capped E (reference E # args)) None (disk w)")
      (auto simp: wax_def run_def split: answer.split)
  show "snd (wax E args w) = w"
    using s [of "disk w" "disk w"]
    by (auto simp: wax_def run_def split: prod.split answer.split)
  show "fst (wax E args w') = fst (wax E args w)" if "disk w' p = disk w p"
    using s [of "disk w'" "disk w", OF that] by (auto simp: wax_def run_def split: prod.split answer.split)
qed

lemma steady_again:
  assumes "steady E [reference E] p" "args \<in> set (commands p)" "disk w' p = disk w p"
    and "wax E args w = (r, w1)"
  shows "w1 = w" "wax E args w' = (r, w')"
proof -
  show "w1 = w" using steady_wax(1) [OF assms(1,2), of w] assms(4) by simp
  have "fst (wax E args w') = r" "snd (wax E args w') = w'"
    using steady_wax(1,2) [OF assms(1,2)] assms(3,4) by (metis fst_conv, metis)
  then show "wax E args w' = (r, w')" by (metis prod.collapse)
qed

text \<open>What \<open>classify_one\<close> records is what the three commands answer.\<close>

lemma classify_steady:
  assumes st: "steady E [reference E] p" and c: "classify_one E p w = (Inr res, w1)"
  shows "w1 = w" and "relative_to (corpus w) p = Inr (cfile res)"
    and "\<exists>r. wax E [''check'', ''--error-format'', ''json'', p] w = (Inr r, w)
        \<and> pcode r = cdiag_code res \<and> decode (perr r) = cdiagnostics res"
    and "creprint res = Some s \<Longrightarrow> \<exists>r. wax E [p, ''-f'', ''wax''] w = (Inr r, w) \<and> pcode r = 0
        \<and> s = decode (pout r)"
    and "cwasm_sha256 res = Some h \<Longrightarrow> \<exists>r. wax E [p, ''-f'', ''wasm'', ''-o'', ''-''] w = (Inr r, w)
        \<and> pcode r = 0 \<and> h = digest E (pout r)"
proof -
  have keep: "wax E args u = (r, u1) \<Longrightarrow> args \<in> set (commands p) \<Longrightarrow> u1 = u" for args u r u1
    using steady_wax(1) [OF st] by (metis snd_conv)
  obtain reprint where rp: "wax E [p, ''-f'', ''wax''] w = (Inr reprint, w)"
    and rel: "relative_to (corpus w) p = Inr (cfile res)"
    and rest: "(if pcode reprint \<noteq> 0 then
        \<exists>diag. wax E [''check'', ''--error-format'', ''json'', p] w = (Inr diag, w) \<and> w1 = w
          \<and> creprint res = None \<and> cdiag_code res = pcode diag
          \<and> cdiagnostics res = decode (perr diag) \<and> cwasm_sha256 res = None
      else \<exists>compiled diag. wax E [p, ''-f'', ''wasm'', ''-o'', ''-''] w = (Inr compiled, w)
          \<and> wax E [''check'', ''--error-format'', ''json'', p] w = (Inr diag, w) \<and> w1 = w
          \<and> creprint res = Some (decode (pout reprint)) \<and> cdiag_code res = pcode diag
          \<and> cdiagnostics res = decode (perr diag)
          \<and> cwasm_sha256 res = (if pcode compiled = 0 then Some (digest E (pout compiled)) else None))"
    using c unfolding classify_one_def reference_check_def bindio_Inr_iff Let_def
    by (fastforce simp: bindio_Inr_iff dest: keep split: if_splits)
  show "w1 = w" "relative_to (corpus w) p = Inr (cfile res)"
    using rest rel by (auto split: if_splits)
  show "\<exists>r. wax E [''check'', ''--error-format'', ''json'', p] w = (Inr r, w)
        \<and> pcode r = cdiag_code res \<and> decode (perr r) = cdiagnostics res"
    using rest by (auto split: if_splits)
  show "creprint res = Some s \<Longrightarrow> \<exists>r. wax E [p, ''-f'', ''wax''] w = (Inr r, w) \<and> pcode r = 0
        \<and> s = decode (pout r)"
    using rest rp by (auto split: if_splits)
  show "cwasm_sha256 res = Some h \<Longrightarrow> \<exists>r. wax E [p, ''-f'', ''wasm'', ''-o'', ''-''] w = (Inr r, w)
        \<and> pcode r = 0 \<and> h = digest E (pout r)"
    using rest by (auto split: if_splits)
qed

definition diag_golden :: "world \<Rightarrow> str \<Rightarrow> path" where
  "diag_golden w rel = joinp (golden w) (removesuffix rel ''.wax'' @ ''.diag.jsonl'')"

text \<open>What \<open>write_golden\<close> leaves on disk.\<close>

lemma write_golden_disk:
  assumes "write_golden res w = (Inr m, w2)"
  shows "m = \<lparr>bucket = cbucket res, reprint_code = creprint_code res, diag_code = cdiag_code res,
      wasm_sha256 = cwasm_sha256 res\<rparr>"
    and "golden w2 = golden w" "span_exempt w2 = span_exempt w" "corpus w2 = corpus w"
    and "creprint res = Some s \<Longrightarrow> disk w2 (reprint_golden w (cfile res)) = Some (utf8_encode s)"
    and "if cdiagnostics res = [] then disk w2 (diag_golden w (cfile res)) = disk w (diag_golden w (cfile res))
      else \<exists>t. golden_lines (cdiagnostics res) = Inr t
        \<and> disk w2 (diag_golden w (cfile res)) = Some (utf8_encode t)"
    and "q \<noteq> reprint_golden w (cfile res) \<Longrightarrow> q \<noteq> diag_golden w (cfile res) \<Longrightarrow> disk w2 q = disk w q"
proof -
  let ?g = "\<lambda>x. joinp (golden w) (removesuffix (cfile res) ''.wax'' @ x)"
  have ne: "?g ''.reprint'' \<noteq> ?g ''.diag.jsonl''" by (simp add: joinp_def)
  obtain w1 where w1: "write_reprint (removesuffix (cfile res) ''.wax'') (creprint res) w = (Inr (), w1)"
    and w2: "write_diagnostics (removesuffix (cfile res) ''.wax'') (cdiagnostics res) w1 = (Inr (), w2)"
    and m: "m = \<lparr>bucket = cbucket res, reprint_code = creprint_code res, diag_code = cdiag_code res,
      wasm_sha256 = cwasm_sha256 res\<rparr>"
    using assms by (auto simp: write_golden_def bindio_Inr_iff Let_def)
  have e1: "w1 = (case creprint res of None \<Rightarrow> w
      | Some s \<Rightarrow> w\<lparr>disk := (disk w)(?g ''.reprint'' \<mapsto> utf8_encode s)\<rparr>)"
    using w1 by (auto simp: write_reprint_def bindio_def golden_path_def write_text_def write_bytes_def
        set_disk_def split: option.splits)
  have e2: "if cdiagnostics res = [] then w2 = w1 else \<exists>t. golden_lines (cdiagnostics res) = Inr t
      \<and> w2 = w1\<lparr>disk := (disk w1)(joinp (golden w1) (removesuffix (cfile res) ''.wax'' @ ''.diag.jsonl'')
          \<mapsto> utf8_encode t)\<rparr>"
    using w2 by (auto simp: write_diagnostics_def bindio_def golden_path_def write_text_def
        write_bytes_def set_disk_def split: sum.splits if_splits)
  have g1: "golden w1 = golden w" by (simp add: e1 split: option.split)
  show "m = \<lparr>bucket = cbucket res, reprint_code = creprint_code res, diag_code = cdiag_code res,
      wasm_sha256 = cwasm_sha256 res\<rparr>" by (rule m)
  show "golden w2 = golden w" "span_exempt w2 = span_exempt w" "corpus w2 = corpus w"
    using e2 by (auto simp: e1 split: option.splits if_splits)
  show "creprint res = Some s \<Longrightarrow> disk w2 (reprint_golden w (cfile res)) = Some (utf8_encode s)"
    using e2 ne g1 by (auto simp: e1 reprint_golden_def split: if_splits)
  show "if cdiagnostics res = [] then disk w2 (diag_golden w (cfile res)) = disk w (diag_golden w (cfile res))
      else \<exists>t. golden_lines (cdiagnostics res) = Inr t
        \<and> disk w2 (diag_golden w (cfile res)) = Some (utf8_encode t)"
    using e2 ne g1 by (auto simp: e1 diag_golden_def split: if_splits option.splits)
  show "q \<noteq> reprint_golden w (cfile res) \<Longrightarrow> q \<noteq> diag_golden w (cfile res) \<Longrightarrow> disk w2 q = disk w q"
    using e2 g1 by (auto simp: e1 reprint_golden_def diag_golden_def split: if_splits option.splits)
qed

lemma normalize_twice:
  assumes "mapr normalize_file ds = Inr ns"
  shows "mapr normalize_file (map JObj ns) = Inr ns"
proof -
  have "list_all2 (\<lambda>d n. normalize_file d = Inr n) ds ns" using assms by (simp add: mapr_Inr_iff)
  then have "\<forall>n \<in> set ns. normalize_file (JObj n) = Inr n"
    by (induction rule: list_all2_induct)
      (auto simp: normalize_file_def as_obj_def bindr_Inr_iff normalize_obj_twice)
  then show ?thesis by (induction ns) auto
qed

text \<open>Diagnostics that can be written one per line: no number but integers, no U+0085.\<close>

definition line_safe :: "str \<Rightarrow> bool" where
  "line_safe s \<longleftrightarrow> (case parse_jsonl s of Inl e \<Rightarrow> False | Inr ds \<Rightarrow> list_all (\<lambda>d. jwf d \<and> no_nel d) ds)"

lemma golden_lines_back:
  assumes "line_safe s" and "golden_lines s = Inr t"
  shows "\<exists>ns. normalized s = Inr ns \<and> normalized (universal_newlines t) = Inr ns"
proof -
  obtain ds ns where ds: "parse_jsonl s = Inr ds" "list_all (\<lambda>d. jwf d \<and> no_nel d) ds"
    and ns: "mapr normalize_file ds = Inr ns" and t: "t = jsonl_text (map JObj ns)"
    using assms by (auto simp: line_safe_def golden_lines_def bindr_Inr_iff split: sum.splits)
  have "list_all2 (\<lambda>d n. normalize_file d = Inr n) ds ns" using ns by (simp add: mapr_Inr_iff)
  then have good: "\<forall>d \<in> set (map JObj ns). jwf d \<and> no_nel d" using ds(2)
  proof (induction rule: list_all2_induct)
    case (Cons d ds n ns)
    then obtain o' where "d = JObj o'" "n = normalize_obj o'"
      by (cases d) (auto simp: normalize_file_def as_obj_def)
    then show ?case using Cons normalize_keeps [of o'] by auto
  qed simp
  have "CR \<notin> set t" using jsonl.no_carriage_return [OF good] by (simp add: t jsonl_text_def)
  moreover have "parse_jsonl t = Inr (map JObj ns)"
    using jsonl.read_back [OF good] by (simp add: t parse_jsonl_def jsonl_text_def)
  ultimately show ?thesis using ds ns normalize_twice [OF ns]
    by (auto simp: normalized_def universal_newlines_id)
qed

lemma differs_refl [simp]: "\<not> differs d d f"
  by (simp add: differs_def)

lemma gate_fields_same: "gate_fields rel reason i d d fs so = Inr so"
  by (induction fs arbitrary: so) (auto split: prod.split)

lemma report_fields_same: "report_fields rel i d d fs out = out"
  by (induction fs) auto

lemma gate_pairs_same: "gate_pairs rel reason P i (zip ds ds) so = Inr so"
  by (induction ds arbitrary: i so) (auto simp: gate_fields_same report_fields_same split: prod.splits)

lemma compare_same:
  "reason = None \<or> self_test P \<Longrightarrow> compare_diags rel reason P m (diag_code m) ds ds out = pass out"
  by (auto simp: compare_diags_def gate_pairs_same)

lemma self_oracle1:
  assumes st: "\<And>q. steady E [reference E] q"
    and c: "classify_one E p w = (Inr res, w1)" and g: "write_golden res w1 = (Inr m, w2)"
    and src: "disk w2 p = disk w p"
    and how: "mode P (cbucket res) ''oracle1'' = Inr how" "\<not> is_skip how"
    and s: "creprint res = Some s"
    and utf8: "\<And>r. wax E [p, ''-f'', ''wax''] w = (Inr r, w) \<Longrightarrow> utf8_encode (decode (pout r)) = pout r"
    and stable: "stable_reprint E [reference E] (utf8_encode s) w2
        \<longleftrightarrow> cfile res \<notin> set non_idempotent_upstream"
  shows "fst (check_oracle1 E [reference E] (cfile res) p m P out w2) = Inr (pass out)"
proof -
  have w1: "w1 = w" by (rule classify_steady(1) [OF st c])
  note d = write_golden_disk [OF g]
  obtain r where r: "wax E [p, ''-f'', ''wax''] w = (Inr r, w)" "pcode r = 0" "s = decode (pout r)"
    using classify_steady(4) [OF st c s] by blast
  have r2: "wax E [p, ''-f'', ''wax''] w2 = (Inr r, w2)"
    by (rule steady_again(2) [OF st _ src r(1)]) (simp add: commands_def)
  have want: "disk w2 (reprint_golden w2 (cfile res)) = Some (pout r)"
    using d(5) [OF s] d(2) w1 utf8 [OF r(1)] r(3) by (simp add: reprint_golden_def)
  let ?tmp = "temp_file E ''.wax'' (disk w2)"
  let ?w3 = "w2\<lparr>disk := (disk w2)(?tmp \<mapsto> pout r)\<rparr>"
  obtain twice where t: "wax E [?tmp, ''-f'', ''wax''] ?w3 = (Inr twice, ?w3)"
    using steady_wax(3) [OF st commands_mem(1)] by blast
  have "stable_reprint E [reference E] (pout r) w2 \<longleftrightarrow> pcode twice = 0 \<and> pout twice = pout r"
    using t by (simp add: stable_reprint_def reprints_def converts_def wax_def Let_def)
  then have b: "(pcode twice = 0 \<and> pout twice = pout r) \<longleftrightarrow> cfile res \<notin> set non_idempotent_upstream"
    using stable utf8 [OF r(1)] r(3) by simp
  have ci: "fst (check_idempotent E [reference E] (cfile res) (pout r) out w2) = Inr (True, out)"
    using t b
    by (auto simp: check_idempotent_def bindio_def new_temp_file_def Let_def try_finally_def
          impl_is_reference unlink_def exists_file_def set_disk_def)
  then obtain w4 where "check_idempotent E [reference E] (cfile res) (pout r) out w2 = (Inr (True, out), w4)"
    by (metis run_eq)
  then show ?thesis using how r2 want r(2) d(1)
      by (simp add: check_oracle1_def bindio_def golden_path_def exists_file_def read_bytes_def
          impl_is_reference reprint_golden_def)
qed

lemma self_oracle2:
  assumes st: "\<And>q. steady E [reference E] q"
    and c: "classify_one E p w = (Inr res, w1)" and g: "write_golden res w1 = (Inr m, w2)"
    and src: "disk w2 p = disk w p"
    and how: "mode P (cbucket res) ''oracle2'' = Inr how" "\<not> is_skip how"
    and native: "oracle2_route P = native"
    and h: "cwasm_sha256 res = Some h" "h \<noteq> []"
  shows "fst (check_oracle2 E [reference E] (cfile res) p m P out w2) = Inr (pass out)"
proof -
  obtain r where r: "wax E [p, ''-f'', ''wasm'', ''-o'', ''-''] w = (Inr r, w)" "pcode r = 0"
    "h = digest E (pout r)"
    using classify_steady(5) [OF st c h(1)] by blast
  have r2: "wax E [p, ''-f'', ''wasm'', ''-o'', ''-''] w2 = (Inr r, w2)"
    by (rule steady_again(2) [OF st _ src r(1)]) simp
  show ?thesis using how native h r2 r write_golden_disk(1) [OF g]
    by (simp add: check_oracle2_def bindio_def impl_is_reference ladder_def)
qed

lemma self_oracle3:
  assumes st: "\<And>q. steady E [reference E] q"
    and c: "classify_one E p w = (Inr res, w1)" and g: "write_golden res w1 = (Inr m, w2)"
    and src: "disk w2 p = disk w p"
    and how: "mode P (cbucket res) ''oracle3'' = Inr how" "\<not> is_skip how" "how \<noteq> JStr ''no-errors''"
    and fresh: "disk w (diag_golden w (cfile res)) = None"
    and safe: "line_safe (cdiagnostics res)"
    and listed: "dget (span_exempt w) (cfile res) = None \<or> self_test P"
  shows "fst (check_oracle3 E [reference E] (cfile res) p m P out w2) = Inr (pass out)"
proof -
  have w1: "w1 = w" by (rule classify_steady(1) [OF st c])
  note d = write_golden_disk [OF g]
  obtain r where r: "wax E [''check'', ''--error-format'', ''json'', p] w = (Inr r, w)"
    "pcode r = cdiag_code res" "decode (perr r) = cdiagnostics res"
    using classify_steady(3) [OF st c] by blast
  have r2: "wax E [''check'', ''--error-format'', ''json'', p] w2 = (Inr r, w2)"
    by (rule steady_again(2) [OF st _ src r(1)]) simp
  obtain ns where n: "normalized (cdiagnostics res) = Inr ns"
    and rd: "read_golden_diags (cfile res) w2 = (Inr ns, w2)"
  proof (cases "cdiagnostics res = []")
    case True
    then have "disk w2 (diag_golden w (cfile res)) = None" using d(6) w1 fresh by simp
    then have "read_golden_diags (cfile res) w2 = (Inr [], w2)"
      using d(2) w1 by (simp add: read_golden_diags_def golden_path_def exists_file_def diag_golden_def bindio_def)
    then show ?thesis using True that [of "[]"] by (simp add: normalized_def parse_jsonl_def)
  next
    case False
    then obtain t where t: "golden_lines (cdiagnostics res) = Inr t"
      and dw: "disk w2 (diag_golden w (cfile res)) = Some (utf8_encode t)"
      using d(6) w1 by auto
    obtain ns where ns: "normalized (cdiagnostics res) = Inr ns"
      "normalized (universal_newlines t) = Inr ns"
      using golden_lines_back [OF safe t] by blast
    have "read_golden_diags (cfile res) w2 = (Inr ns, w2)"
      using d(2) w1 dw ns(2)
      by (simp add: read_golden_diags_def golden_path_def exists_file_def diag_golden_def
          bindio_def read_text_def read_bytes_def)
    then show ?thesis using that ns(1) by blast
  qed
  have m: "diag_code m = cdiag_code res" "bucket m = cbucket res" using d(1) by simp_all
  have l: "dget (span_exempt w2) (cfile res) = None \<or> self_test P" using listed d(3) w1 by simp
  show ?thesis
    using how rd r2 n r m compare_same [OF l, of "cfile res" m ns out]
    by (simp add: check_oracle3_def bindio_def impl_is_reference exemption_def)
qed

section \<open>Properties\<close>

definition demo_class :: classification where
  "demo_class = \<lparr>cfile = ''a.wax'', cbucket = compiles_clean, creprint_code = 0, cdiag_code = 0,
     creprint = Some (''x;'' @ [LF]), cdiagnostics = [], cwasm_sha256 = Some ''wasm:x;''\<rparr>"

text \<open>
  C22: the three bucket counts \<open>golden\<close> prints add up to the total it prints.
\<close>

theorem golden_counts_add_up:
  assumes "fst (cmd_golden E w) = Inr lines"
  shows "\<exists>a b c. lines = [(syntax_bad, a), (compiles_clean, b), (type_bad, c), (''total'', a + b + c)]"
proof -
  obtain files index w1 w2 where "golden_loop E files [] w1 = (Inr index, w2)"
    and l: "lines = bucket_report (counts_of (map (bucket \<circ> snd) index)) (length index)"
    using run_eq [OF assms] by (auto simp: cmd_golden_def bindio_Inr_iff split: if_splits)
  then have "\<forall>m \<in> snd ` set index. bucketed (bucket m)"
    using ensuresD [OF golden_loop_buckets [of "[]"]] by (fastforce simp: dkeys_def)
  then show ?thesis
    using sum_counts [of "map (bucket \<circ> snd) index"] by (simp add: l bucket_report_def)
qed

text \<open>
  C23: the index written by \<open>golden\<close> is read back by \<open>run\<close> and \<open>fuzz\<close> as the same entries, in
  the order of the file names.
\<close>

theorem index_roundtrip:
  assumes "fst (write_index E index w) = Inr ()" and "distinct (dkeys index)"
    and "fst (bindio (read_text (joinp (root E) ''tools/reference.json'')) (\<lambda>s. lift (loads s)) w) = Inr (JObj r)"
    and "jwf (JObj r)"
  shows "fst (load_index E (snd (write_index E index w))) = Inr (sort_items index)"
proof -
  obtain s where s: "read_text (joinp (root E) ''tools/reference.json'') w = (Inr s, w)"
    and r: "loads s = Inr (JObj r)"
    using run_eq [OF assms(3)]
    by (auto simp: bindio_Inr_iff read_text_def read_bytes_def split: option.splits)
  obtain w' sha where w: "write_index E index w = (Inr (), w')" and sha: "dget r ''sha256'' = Some sha"
    and w': "w' = w\<lparr>disk := (disk w)(joinp (golden w) ''index.json''
      \<mapsto> utf8_encode (dumps Indent2 (index_json sha index) @ [LF]))\<rparr>"
    using run_eq [OF assms(1)] s r
    by (auto simp: write_index_def bindio_def golden_path_def write_text_def write_bytes_def
        set_disk_def obj_item_def dindex_def split: sum.splits option.splits)
  have "jwf sha" using assms(4) map_of_SomeD [OF sha] by (auto simp: list_all_iff)
  then have "load_index E w' = (Inr (sort_items index), w')"
    by (rule index_back [OF _ assms(2)]) (simp add: w')
  then show ?thesis by (simp add: w)
qed

definition demo_pin :: "(str, json) dict" where
  "demo_pin = [(''asset'', JStr ''ref.bin''), (''sha256'', JStr ''ab'')]"

definition demo_pinned :: world where
  "demo_pinned = demo_world\<lparr>disk := (disk demo_world)
     (''/tools/reference.json'' \<mapsto> dumps Compact (JObj demo_pin), ''/tools/ref.bin'' \<mapsto> [])\<rparr>"

theorem index_roundtrip_witness:
  "fst (load_index demo_env (snd (write_index demo_env
      [(''b.wax'', demo_bad_meta), (''a.wax'', demo_meta)] demo_pinned)))
    = Inr (sort_items [(''b.wax'', demo_bad_meta), (''a.wax'', demo_meta)])"
  by (rule index_roundtrip [where r = demo_pin]) code_simp+

theorem golden_counts_add_up_witness:
  "\<exists>a b c. [(''syntax-bad'', 1), (''compiles-clean'', 1), (''type-bad'', 0), (''total'', 2)]
     = [(syntax_bad, a), (compiles_clean, b), (type_bad, c), (''total'', a + b + (c::nat))]"
  by (rule golden_counts_add_up [of demo_env demo_pinned]) code_simp

text \<open>
  C17: the self test.  A file the reference compiles, recorded by \<open>write_golden\<close> and then graded
  with the reference itself as the implementation, passes oracles 1, 2 (native route) and 3,
  provided its output is UTF-8 and stable (or listed as unstable) and its diagnostics can be
  written one per line.
\<close>

theorem self_test_passes:
  assumes "\<And>q. steady E [reference E] q"
    and "classify_one E p w = (Inr res, w1)" and "write_golden res w1 = (Inr m, w2)"
    and "disk w2 p = disk w p" and "disk w (diag_golden w (cfile res)) = None"
    and "\<And>k. k \<in> {''oracle1'', ''oracle2'', ''oracle3''} \<Longrightarrow>
      mode P (cbucket res) k = Inr (JStr ''match'')"
    and "oracle2_route P = native" and "self_test P"
    and "creprint res = Some s" and "cwasm_sha256 res = Some h" and "h \<noteq> []"
    and "\<And>r. wax E [p, ''-f'', ''wax''] w = (Inr r, w) \<Longrightarrow> utf8_encode (decode (pout r)) = pout r"
    and "stable_reprint E [reference E] (utf8_encode s) w2
        \<longleftrightarrow> cfile res \<notin> set non_idempotent_upstream"
    and "line_safe (cdiagnostics res)"
  shows "fst (check_oracle1 E [reference E] (cfile res) p m P out w2) = Inr (pass out)
    \<and> fst (check_oracle2 E [reference E] (cfile res) p m P out w2) = Inr (pass out)
    \<and> fst (check_oracle3 E [reference E] (cfile res) p m P out w2) = Inr (pass out)"
proof (intro conjI)
  have match: "\<not> is_skip (JStr ''match'')" "JStr ''match'' \<noteq> JStr ''no-errors''"
    by (simp_all add: is_skip_def)
  show "fst (check_oracle1 E [reference E] (cfile res) p m P out w2) = Inr (pass out)"
    by (rule self_oracle1 [OF assms(1-4) assms(6) match(1) assms(9,12,13)]) simp
  show "fst (check_oracle2 E [reference E] (cfile res) p m P out w2) = Inr (pass out)"
    by (rule self_oracle2 [OF assms(1-4) assms(6) match(1) assms(7,10,11)]) simp
  show "fst (check_oracle3 E [reference E] (cfile res) p m P out w2) = Inr (pass out)"
    by (rule self_oracle3 [OF assms(1-4) assms(6) match assms(5,14)]) (use assms(8) in simp_all)
qed

lemma demo_steady: "steady demo_env [reference demo_env] q"
  by (auto simp: steady_def commands_def demo_env_def demo_exec_def capped_def demo_format_def
      demo_check_def demo_compile_def Let_def split: option.splits)

theorem self_test_passes_witness:
  "fst (check_oracle1 demo_env [reference demo_env] ''a.wax'' ''c/a.wax'' demo_meta
      (demo_policy\<lparr>self_test := True\<rparr>) no_outcome (snd (write_golden demo_class demo_world)))
    = Inr (pass no_outcome)"
proof -
  have c: "classify_one demo_env ''c/a.wax'' demo_world = (Inr demo_class, demo_world)"
  proof -
    have f: "fst (classify_one demo_env ''c/a.wax'' demo_world) = Inr demo_class" by code_simp
    show ?thesis using run_eq [OF f] classify_steady(1) [OF demo_steady run_eq [OF f]] by simp
  qed
  have g: "write_golden demo_class demo_world = (Inr demo_meta, snd (write_golden demo_class demo_world))"
    by (rule run_eq) code_simp
  have r: "utf8_encode (decode (pout r)) = pout r"
    if "wax demo_env [''c/a.wax'', ''-f'', ''wax''] demo_world = (Inr r, demo_world)" for r
  proof -
    have "fst (wax demo_env [''c/a.wax'', ''-f'', ''wax''] demo_world)
        = Inr \<lparr>pcode = 0, pout = ''x;'' @ [LF], perr = []\<rparr>" by code_simp
    then have "r = \<lparr>pcode = 0, pout = ''x;'' @ [LF], perr = []\<rparr>" using that by simp
    then show ?thesis by simp code_simp
  qed
  have m: "mode (demo_policy\<lparr>self_test := True\<rparr>) (cbucket demo_class) k = Inr (JStr ''match'')"
    if "k \<in> {''oracle1'', ''oracle2'', ''oracle3''}" for k
    using that by (elim insertE emptyE; simp only:; code_simp)
  have n: "cfile demo_class = ''a.wax''" by code_simp
  have "fst (check_oracle1 demo_env [reference demo_env] (cfile demo_class) ''c/a.wax'' demo_meta
      (demo_policy\<lparr>self_test := True\<rparr>) no_outcome (snd (write_golden demo_class demo_world)))
    = Inr (pass no_outcome) \<and> 
      fst (check_oracle2 demo_env [reference demo_env] (cfile demo_class) ''c/a.wax'' demo_meta
      (demo_policy\<lparr>self_test := True\<rparr>) no_outcome (snd (write_golden demo_class demo_world)))
    = Inr (pass no_outcome) \<and> 
      fst (check_oracle3 demo_env [reference demo_env] (cfile demo_class) ''c/a.wax'' demo_meta
      (demo_policy\<lparr>self_test := True\<rparr>) no_outcome (snd (write_golden demo_class demo_world)))
    = Inr (pass no_outcome)"
  proof (rule self_test_passes [OF demo_steady c g])
    show "disk (snd (write_golden demo_class demo_world)) ''c/a.wax'' = disk demo_world ''c/a.wax''" by code_simp
    show "disk demo_world (diag_golden demo_world (cfile demo_class)) = None" by code_simp
    show "oracle2_route (demo_policy\<lparr>self_test := True\<rparr>) = native" by code_simp
    show "self_test (demo_policy\<lparr>self_test := True\<rparr>)" by code_simp
    show "creprint demo_class = Some (''x;'' @ [LF])" by code_simp
    show "cwasm_sha256 demo_class = Some ''wasm:x;''" by code_simp
    show "''wasm:x;'' \<noteq> []" by simp
    show "stable_reprint demo_env [reference demo_env] (utf8_encode (''x;'' @ [LF]))
        (snd (write_golden demo_class demo_world))
      \<longleftrightarrow> cfile demo_class \<notin> set non_idempotent_upstream" by code_simp
    show "line_safe (cdiagnostics demo_class)" by code_simp
  qed (use m r in auto)
  then show ?thesis unfolding n by blast
qed

text \<open>
  C24: the diagnostics recorded for a file are read back by oracle 3 as the normalised
  diagnostics of the reference.
\<close>

theorem diagnostics_roundtrip:
  assumes "fst (write_diagnostics (removesuffix rel ''.wax'') s w) = Inr ()"
    and "s \<noteq> []" and "line_safe s"
  shows "fst (read_golden_diags rel (snd (write_diagnostics (removesuffix rel ''.wax'') s w))) = normalized s"
proof -
  obtain t where t: "golden_lines s = Inr t"
    and w': "snd (write_diagnostics (removesuffix rel ''.wax'') s w)
      = w\<lparr>disk := (disk w)(diag_golden w rel \<mapsto> utf8_encode t)\<rparr>"
    using run_eq [OF assms(1)] assms(2)
    by (auto simp: write_diagnostics_def bindio_def golden_path_def write_text_def write_bytes_def
        set_disk_def diag_golden_def split: sum.splits)
  obtain ns where n: "normalized s = Inr ns" "normalized (universal_newlines t) = Inr ns"
    using golden_lines_back [OF assms(3) t] by blast
  show ?thesis unfolding w'
    by (simp add: read_golden_diags_def golden_path_def exists_file_def bindio_def read_text_def
        read_bytes_def diag_golden_def n)
qed

theorem diagnostics_roundtrip_witness:
  "fst (read_golden_diags ''b.wax'' (snd (write_diagnostics (removesuffix ''b.wax'' ''.wax'')
      (demo_diag ''/home/x/test/corpus/b.wax'') demo_world)))
    = normalized (demo_diag ''/home/x/test/corpus/b.wax'')"
  by (rule diagnostics_roundtrip) code_simp+

text \<open>
  That condition is needed.  A message that spells U+0085 as an escape is accepted from the
  reference, is written as the character itself, and the file it is written to is no longer
  JSON, line by line.
\<close>

lemma golden_line_breaks:
  "\<exists>s t. parse_jsonl s = Inr [JObj [(''message'', JStr [NEL])]] \<and> golden_lines s = Inr t
    \<and> parse_jsonl t = Inl JSONDecodeError"
proof -
  let ?q = "\<lambda>s. [DQ] @ s @ [DQ]"
  let ?s = "''{'' @ ?q ''message'' @ '':'' @ ?q ([BSL] @ ''u0085'') @ ''}'' @ [LF]"
  let ?t = "''{'' @ ?q ''message'' @ '':'' @ ?q [NEL] @ ''}'' @ [LF]"
  have "parse_jsonl ?s = Inr [JObj [(''message'', JStr [NEL])]]" by code_simp
  moreover have "golden_lines ?s = Inr ?t" by code_simp
  moreover have "parse_jsonl ?t = Inl JSONDecodeError" by code_simp
  ultimately show ?thesis by blast
qed

end
