(* ===== verification/Demo_Project.thy ===== *)
theory Demo_Project
  imports Golden
begin

text \<open>
  A project of two corpus files, complete with its pinned reference, policy and index, on which
  the properties of the commands are instantiated, and what the commands read back from a
  file that holds a JSON document.
\<close>

section \<open>Reading the project's JSON files\<close>

lemma json_file:
  assumes "jwf j" and "disk w p = Some (utf8_encode (dumps l j @ [LF]))"
  obtains s where "read_text p w = (Inr s, w)" and "loads s = Inr j"
  using text_file_back [OF assms] by (auto simp: bindio_Inr_iff)

lemma policy_back:
  assumes "jwf j" and "disk w (joinp (root E) ''test/oracle-policy.json'') = Some (utf8_encode (dumps l j @ [LF]))"
  shows "load_policy E sc w = (policy_of sc j, w)"
  by (rule json_file [OF assms]) (simp add: load_policy_def bindio_def)

lemma reference_back:
  assumes "jwf (JObj r)"
    and "disk w (joinp (root E) ''tools/reference.json'') = Some (utf8_encode (dumps l (JObj r) @ [LF]))"
    and "dget r ''asset'' = Some (JStr a)"
    and "disk w (reference E) \<noteq> None" and "disk w (joinp (root E) (''tools/'' @ a)) \<noteq> None"
  shows "need_reference E w = (Inr (), w)"
  by (rule json_file [OF assms(1,2)])
    (use assms in \<open>simp add: need_reference_def bindio_def obj_item_def dindex_def exists_file_def\<close>)

section \<open>The example\<close>

definition project_policy :: json where
  "project_policy = JObj
     [(''scope'', JStr ''s''),
      (''scopes'', JObj [(''s'', JObj [(''syntax-bad'', demo_modes), (''compiles-clean'', demo_modes)])]),
      (''gated_fields'', JArr [JStr ''severity'']), (''reported_fields'', JArr [])]"

definition project_index :: "(str \<times> meta) list" where
  "project_index = [(''a.wax'', demo_meta), (''b.wax'', demo_bad_meta)]"

definition project :: world where
  "project = demo_world\<lparr>disk := (disk demo_world)
     (''/tools/reference.json'' \<mapsto> utf8_encode (dumps Compact (JObj demo_pin) @ [LF]),
      ''/tools/ref.bin'' \<mapsto> [],
      ''/test/oracle-policy.json'' \<mapsto> utf8_encode (dumps Compact project_policy @ [LF]),
      ''g/index.json'' \<mapsto> utf8_encode (dumps Indent2 (index_json JNull project_index) @ [LF]))\<rparr>"

definition project_modes :: policy where
  "project_modes = \<lparr>buckets = [(''syntax-bad'', demo_modes), (''compiles-clean'', demo_modes)],
     gated = [''severity''], reported = [], oracle2_route = via_reference, self_test = False\<rparr>"

lemma project_loads:
  assumes "root E = []"
  shows "load_policy E None project = (Inr project_modes, project)"
    and "load_index E project = (Inr project_index, project)"
    and "need_reference E project = (Inr (), project)"
proof -
  have "policy_of None project_policy = Inr project_modes" by code_simp
  then show "load_policy E None project = (Inr project_modes, project)"
    by (subst policy_back [of project_policy _ _ Compact])
      (simp_all add: project_policy_def demo_modes_def project_def assms joinp_def)
  have "sort_items project_index = project_index" by code_simp
  then show "load_index E project = (Inr project_index, project)"
    by (subst index_back [of JNull project_index])
      (simp_all add: dkeys_def project_index_def project_def demo_world_def joinp_def)
  show "need_reference E project = (Inr (), project)"
    by (rule reference_back [of demo_pin _ _ Compact "''ref.bin''"])
      (simp_all add: demo_pin_def project_def demo_world_def joinp_def assms reference_def)
qed

end
