(* ===== verification/Py_Repr.thy ===== *)
theory Py_Repr
  imports Json
begin

text \<open>
  \<open>repr\<close> of strings and of decoded JSON values, which the f-strings of the tools interpolate with
  \<open>!r\<close>, and the padding of formatted columns.
\<close>

text \<open>\<open>repr\<close> of a string: the quote that needs no escape, and \<open>\x\<close> escapes for what is not printable.\<close>

definition printable :: "char \<Rightarrow> bool" where
  "printable c \<longleftrightarrow> (let n = code c in 32 \<le> n \<and> n \<le> 126 \<or> 161 \<le> n \<and> n \<noteq> 173)"

definition repr_char :: "char \<Rightarrow> char \<Rightarrow> str" where
  "repr_char q c =
     (if c = q \<or> c = BSL then [BSL, c]
      else if c = LF then [BSL, CHR ''n''] else if c = CR then [BSL, CHR ''r'']
      else if c = TAB then [BSL, CHR ''t'']
      else if printable c then [c]
      else [BSL, CHR ''x'', hex_digit (code c div 16), hex_digit (code c mod 16)])"

definition repr_str :: "str \<Rightarrow> str" where
  "repr_str s = (let q = (if SQ \<in> set s \<and> DQ \<notin> set s then DQ else SQ)
     in [q] @ concat (map (repr_char q) s) @ [q])"

fun repr_json :: "json \<Rightarrow> str" where
  "repr_json JNull = ''None''"
| "repr_json (JBool b) = (if b then ''True'' else ''False'')"
| "repr_json (JInt i) = str_int i"
| "repr_json (JFloat s) = s"
| "repr_json (JStr s) = repr_str s"
| "repr_json (JArr vs) = ''['' @ join '', '' (map repr_json vs) @ '']''"
| "repr_json (JObj kvs) =
     ''{'' @ join '', '' (map (\<lambda>(k, v). repr_str k @ '': '' @ repr_json v) kvs) @ ''}''"

definition ljust :: "nat \<Rightarrow> str \<Rightarrow> str" where
  "ljust n s = s @ replicate (n - length s) CHR '' ''"

definition rjust :: "nat \<Rightarrow> str \<Rightarrow> str" where
  "rjust n s = replicate (n - length s) CHR '' '' @ s"

end
