(* ===== verification/Run_Report.thy ===== *)
theory Run_Report
  imports Demo_Project Py_Repr
begin

text \<open>
  The \<open>run\<close> command of \<open>tools/waxdiff.py\<close> (1055--1219): every corpus file is graded by the
  selected oracles, the outcomes are added up, and the reports are written.  The files are graded
  one after another; the thread pool of the code returns the results in the same order.
  \<open>difflib.unified_diff\<close> is the parameter \<open>ud\<close>, from the two lists of lines to the lines of the
  difference.
\<close>

type_synonym unified_diff = "str list \<Rightarrow> str list \<Rightarrow> str list"

section \<open>The text of a report\<close>

definition text_diff :: "unified_diff \<Rightarrow> bytes \<Rightarrow> bytes \<Rightarrow> str" where
  "text_diff ud want got =
     (let d = ud (splitlines (decode want)) (splitlines (decode got))
      in if d \<noteq> [] then join [LF] (take 60 d) else ''(differs only in trailing bytes)'')"

fun rung_text :: "unified_diff \<Rightarrow> rung \<Rightarrow> str" where
  "rung_text ud ToolsMissing = ''T0/T1: skipped, wasm-tools not found''"
| "rung_text ud (T0Invalid e) = ''T0 invalid: '' @ e"
| "rung_text ud T0Valid = ''T0 valid''"
| "rung_text ud T1NoReference = ''T1: skipped, reference binary absent''"
| "rung_text ud (T1ReferenceExited c) = ''T1: skipped, reference exited '' @ str_int c"
| "rung_text ud T1NoPrint = ''T1: skipped, strip/print failed''"
| "rung_text ud T1Equal = ''T1 equal (differs only in custom sections)''"
| "rung_text ud (T1Differs theirs ours) = ''T1 differs:'' @ [LF] @ text_diff ud theirs ours"

fun detail_text :: "unified_diff \<Rightarrow> detail \<Rightarrow> str" where
  "detail_text ud (ExitedWith c e) = ''exited '' @ str_int c @ '': '' @ e"
| "detail_text ud (TextDiff want got) = text_diff ud want got"
| "detail_text ud NowStable =
     ''listed in NON_IDEMPOTENT_UPSTREAM but now stable; if upstream '' @
     ''fixed this, drop the entry and the finding''"
| "detail_text ud (BinaryDiffers want got rungs) = join [LF]
     ((''binary differs (want '' @ want @ '', got '' @ got @ '')'') # map (rung_text ud) rungs)"
| "detail_text ud (BackEndExited c e) = ''our back end exited '' @ str_int c @ '': '' @ e"
| "detail_text ud (ReprintExited c) = ''reprint exited '' @ str_int c"
| "detail_text ud (DoesNotCompile e) = ''our output does not compile: '' @ e"
| "detail_text ud (ErrorsReported n b msg) = ''reported '' @ str_nat n @ '' error(s) on a '' @ b
     @ '' file, which parses cleanly; first: '' @ repr_json msg"
| "detail_text ud (WrongExit c want) = ''exit '' @ str_int c @ '', want '' @ str_int want"
| "detail_text ud (WrongCount n want) = str_nat n @ '' diagnostic(s), want '' @ str_nat want"
| "detail_text ud (WrongField i f got want) = ''diagnostic '' @ str_nat i @ '' field '' @ f
     @ '': got '' @ repr_json got @ '', want '' @ repr_json want"
| "detail_text ud (StaleExemption reason) = ''listed in SPAN_EXEMPT as '' @ reason
     @ '' but the spans now agree; drop the entry and the finding it names''"
| "detail_text ud (NonJson e) = ''non-JSON diagnostics:'' @ [LF] @ e"

fun drift_text :: "unified_diff \<Rightarrow> drift \<Rightarrow> str" where
  "drift_text ud (T0Note rel) = ''## '' @ rel @ [LF, LF] @ ''T0 invalid'' @ [LF]"
| "drift_text ud (T1Note rel) = ''## '' @ rel @ [LF, LF] @ ''T1 equal: custom sections only'' @ [LF]"
| "drift_text ud (FieldDrift rel i f reason want got) =
     rel @ '' #'' @ str_nat i @ '' '' @ f
     @ (case reason of None \<Rightarrow> [] | Some r \<Rightarrow> '' ('' @ r @ '')'')
     @ [LF] @ ''  ref: '' @ repr_json want @ [LF] @ ''  ours: '' @ repr_json got"
| "drift_text ud (NotPrinted rel e) = ''### '' @ rel @ [LF, LF] @ ''not printed: '' @ e"
| "drift_text ud (WatDiffers rel theirs ours) =
     ''### '' @ rel @ [LF, LF] @ ''```'' @ [LF] @ text_diff ud theirs ours @ [LF] @ ''```''"

definition first :: "int \<Rightarrow> 'a list \<Rightarrow> 'a list" where
  \<comment> \<open>\<open>xs[:n]\<close>\<close>
  "first n xs = (if 0 \<le> n then take (nat n) xs else take (length xs - nat (- n)) xs)"

text \<open>The results so far, by oracle; every oracle starts with an empty outcome.\<close>

definition tally :: "(nat, outcome) dict \<Rightarrow> nat \<Rightarrow> outcome" where
  "tally results k = (case dget results k of None \<Rightarrow> no_outcome | Some r \<Rightarrow> r)"

lemma tally_dset [simp]: "tally (dset k r results) j = (if j = k then r else tally results j)"
  by (simp add: tally_def)

lemma tally_Nil [simp]: "tally [] k = no_outcome"
  by (simp add: tally_def)

definition oracle_name :: "nat \<Rightarrow> str" where
  "oracle_name k = (if k = 1 then ''reprint parity'' else if k = 2 then ''wasm equivalence''
     else if k = 3 then ''error parity'' else ''text parity'')"

definition summary_line :: "nat \<Rightarrow> outcome \<Rightarrow> str" where
  "summary_line k r = ''  oracle '' @ str_nat k @ ''  '' @ ljust 18 (oracle_name k)
     @ '' pass '' @ rjust 5 (str_nat (passed r)) @ ''  fail '' @ rjust 5 (str_nat (failed r))
     @ ''  skip '' @ rjust 5 (str_nat (skipped r))"

definition failure_section :: "unified_diff \<Rightarrow> failure \<Rightarrow> bytes" where
  \<comment> \<open>UTF-8; the three bytes between the names are a dash\<close>
  "failure_section ud f = utf8_encode (''## '' @ ffile f @ '' '')
     @ [CHR 0xE2, CHR 0x80, CHR 0x94]
     @ utf8_encode ('' '' @ foracle f @ [LF, LF] @ ''```'' @ [LF] @ detail_text ud (fdetail f)
         @ [LF] @ ''```'' @ [LF, LF])"

definition failures_report :: "unified_diff \<Rightarrow> int \<Rightarrow> nat list \<Rightarrow> (nat, outcome) dict \<Rightarrow> bytes" where
  "failures_report ud cap os results = utf8_encode (''# waxdiff failures'' @ [LF, LF])
     @ concat (map (\<lambda>k. concat (map (failure_section ud) (first cap (failures (tally results k))))) os)"

definition message_header :: str where
  "message_header = ''# Diagnostic message drift (non-blocking)'' @ [LF, LF]
     @ ''Spans and severity are gated; wording is not, yet. Each entry is a'' @ [LF]
     @ ''message this port words differently from the reference.'' @ [LF, LF]"

definition ladder_header :: str where
  "ladder_header = ''# Wasm ladder (non-blocking)'' @ [LF, LF]
     @ ''T2 -- sha256 against the goldens -- is the gate and is reported above.'' @ [LF]
     @ ''These are the T0/T1 verdicts for the files that missed it: whether the'' @ [LF]
     @ ''bytes validate, and whether they match the reference once every custom'' @ [LF]
     @ ''section is stripped from both sides.'' @ [LF, LF]"

definition wat_header :: str where
  "wat_header = ''# Text-format parity (non-blocking)'' @ [LF, LF]
     @ ''`-f wat` against the reference'' @ [SQ] @ ''s. Not a gate yet: the printer'' @ [LF]
     @ ''reaches most of the corpus and not all of it, and a gate that'' @ [LF]
     @ ''fails every run says nothing on the run where something breaks.'' @ [LF, LF]"

definition drift_report :: "unified_diff \<Rightarrow> str \<Rightarrow> int \<Rightarrow> drift list \<Rightarrow> str" where
  "drift_report ud header cap ds =
     header @ join [LF, LF] (map (drift_text ud) (first cap ds)) @ [LF]"

section \<open>The command\<close>

record run_args =
  rimpl :: str
  rscope :: "str option"
  rroute :: str
  roracles :: "nat list"
  rself_test :: bool
  rfilter :: "str option"
  rmax_report :: int

text \<open>The reference has a type checker, so the self test skips what asserts that there is none.\<close>

definition relax :: "json \<Rightarrow> json" where
  "relax v = (case v of
      JObj d \<Rightarrow> if dget d ''oracle3'' = Some (JStr ''no-errors'')
               then JObj (dset ''oracle3'' (JStr ''skip'') d) else v
    | _ \<Rightarrow> v)"

definition self_test_policy :: "policy \<Rightarrow> policy" where
  "self_test_policy P = P\<lparr>self_test := True,
     buckets := map (\<lambda>(b, v). (b, relax v)) (buckets P), oracle2_route := native\<rparr>"

definition selected :: "run_args \<Rightarrow> nat list" where
  \<comment> \<open>\<open>args.oracle or [1, 2, 3]\<close>\<close>
  "selected A = (if roracles A = [] then [1, 2, 3] else roracles A)"

definition chosen_files :: "str option \<Rightarrow> (str \<times> meta) list \<Rightarrow> (str \<times> meta) list" where
  "chosen_files flt index = (case flt of
      None \<Rightarrow> sort_items index
    | Some x \<Rightarrow> if x = [] then sort_items index
               else filter (\<lambda>(r, m). contains r x) (sort_items index))"

definition check_of ::
    "nat \<Rightarrow> env \<Rightarrow> str list \<Rightarrow> str \<Rightarrow> path \<Rightarrow> meta \<Rightarrow> policy \<Rightarrow> outcome \<Rightarrow> outcome io" where
  "check_of k = (if k = 1 then check_oracle1 else if k = 2 then check_oracle2
     else if k = 3 then check_oracle3 else check_oracle4)"

text \<open>One file: \<open>None\<close> when it is not there, else the outcome of each selected oracle.\<close>

definition one ::
    "env \<Rightarrow> str list \<Rightarrow> policy \<Rightarrow> nat list \<Rightarrow> str \<times> meta \<Rightarrow> (nat \<times> outcome) list option io" where
  "one E impl P os item =
     bindio (corpus_path (fst item)) (\<lambda>p.
     bindio (exists_file p) (\<lambda>there.
     if \<not> there then ret None
     else bindio (mapio (\<lambda>k. bindio (check_of k E impl (fst item) p (snd item) P no_outcome)
                        (\<lambda>out. ret (k, out)))
                   (filter (\<lambda>k. k \<in> set os) [1, 2, 3, 4])) (\<lambda>local. ret (Some local))))"

definition add_outcome :: "outcome \<Rightarrow> outcome \<Rightarrow> outcome" where
  "add_outcome r l = \<lparr>passed = passed r + passed l, failed = failed r + failed l,
     skipped = skipped r + skipped l, failures = failures r @ failures l,
     drifts = drifts r @ drifts l\<rparr>"

fun merge :: "nat list \<Rightarrow> (nat \<times> outcome) list \<Rightarrow> (nat, outcome) dict \<Rightarrow> (nat, outcome) dict res" where
  \<comment> \<open>once per element of the selection, also when it names an oracle twice\<close>
  "merge [] local results = Inr results"
| "merge (k # os) local results = (case dget local k of
      None \<Rightarrow> Inl (KeyError (str_nat k))
    | Some l \<Rightarrow> merge os local (dset k (add_outcome (tally results k) l) results))"

fun run_files ::
    "env \<Rightarrow> str list \<Rightarrow> policy \<Rightarrow> nat list \<Rightarrow> (str \<times> meta) list \<Rightarrow> (nat, outcome) dict \<Rightarrow>
     (nat, outcome) dict io" where
  "run_files E impl P os [] results = ret results"
| "run_files E impl P os (f # fs) results =
     bindio (one E impl P os f) (\<lambda>local. case local of
       None \<Rightarrow> run_files E impl P os fs results
     | Some l \<Rightarrow> bindio (lift (merge os l results)) (run_files E impl P os fs))"

definition failed_total :: "nat list \<Rightarrow> (nat, outcome) dict \<Rightarrow> nat" where
  \<comment> \<open>oracle 4 is counted with the others and taken off once\<close>
  "failed_total os results =
     sum_list (map (\<lambda>k. failed (tally results k)) os) - (if 4 \<in> set os then failed (tally results 4) else 0)"

definition drift_of :: "nat \<Rightarrow> nat list \<Rightarrow> (nat, outcome) dict \<Rightarrow> drift list" where
  "drift_of k os results = (if k \<in> set os then drifts (tally results k) else [])"

definition write_reports ::
    "env \<Rightarrow> unified_diff \<Rightarrow> int \<Rightarrow> nat list \<Rightarrow> (nat, outcome) dict \<Rightarrow> unit io" where
  "write_reports E ud cap os results =
     bindio (write_bytes (joinp (report E) ''failures.md'') (failures_report ud cap os results)) (\<lambda>_.
     bindio (write_text (joinp (report E) ''message-drift.md'')
       (drift_report ud message_header cap (drift_of 3 os results))) (\<lambda>_.
     bindio (write_text (joinp (report E) ''wasm-drift.md'')
       (drift_report ud ladder_header cap (drift_of 2 os results))) (\<lambda>_.
     if 4 \<in> set os then write_text (joinp (report E) ''wat-drift.md'')
       (drift_report ud wat_header cap (drifts (tally results 4))) else ret ())))"

definition drift_lines :: "unified_diff \<Rightarrow> nat list \<Rightarrow> (nat, outcome) dict \<Rightarrow> str list" where
  "drift_lines ud os results =
     (let d = drift_of 3 os results; w = drift_of 2 os results; t = drift_of 4 os results in
      (if d \<noteq> [] then [''  message drift: '' @ str_nat (length d) @ '' (see test/report/message-drift.md)''] else [])
      @ (if w \<noteq> [] then [''  wasm ladder: '' @ str_nat (length w) @ '' noted, ''
           @ str_nat (length (filter (\<lambda>x. contains (drift_text ud x) ''T1 equal'') w))
           @ '' differing only in custom sections (see test/report/wasm-drift.md)''] else [])
      @ (if t \<noteq> [] then [''  wat drift: '' @ str_nat (length t) @ '' (see test/report/wat-drift.md)''] else []))"

definition verdict_lines :: "nat \<Rightarrow> str list" where
  "verdict_lines n = (if n = 0 then []
     else [[LF] @ ''  '' @ str_nat n @ '' failure(s); see test/report/failures.md''])"

definition run_policy :: "run_args \<Rightarrow> policy \<Rightarrow> policy" where
  "run_policy A P0 = (let P = P0\<lparr>oracle2_route := rroute A\<rparr>
     in if rself_test A then self_test_policy P else P)"

definition run_impl :: "env \<Rightarrow> run_args \<Rightarrow> str list" where
  "run_impl E A = (if rself_test A then [reference E] else words (rimpl A))"

definition when_needed :: "bool \<Rightarrow> env \<Rightarrow> unit io" where
  "when_needed b E = (if b then need_reference E else ret ())"

definition run_results :: "env \<Rightarrow> run_args \<Rightarrow> (nat, outcome) dict io" where
  "run_results E A =
     bindio (load_index E) (\<lambda>index.
     bindio (load_policy E (rscope A)) (\<lambda>P0.
     bindio (when_needed (rself_test A) E) (\<lambda>_.
     let P = run_policy A P0; os = selected A in
     bindio (when_needed (2 \<in> set os \<and> oracle2_route P = via_reference) E) (\<lambda>_.
     bindio (when_needed (4 \<in> set os) E) (\<lambda>_.
     run_files E (run_impl E A) P os (chosen_files (rfilter A) index) [])))))"

definition run_report :: "unified_diff \<Rightarrow> nat list \<Rightarrow> (nat, outcome) dict \<Rightarrow> nat \<times> str list" where
  \<comment> \<open>the exit code and the lines printed\<close>
  "run_report ud os results = (if failed_total os results = 0 then 0 else 1,
     map (\<lambda>k. summary_line k (tally results k)) os @ drift_lines ud os results
     @ verdict_lines (failed_total os results))"

definition cmd_run :: "env \<Rightarrow> unified_diff \<Rightarrow> run_args \<Rightarrow> (nat \<times> str list) io" where
  "cmd_run E ud A =
     bindio (run_results E A) (\<lambda>results.
     bindio (write_reports E ud (rmax_report A) (selected A) results) (\<lambda>_.
     ret (run_report ud (selected A) results)))"

section \<open>Every oracle accounts for every file\<close>

interpretation any_oracle: grader "check_of k" for k
proof
  fix E impl rel p m P out
  show "ensures (check_of k E impl rel p m P out) (verdict rel out)"
    by (simp add: check_of_def oracle1.one_verdict oracle2.one_verdict oracle3.one_verdict
        oracle4.one_verdict)
  show "keeps_globals (check_of k E impl rel p m P out)"
    by (simp add: check_of_def oracle1.globals_kept oracle2.globals_kept oracle3.globals_kept
        oracle4.globals_kept)
qed

definition seen :: "outcome \<Rightarrow> nat" where
  "seen r = passed r + failed r + skipped r"

definition accounted :: "outcome \<Rightarrow> bool" where
  "accounted r \<longleftrightarrow> length (failures r) = failed r"

lemma seen_add [simp]: "seen (add_outcome r l) = seen r + seen l"
  by (simp add: seen_def add_outcome_def)

lemma accounted_add: "accounted r \<Longrightarrow> accounted l \<Longrightarrow> accounted (add_outcome r l)"
  by (simp add: accounted_def add_outcome_def)

lemma fresh_outcome [simp]: "seen no_outcome = 0" "accounted no_outcome"
  by (simp_all add: seen_def accounted_def no_outcome_def)

lemma ensures_mapio:
  assumes "\<And>x. ensures (f x) (Q x)"
  shows "ensures (mapio f xs) (list_all2 Q xs)"
proof (induction xs)
  case (Cons x xs)
  have "ensures (bindio (mapio f xs) (\<lambda>ys. ret (y # ys))) (list_all2 Q (x # xs))" if "Q x y" for y
    by (rule ensures_bind_post [OF Cons.IH]) (use that in \<open>auto intro!: ensures_ret\<close>)
  then show ?case by (auto intro: ensures_bind_post [OF assms])
qed (simp only: mapio.simps, rule ensures_ret, simp)

definition graded :: "nat list \<Rightarrow> (nat \<times> outcome) list \<Rightarrow> bool" where
  "graded os local \<longleftrightarrow> (\<forall>(k, out) \<in> set local. seen out = 1 \<and> accounted out)"

lemma one_graded:
  "ensures (one E impl P os item) (\<lambda>r. case r of None \<Rightarrow> True | Some local \<Rightarrow> graded os local)"
proof -
  let ?Q = "\<lambda>k ko. fst ko = k \<and> seen (snd ko) = 1 \<and> accounted (snd ko)"
  have check: "ensures (bindio (check_of k E impl (fst item) p (snd item) P no_outcome) (\<lambda>out. ret (k, out))) (?Q k)"
    for p k
    by (rule ensures_bind_post [OF any_oracle.one_verdict])
      (auto intro!: ensures_ret simp: verdict_def seen_def accounted_def no_outcome_def)
  have "graded os local" if "list_all2 ?Q ks local" for ks local
    using that by (fastforce simp: graded_def list_all2_conv_all_nth in_set_conv_nth)
  then show ?thesis unfolding one_def
    by (intro ensures_bind ensures_if ensures_ret ensures_bind_post [OF ensures_mapio [OF check]]) auto
qed

lemma merge_counts:
  assumes "merge os local results = Inr results'" and "graded qs local"
    and "\<forall>k. accounted (tally results k)"
  shows "seen (tally results' k) = seen (tally results k) + count_list os k \<and> (\<forall>k. accounted (tally results' k))"
  using assms
proof (induction os arbitrary: results)
  case (Cons j os)
  obtain l where l: "dget local j = Some l"
    and m: "merge os local (dset j (add_outcome (tally results j) l) results) = Inr results'"
    using Cons.prems(1) by (auto split: option.splits)
  have g: "seen l = 1 \<and> accounted l"
    using Cons.prems(2) map_of_SomeD [OF l] by (auto simp: graded_def)
  have a: "\<forall>k. accounted (tally (dset j (add_outcome (tally results j) l) results) k)"
    using Cons.prems(3) g by (auto intro: accounted_add)
  show ?case using Cons.IH [OF m Cons.prems(2) a] g by auto
qed simp

lemma run_files_counts:
  "\<forall>k. accounted (tally results k) \<Longrightarrow> ensures (run_files E impl P os fs results)
     (\<lambda>results'. (\<exists>n \<le> length fs. \<forall>k. seen (tally results' k) = seen (tally results k) + n * count_list os k)
        \<and> (\<forall>k. accounted (tally results' k)))"
proof (induction fs arbitrary: results)
  case Nil
  show ?case unfolding run_files.simps by (rule ensures_ret) (use Nil in simp)
next
  case (Cons f fs)
  let ?Q = "\<lambda>fs results results'. (\<exists>n \<le> length fs. \<forall>k. seen (tally results' k) = seen (tally results k) + n * count_list os k)
        \<and> (\<forall>k. accounted (tally results' k))"
  have skipped: "ensures (run_files E impl P os fs results) (?Q (f # fs) results)"
    by (rule ensures_weaken [OF Cons.IH [OF Cons.prems]]) (auto intro: le_SucI)
  have merged: "ensures (bindio (lift (merge os l results)) (run_files E impl P os fs)) (?Q (f # fs) results)"
    if g: "graded os l" for l
  proof (cases "merge os l results")
    case (Inl e)
    then show ?thesis by (simp add: ensures_def bindio_def)
  next
    case (Inr r1)
    have m: "\<And>k. seen (tally r1 k) = seen (tally results k) + count_list os k" "\<forall>k. accounted (tally r1 k)"
      using merge_counts [OF Inr g Cons.prems] by auto
    have "ensures (run_files E impl P os fs r1) (?Q (f # fs) results)"
    proof (rule ensures_weaken [OF Cons.IH [OF m(2)]])
      fix results' assume q: "?Q fs r1 results'"
      then obtain n where n: "n \<le> length fs" "\<forall>k. seen (tally results' k) = seen (tally r1 k) + n * count_list os k"
        by blast
      have "\<forall>k. seen (tally results' k) = seen (tally results k) + Suc n * count_list os k" using n(2) m(1) by simp
      then show "?Q (f # fs) results results'" using n(1) q by (auto intro!: exI [of _ "Suc n"])
    qed
    then show ?thesis by (simp add: Inr ensures_def bindio_def)
  qed
  show ?case unfolding run_files.simps
    by (rule ensures_bind_post [OF one_graded], rule ensures_case_option)
      (rule skipped, rule merged, simp)
qed

lemma sum_list_apart:
  "sum_list (map f os) = f k * count_list os k + sum_list (map f (filter (\<lambda>j. j \<noteq> k) os))"
  for f :: "'a \<Rightarrow> nat"
  by (induction os) (auto simp: algebra_simps)

lemma failed_total_0:
  "failed_total os results = 0 \<longleftrightarrow>
     (\<forall>k \<in> set os. k \<noteq> 4 \<longrightarrow> failed (tally results k) = 0) \<and> (count_list os 4 \<le> 1 \<or> failed (tally results 4) = 0)"
proof (cases "count_list os 4")
  case 0
  then have "4 \<notin> set os" by (simp add: count_list_0_iff)
  then show ?thesis using 0 by (auto simp: failed_total_def)
next
  case (Suc n)
  then have "4 \<in> set os" by (metis count_notin nat.distinct(1))
  then show ?thesis using Suc
    by (auto simp: failed_total_def sum_list_apart [of "\<lambda>k. failed (tally results k)" os 4])
qed

lemma reports_kept:
  "write_reports E ud cap os results w = (Inr (), w') \<Longrightarrow>
   disk w' (joinp (report E) ''failures.md'') = Some (failures_report ud cap os results)"
  by (auto simp: write_reports_def bindio_Inr_iff write_bytes_def write_text_def set_disk_def
      joinp_def split: if_splits)

lemma reports_written: "fst (write_reports E ud cap os results w) = Inr ()"
  by (simp add: write_reports_def bindio_def write_bytes_def write_text_def set_disk_def)

lemma cmd_run_reports:
  "fst (cmd_run E ud A w) = map_sum id (run_report ud (selected A)) (fst (run_results E A w))"
  by (auto simp: cmd_run_def bindio_def reports_written split: prod.split sum.split
      dest: arg_cong [where f = fst, of "write_reports _ _ _ _ _ _"])

lemma exit_code_of:
  "map_sum id fst (fst (cmd_run E ud A w)) =
     map_sum id (\<lambda>r. if failed_total (selected A) r = 0 then 0 else 1) (fst (run_results E A w))"
  by (simp add: cmd_run_reports sum.map_comp run_report_def comp_def id_def)

section \<open>Properties\<close>

text \<open>
  C1: every selected oracle accounts for the same files in one of its three counters (twice
  when it is selected twice), its failures are listed one by one and written to the report, and
  the exit code is 0 exactly when no gating oracle failed; oracle 4 does not gate, unless it is
  selected more than once.
\<close>

theorem run_accounts:
  assumes "fst (cmd_run E ud A w) = Inr (exit_code, lines)"
  shows "\<exists>results n. (\<forall>k. seen (tally results k) = n * count_list (selected A) k)
    \<and> (\<forall>k. length (failures (tally results k)) = failed (tally results k))
    \<and> take (length (selected A)) lines = map (\<lambda>k. summary_line k (tally results k)) (selected A)
    \<and> disk (snd (cmd_run E ud A w)) (joinp (report E) ''failures.md'')
        = Some (failures_report ud (rmax_report A) (selected A) results)
    \<and> exit_code \<le> 1
    \<and> (exit_code = 0 \<longleftrightarrow> (\<forall>k \<in> set (selected A). k \<noteq> 4 \<longrightarrow> failed (tally results k) = 0)
        \<and> (count_list (selected A) 4 \<le> 1 \<or> failed (tally results 4) = 0))"
proof -
  obtain P fs results w1 w2 where
    r: "run_files E (run_impl E A) P (selected A) fs [] w1 = (Inr results, w2)"
    and wr: "write_reports E ud (rmax_report A) (selected A) results w2 = (Inr (), snd (cmd_run E ud A w))"
    and l: "(exit_code, lines) = run_report ud (selected A) results"
    using run_eq [OF assms] by (auto simp: cmd_run_def run_results_def bindio_Inr_iff Let_def)
  obtain n where n: "\<forall>k. seen (tally results k) = n * count_list (selected A) k"
    and a: "\<forall>k. accounted (tally results k)"
    using ensuresD [OF run_files_counts r] by auto
  show ?thesis using n a l failed_total_0 [of "selected A" results] reports_kept [OF wr]
    by (intro exI [of _ results] exI [of _ n]) (simp add: accounted_def run_report_def)
qed

text \<open>A small corpus of two files, and an implementation that prints no text format.\<close>

definition demo_run_env :: env where
  "demo_run_env = demo_env\<lparr>exec := (\<lambda>argv inp m.
     if hd argv = ''impl'' \<and> argv ! 3 = ''wat'' then (Exited 1 [] ''no printer'', m)
     else demo_exec argv inp m)\<rparr>"

definition demo_run_args :: "nat list \<Rightarrow> bool \<Rightarrow> run_args" where
  "demo_run_args os self = \<lparr>rimpl = ''impl'', rscope = None, rroute = native, roracles = os,
     rself_test = self, rfilter = None, rmax_report = 50\<rparr>"

definition demo_lines :: "str list" where
  "demo_lines =
     [''  oracle 1  reprint parity     pass     1  fail     0  skip     1'',
      ''  oracle 4  text parity        pass     0  fail     1  skip     1'',
      ''  wat drift: 1 (see test/report/wat-drift.md)'']"

lemma demo_results:
  "run_results demo_run_env (demo_run_args os False) project =
     run_files demo_run_env [''impl''] (project_modes\<lparr>oracle2_route := native\<rparr>)
       (selected (demo_run_args os False)) project_index [] project"
proof -
  have r: "root demo_run_env = []" by (simp add: demo_run_env_def demo_env_def)
  have s: "sort_items project_index = project_index" by code_simp
  have w: "words ''impl'' = [''impl'']" by code_simp
  show ?thesis
    by (simp add: run_results_def bindio_def w project_loads [OF r] when_needed_def run_policy_def
        run_impl_def demo_run_args_def chosen_files_def s native_def via_reference_def Let_def
        del: words.simps)
qed

lemma demo_run:
  "fst (cmd_run demo_run_env (\<lambda>_ _. []) (demo_run_args [1, 4] False) project) = Inr (0, demo_lines)"
  unfolding cmd_run_reports demo_results by code_simp

theorem run_accounts_witness:
  "\<exists>results n. (\<forall>k. seen (tally results k) = n * count_list [1, 4] k)
    \<and> take 2 demo_lines = map (\<lambda>k. summary_line k (tally results k)) [1, 4]
    \<and> failed (tally results 1) = 0"
proof -
  have s: "selected (demo_run_args [1, 4] False) = [1, 4]" by (simp add: selected_def demo_run_args_def)
  obtain results n where r: "\<forall>k. seen (tally results k) = n * count_list [1, 4] k"
    "take (length [1::nat, 4]) demo_lines = map (\<lambda>k. summary_line k (tally results k)) [1, 4]"
    "\<forall>k \<in> set [1, 4]. k \<noteq> 4 \<longrightarrow> failed (tally results k) = 0"
    using run_accounts [OF demo_run] unfolding s by (elim exE conjE) simp
  show ?thesis using r by (intro exI [of _ results] exI [of _ n]) (simp add: numeral_2_eq_2)
qed

text \<open>
  Oracle 4 does not gate, but naming it twice makes it: its failures are added once per
  mention and taken off once.
\<close>

lemma repeated_oracle4_gates:
  "map_sum id fst (fst (cmd_run demo_run_env (\<lambda>_ _. []) (demo_run_args [4] False) project)) = Inr 0
   \<and> map_sum id fst (fst (cmd_run demo_run_env (\<lambda>_ _. []) (demo_run_args [4, 4] False) project)) = Inr 1"
proof
  show "map_sum id fst (fst (cmd_run demo_run_env (\<lambda>_ _. []) (demo_run_args [4] False) project)) = Inr 0"
    unfolding exit_code_of demo_results by code_simp
  show "map_sum id fst (fst (cmd_run demo_run_env (\<lambda>_ _. []) (demo_run_args [4, 4] False) project)) = Inr 1"
    unfolding exit_code_of demo_results by code_simp
qed

end
