(* ===== verification/Cram_Scope.thy ===== *)
theory Cram_Scope
  imports Oracles Paths Py_Regex Py_Repr
begin

text \<open>
  The \<open>classify-cram\<close> command of \<open>tools/waxdiff.py\<close> (1637--1842): which of the reference's cram
  tests the port can run.  A test is in scope when every command it runs is; the commands are
  read off its transcript, cut at the shell's operators, and each \<open>wax\<close> invocation is read word
  by word.
\<close>

section \<open>The commands of a transcript\<close>

definition cram_line :: "str \<Rightarrow> str list \<Rightarrow> str list" where
  "cram_line raw out = (let st = strip raw in
     if startswith st ''$ '' then out @ [drop 2 st]
     else if startswith st ''> '' \<and> out \<noteq> [] then butlast out @ [last out @ [LF] @ drop 2 st]
     else if st = ''>'' \<and> out \<noteq> [] then butlast out @ [last out @ [LF]]
     else out)"

definition cram_commands :: "str \<Rightarrow> str list" where
  "cram_commands text = fold cram_line (splitlines text) []"

section \<open>Why an invocation is out of scope\<close>

definition cram_ok_flags :: "str list" where
  "cram_ok_flags =
     [''-f'', ''--output-format'', ''--format'', ''-i'', ''--input-format'', ''-o'', ''--output'',
      ''--error-format'', ''--color'', ''-W'', ''--warn'', ''-c'', ''--check'', ''--all-errors'',
      ''-v'', ''--validate'', ''--try-table'', ''-X'', ''--feature'', ''-D'', ''--define'']"

definition cram_ok_out_formats :: "str list" where
  "cram_ok_out_formats = [''wax'', ''wat'', ''wasm'']"

definition cram_ok_in_formats :: "str list" where
  "cram_ok_in_formats = [''wax'']"

definition cram_opaque :: "str list" where
  "cram_opaque = [''python3'', ''python'', ''node'', ''perl'', ''ruby'', ''sh'', ''bash'']"

definition cram_ok_commands :: "str list" where
  "cram_ok_commands = [''convert'', ''format'', ''check'']"

definition valued :: "str list" where
  "valued = [''-f'', ''--output-format'', ''--format'', ''-i'', ''--input-format'',
     ''-o'', ''--output'', ''--error-format'', ''--color'', ''-W'', ''--warn'',
     ''-D'', ''--define'', ''-X'', ''--feature'', ''--debug'']"

definition out_formats :: "str list" where
  "out_formats = [''-f'', ''--output-format'', ''--format'']"

definition in_formats :: "str list" where
  "in_formats = [''-i'', ''--input-format'']"

definition is_assignment :: "str \<Rightarrow> bool" where
  "is_assignment w \<longleftrightarrow> CHR ''='' \<in> set w \<and> \<not> startswith w ''-''"

definition command_words :: "str \<Rightarrow> str list" where
  \<comment> \<open>the words of a command without its leading \<open>VAR=value\<close> assignments\<close>
  "command_words seg = dropWhile is_assignment (words seg)"

definition not_implemented :: str where
  "not_implemented = '', which wax-mb does not implement''"

fun option_words :: "str list \<Rightarrow> str list \<Rightarrow> str + str list" where
  \<comment> \<open>the loop over the words: the first reason, or the positional arguments\<close>
  "option_words [] positionals = Inr positionals"
| "option_words (w # rest) positionals =
     (if \<not> startswith w ''-'' \<or> w = ''-'' then option_words rest (positionals @ [w])
      else (let (name, eq, inline) = partition_at CHR ''='' w in
        if name \<notin> set cram_ok_flags then Inl (''uses '' @ repr_str name @ not_implemented)
        else if name \<in> set valued then
          (let val = (if eq then inline else case rest of [] \<Rightarrow> [] | v # _ \<Rightarrow> v) in
           if name \<in> set out_formats \<and> val \<notin> set cram_ok_out_formats
           then Inl (''writes '' @ repr_str val @ not_implemented)
           else if name \<in> set in_formats \<and> val \<notin> set cram_ok_in_formats
           then Inl (''reads '' @ repr_str val @ '' input; only wax input is implemented'')
           else option_words (if eq then rest else drop 1 rest) positionals)
        else option_words rest positionals))"

definition names_format :: "str \<Rightarrow> bool" where
  \<comment> \<open>a path whose extension is not \<open>.wax\<close>\<close>
  "names_format w \<longleftrightarrow> CHR ''.'' \<in> set w \<and> \<not> endswith w ''.wax''"

definition input_reason :: "str list \<Rightarrow> str option" where
  "input_reason rest = (case filter names_format rest of
      [] \<Rightarrow> None
    | w # _ \<Rightarrow> Some (''reads '' @ repr_str (rsplit1 CHR ''.'' w) @ '' input; only wax input is implemented''))"

definition is_subcommand :: "str \<Rightarrow> bool" where
  "is_subcommand w \<longleftrightarrow> CHR ''.'' \<notin> set w \<and> CHR ''/'' \<notin> set w \<and> w \<noteq> ''-''"

definition positional_reason :: "str list \<Rightarrow> str option" where
  "positional_reason positionals = (case positionals of
      [] \<Rightarrow> None
    | w # rest \<Rightarrow>
        if is_subcommand w then
          if w \<notin> set cram_ok_commands
          then Some (''runs the '' @ repr_str w @ '' subcommand'' @ not_implemented)
          else input_reason rest
        else input_reason positionals)"

definition cram_wax_reason :: "str \<Rightarrow> str option" where
  "cram_wax_reason seg = (case command_words seg of
      [] \<Rightarrow> None
    | w # rest \<Rightarrow>
        if w \<noteq> ''wax'' then None
        else (case option_words rest [] of
            Inl reason \<Rightarrow> Some reason
          | Inr positionals \<Rightarrow> positional_reason positionals))"

definition operator_rx :: rx where
  \<comment> \<open>\<open>\|\||&&|[|;]\<close>\<close>
  "operator_rx = alts [lit ''||'', lit ''&&'', any_of ''|;'']"

definition segments :: "str \<Rightarrow> str list" where
  "segments cmd = rx_split operator_rx (hd (split_on [LF] cmd))"

fun segments_reason :: "str list \<Rightarrow> str option" where
  "segments_reason [] = None"
| "segments_reason (seg # segs) = (case command_words seg of
      w # _ \<Rightarrow>
        if w \<in> set cram_opaque
        then Some (''drives wax from a '' @ w @ '' script, so its invocations cannot be inspected'')
        else (case cram_wax_reason seg of Some r \<Rightarrow> Some r | None \<Rightarrow> segments_reason segs)
    | [] \<Rightarrow> (case cram_wax_reason seg of Some r \<Rightarrow> Some r | None \<Rightarrow> segments_reason segs))"

definition cram_reason :: "str \<Rightarrow> str option" where
  "cram_reason cmd = segments_reason (segments cmd)"

definition test_reasons :: "str \<Rightarrow> str list" where
  "test_reasons text = List.map_filter cram_reason (cram_commands text)
     @ (if contains text ''../'' then [''reads paths outside its own directory''] else [])"

section \<open>The command\<close>

definition cram_src :: "env \<Rightarrow> path" where
  "cram_src E = joinp (root E) ''wax/test/cram-tests''"

definition cram_dst :: "env \<Rightarrow> path" where
  "cram_dst E = joinp (root E) ''test/cram''"

definition entries_of :: "env \<Rightarrow> path \<Rightarrow> str list io" where
  \<comment> \<open>the names in a directory that holds files, sorted: \<open>sorted(d.iterdir())\<close>\<close>
  "entries_of E d w = (Inr (sorted_set (map (\<lambda>p. hd (split_on ''/'' (drop (length d + 1) p)))
     (filter (under d) (walk E (disk w))))), w)"

definition copytree :: "path \<Rightarrow> path \<Rightarrow> unit io" where
  "copytree a b = set_disk (\<lambda>m p. if under b p then
     (case m (a @ drop (length b) p) of None \<Rightarrow> m p | Some c \<Rightarrow> Some c) else m p)"

definition run_t :: "env \<Rightarrow> str \<Rightarrow> path" where
  "run_t E name = joinp (joinp (cram_src E) name) ''run.t''"

text \<open>The tests in scope, and the others with the first of their reasons.\<close>

fun cram_scope :: "env \<Rightarrow> str list \<Rightarrow> str list \<Rightarrow> (str \<times> str) list \<Rightarrow> (str list \<times> (str \<times> str) list) io" where
  "cram_scope E [] included excluded = ret (included, excluded)"
| "cram_scope E (name # names) included excluded =
     bindio (exists_file (run_t E name)) (\<lambda>there.
     if \<not> there then cram_scope E names included excluded
     else bindio (read_text (run_t E name)) (\<lambda>text.
       let reasons = test_reasons text in
       if reasons \<noteq> []
       then cram_scope E names included (excluded @ [(name, hd (sorted_set reasons))])
       else cram_scope E names (included @ [name]) excluded))"

fun copy_all :: "env \<Rightarrow> str list \<Rightarrow> unit io" where
  "copy_all E [] = ret ()"
| "copy_all E (name # names) =
     bindio (copytree (joinp (cram_src E) name) (joinp (cram_dst E) name)) (\<lambda>_. copy_all E names)"

definition scope_row :: "str \<times> str \<Rightarrow> str" where
  "scope_row e = ''| `'' @ fst e @ ''` | '' @ snd e @ '' |''"

definition scope_report :: "str list \<Rightarrow> (str \<times> str) list \<Rightarrow> str" where
  "scope_report included excluded = join [LF]
     ([''# Cram tests: what this port runs'', [],
       ''Generated by `waxdiff.py classify-cram`. A test is in scope when every'',
       ''`wax` command it runs uses only flags and formats wax-mb implements;'',
       ''anything else is listed below with the reason, so the excluded set stays'',
       ''visible instead of shrinking unnoticed.'', [],
       ''In scope: **'' @ str_nat (length included) @ ''** of ''
         @ str_nat (length included + length excluded) @ ''.'', [],
       ''That is a small fraction, and the reasons below say why: the'',
       ''reference'' @ [SQ] @ ''s cram suite is overwhelmingly about the two things this'',
       ''port does not implement -- conversion to and from wat/wasm, and the'',
       ''type checker with its lints. The differential oracles are what cover'',
       ''the front end, over 2112 corpus files; these tests add the CLI'' @ [SQ] @ ''s own'',
       ''behaviour (exit codes, which stream output goes to, flag handling).'', [],
       ''## Excluded'', [], ''| test | why |'', ''|---|---|'']
      @ map scope_row (sort excluded) @ [[]])"

definition cmd_classify_cram :: "env \<Rightarrow> bool \<Rightarrow> str list io" where
  \<comment> \<open>the lines printed\<close>
  "cmd_classify_cram E dry_run =
     bindio (entries_of E (cram_src E)) (\<lambda>names.
     if names = [] then raise (SystemExit (''waxdiff: no cram tests at '' @ cram_src E)) else
     bindio (cram_scope E names [] []) (\<lambda>(included, excluded).
     bindio (if dry_run then ret ()
             else bindio (rmtree (cram_dst E)) (\<lambda>_. bindio (copy_all E included) (\<lambda>_.
               write_text (joinp (root E) ''test/cram-scope.md'') (scope_report included excluded)))) (\<lambda>_.
     ret [''  in scope  '' @ str_nat (length included),
          ''  excluded  '' @ str_nat (length excluded) @ ''  (see test/cram-scope.md)''])))"

section \<open>What is in scope\<close>

text \<open>
  The same judgement in two steps: an invocation is parsed into positional arguments, flags and
  options with a value, and the arguments are judged one by one.
\<close>

datatype arg = Positional str | Flag str | Valued str str

fun parse_args :: "str list \<Rightarrow> arg list" where
  "parse_args [] = []"
| "parse_args (w # rest) =
     (if \<not> startswith w ''-'' \<or> w = ''-'' then Positional w # parse_args rest
      else (let (name, eq, inline) = partition_at CHR ''='' w in
        if name \<in> set valued
        then Valued name (if eq then inline else case rest of [] \<Rightarrow> [] | v # _ \<Rightarrow> v)
               # parse_args (if eq then rest else drop 1 rest)
        else Flag name # parse_args rest))"

fun arg_ok :: "arg \<Rightarrow> bool" where
  "arg_ok (Positional w) \<longleftrightarrow> True"
| "arg_ok (Flag f) \<longleftrightarrow> f \<in> set cram_ok_flags"
| "arg_ok (Valued f v) \<longleftrightarrow> f \<in> set cram_ok_flags
     \<and> (f \<in> set out_formats \<longrightarrow> v \<in> set cram_ok_out_formats)
     \<and> (f \<in> set in_formats \<longrightarrow> v \<in> set cram_ok_in_formats)"

fun positional :: "arg \<Rightarrow> str list" where
  "positional (Positional w) = [w]"
| "positional _ = []"

definition inputs_ok :: "str list \<Rightarrow> bool" where
  "inputs_ok pos = (case pos of [] \<Rightarrow> True
    | w # rest \<Rightarrow> if is_subcommand w
        then w \<in> set cram_ok_commands \<and> list_all (\<lambda>x. \<not> names_format x) rest
        else list_all (\<lambda>x. \<not> names_format x) pos)"

definition in_scope :: "str \<Rightarrow> bool" where
  "in_scope seg \<longleftrightarrow> (case command_words seg of [] \<Rightarrow> True
    | w # rest \<Rightarrow> w \<notin> set cram_opaque
        \<and> (w = ''wax'' \<longrightarrow> list_all arg_ok (parse_args rest)
             \<and> inputs_ok (concat (map positional (parse_args rest)))))"

lemma option_words_exact:
  "option_words rest pos = Inr p \<longleftrightarrow>
     list_all arg_ok (parse_args rest) \<and> p = pos @ concat (map positional (parse_args rest))"
proof (induction rest pos rule: option_words.induct)
  case (2 w rest pos)
  obtain name eq inline where n: "partition_at CHR ''='' w = (name, eq, inline)"
    by (cases "partition_at CHR ''='' w")
  note IH = 2
  show ?case
  proof (cases "\<not> startswith w ''-'' \<or> w = ''-''")
    case True
    then show ?thesis using IH(1) [OF True] by (simp only: option_words.simps parse_args.simps) simp
  next
    case False
    show ?thesis
    proof (cases "name \<in> set cram_ok_flags")
      case unknown: False
      then show ?thesis using False n
        by (cases "name \<in> set valued") (simp_all only: option_words.simps parse_args.simps, simp_all)
    next
      case known: True
      define val where "val = (if eq then inline else case rest of [] \<Rightarrow> [] | v # _ \<Rightarrow> v)"
      define rest' where "rest' = (if eq then rest else drop 1 rest)"
      show ?thesis
      proof (cases "name \<in> set valued")
        case True
        have step: "option_words (w # rest) pos =
            (if name \<in> set out_formats \<and> val \<notin> set cram_ok_out_formats
             then Inl (''writes '' @ repr_str val @ not_implemented)
             else if name \<in> set in_formats \<and> val \<notin> set cram_ok_in_formats
             then Inl (''reads '' @ repr_str val @ '' input; only wax input is implemented'')
             else option_words rest' pos)"
          using False known True unfolding val_def rest'_def
          by (simp only: option_words.simps n Let_def prod.case if_False if_True not_not simp_thms)
        have parse: "parse_args (w # rest) = Valued name val # parse_args rest'"
          using False True unfolding val_def rest'_def
          by (simp only: parse_args.simps n Let_def prod.case if_False if_True)
        show ?thesis unfolding step parse
          using known IH(2) [OF False refl n [symmetric] refl _ True val_def, folded rest'_def]
          by auto
      next
        case novalue: False
        then show ?thesis using False known n IH(3) [OF False refl n [symmetric] refl]
          by (simp only: option_words.simps parse_args.simps) simp
      qed
    qed
  qed
qed auto

lemma input_reason_exact: "input_reason rest = None \<longleftrightarrow> list_all (\<lambda>x. \<not> names_format x) rest"
  by (cases "filter names_format rest") (auto simp: input_reason_def list_all_iff filter_empty_conv
      dest!: Cons_eq_filterD intro: ccontr)

lemma positional_reason_exact: "positional_reason pos = None \<longleftrightarrow> inputs_ok pos"
  by (auto simp: positional_reason_def inputs_ok_def input_reason_exact split: list.split)

lemma wax_reason_exact:
  "cram_wax_reason seg = None \<longleftrightarrow> (case command_words seg of [] \<Rightarrow> True
    | w # rest \<Rightarrow> w = ''wax'' \<longrightarrow> list_all arg_ok (parse_args rest)
        \<and> inputs_ok (concat (map positional (parse_args rest))))"
proof (cases "command_words seg")
  case (Cons w rest)
  show ?thesis
  proof (cases "option_words rest []")
    case (Inl r)
    then have "\<not> list_all arg_ok (parse_args rest)" using option_words_exact [of rest "[]"] by auto
    then show ?thesis using Cons Inl by (simp add: cram_wax_reason_def)
  next
    case (Inr p)
    then show ?thesis using option_words_exact [of rest "[]" p] Cons
      by (simp add: cram_wax_reason_def positional_reason_exact)
  qed
qed (simp add: cram_wax_reason_def)

lemma segments_reason_exact: "segments_reason segs = None \<longleftrightarrow> list_all in_scope segs"
proof (induction segs)
  case (Cons seg segs)
  then show ?case using wax_reason_exact [of seg]
    by (cases "command_words seg"; cases "cram_wax_reason seg") (auto simp: in_scope_def cram_opaque_def)
qed simp

section \<open>Transcripts\<close>

definition tidy :: "str \<Rightarrow> bool" where
  \<comment> \<open>one line, without trailing white space\<close>
  "tidy l \<longleftrightarrow> (\<forall>c \<in> set l. \<not> is_linebreak c) \<and> (l = [] \<or> \<not> is_space (last l))"

definition output_line :: "str \<Rightarrow> bool" where
  "output_line l \<longleftrightarrow> (\<forall>c \<in> set l. \<not> is_linebreak c) \<and> \<not> startswith (strip l) ''$ ''
     \<and> \<not> startswith (strip l) ''> '' \<and> strip l \<noteq> ''>''"

text \<open>A command, the lines that continue it, and its output.\<close>

type_synonym exchange = "str \<times> str list \<times> str list"

definition typed :: "str \<Rightarrow> str" where "typed l = ''  $ '' @ l"
definition continued :: "str \<Rightarrow> str" where "continued l = ''  > '' @ l"
definition printed :: "str \<Rightarrow> str" where "printed l = ''  '' @ l"

fun exchange_lines :: "exchange \<Rightarrow> str list" where
  "exchange_lines (cmd, conts, outs) = typed cmd # map continued conts @ map printed outs"

fun exchange_ok :: "exchange \<Rightarrow> bool" where
  "exchange_ok (cmd, conts, outs) \<longleftrightarrow> cmd \<noteq> [] \<and> tidy cmd \<and> list_all tidy conts \<and> list_all output_line outs"

definition transcript :: "exchange list \<Rightarrow> str" where
  "transcript es = concat (map (\<lambda>l. l @ [LF]) (concat (map exchange_lines es)))"

lemma strip_indent:
  assumes "s \<noteq> []" and "\<not> is_space (hd s)" and "\<not> is_space (last s)"
  shows "strip (''  '' @ s) = s"
proof -
  have "is_space CHR '' ''" by (simp add: is_space_def code_def)
  moreover have "dropWhile is_space s = s" using assms by (cases s) auto
  moreover have "dropWhile is_space (rev s) = rev s"
    using assms by (cases "rev s") (auto simp: hd_rev [symmetric])
  ultimately show ?thesis by (simp add: strip_def lstrip_def rstrip_def)
qed

lemma strip_output: "strip (''  '' @ s) = strip s"
  by (simp add: strip_def lstrip_def is_space_def code_def)

lemma marks: "\<not> is_space CHR ''$''" "\<not> is_space CHR ''>''"
  by (simp_all add: is_space_def code_def)

lemma cram_line_typed: "cmd \<noteq> [] \<Longrightarrow> tidy cmd \<Longrightarrow> cram_line (typed cmd) out = out @ [cmd]"
  using strip_indent [of "''$ '' @ cmd"]
  by (simp add: tidy_def startswith_def marks typed_def cram_line_def)

lemma cram_line_continued:
  assumes "out \<noteq> []" and "tidy l"
  shows "cram_line (continued l) out = butlast out @ [last out @ [LF] @ l]"
proof (cases "l = []")
  case True
  have "strip ''  > '' = ''>''" by code_simp
  then show ?thesis using True assms by (simp add: startswith_def continued_def cram_line_def)
next
  case False
  then show ?thesis using assms strip_indent [of "''> '' @ l"]
    by (simp add: tidy_def startswith_def marks continued_def cram_line_def)
qed

lemma cram_line_printed: "output_line l \<Longrightarrow> cram_line (printed l) out = out"
  using strip_output [of l] by (simp add: output_line_def printed_def cram_line_def)

lemma fold_continued:
  "list_all tidy conts \<Longrightarrow> fold cram_line (map continued conts) (out @ [cmd]) = out @ [join [LF] (cmd # conts)]"
proof (induction conts arbitrary: cmd)
  case (Cons l conts)
  have "fold cram_line (map continued conts) (out @ [cmd @ [LF] @ l]) = out @ [join [LF] ((cmd @ [LF] @ l) # conts)]"
    using Cons.prems by (intro Cons.IH) simp
  then show ?case using cram_line_continued [of "out @ [cmd]" l] Cons.prems by (simp add: join_Cons)
qed simp

lemma fold_printed: "list_all output_line outs \<Longrightarrow> fold cram_line (map printed outs) out = out"
  using cram_line_printed by (induction outs) simp_all

lemma fold_exchanges:
  "list_all exchange_ok es \<Longrightarrow> fold cram_line (concat (map exchange_lines es)) out
     = out @ map (\<lambda>(cmd, conts, outs). join [LF] (cmd # conts)) es"
proof (induction es arbitrary: out)
  case (Cons e es)
  obtain cmd conts outs where e: "e = (cmd, conts, outs)" by (cases e)
  have "fold cram_line (exchange_lines e) out = out @ [join [LF] (cmd # conts)]"
    using Cons.prems e by (simp add: fold_continued fold_printed cram_line_typed)
  then show ?case using Cons e by (simp del: exchange_lines.simps)
qed simp

lemma exchange_unbroken:
  "exchange_ok e \<Longrightarrow> l \<in> set (exchange_lines e) \<Longrightarrow> \<forall>c \<in> set l. \<not> is_linebreak c"
  by (cases e) (auto simp: tidy_def output_line_def list_all_iff is_linebreak_def code_def
      typed_def continued_def printed_def)

section \<open>The tests of the directory\<close>

definition reasons_of :: "env \<Rightarrow> world \<Rightarrow> str \<Rightarrow> str list option" where
  \<comment> \<open>\<open>None\<close> when there is no transcript\<close>
  "reasons_of E w name = (case fst (read_text (run_t E name) w) of Inl _ \<Rightarrow> None | Inr t \<Rightarrow> Some (test_reasons t))"

lemma cram_scope_exact:
  "cram_scope E names inc exc w = (Inr (inc', exc'), w') \<Longrightarrow>
     w' = w \<and> inc' = inc @ filter (\<lambda>n. reasons_of E w n = Some []) names
     \<and> exc' = exc @ map (\<lambda>n. (n, hd (sorted_set (the (reasons_of E w n)))))
         (filter (\<lambda>n. reasons_of E w n \<notin> {None, Some []}) names)"
proof (induction names arbitrary: inc exc)
  case (Cons n names)
  show ?case
  proof (cases "disk w (run_t E n)")
    case None
    then have "reasons_of E w n = None"
      by (simp add: reasons_of_def read_text_def bindio_def read_bytes_def)
    then show ?thesis using Cons.IH [of inc exc] Cons.prems None
      by (simp add: bindio_def exists_file_def)
  next
    case (Some b)
    then obtain t where t: "read_text (run_t E n) w = (Inr t, w)"
      using Cons.prems read_text_world [of "run_t E n" w]
      by (auto simp: bindio_Inr_iff exists_file_def)
    then have r: "reasons_of E w n = Some (test_reasons t)" by (simp add: reasons_of_def)
    show ?thesis
    proof (cases "test_reasons t = []")
      case True
      then have "cram_scope E names (inc @ [n]) exc w = (Inr (inc', exc'), w')"
        using Cons.prems t Some by (simp add: bindio_def exists_file_def)
      then show ?thesis using Cons.IH [of "inc @ [n]" exc] r True by simp
    next
      case False
      then have "cram_scope E names inc (exc @ [(n, hd (sorted_set (test_reasons t)))]) w = (Inr (inc', exc'), w')"
        using Cons.prems t Some by (simp add: bindio_def exists_file_def)
      then show ?thesis using Cons.IH [of inc "exc @ [(n, hd (sorted_set (test_reasons t)))]"] r False
        by simp
    qed
  qed
qed simp

lemma hd_split_on: "c \<notin> set (hd (split_on [c] s))"
proof (induction s)
  case (Cons d s)
  then show ?case by (cases "split_on [c] s") (auto simp: startswith_def split_on_nonempty)
qed simp

lemma not_in_dst: "\<not> under (joinp (cram_dst E) n) (run_t E m)" "\<not> under (cram_dst E) (run_t E m)"
  by (auto simp: under_def startswith_iff cram_dst_def run_t_def cram_src_def joinp_def)

lemma dst_apart:
  assumes "CHR ''/'' \<notin> set n" and "CHR ''/'' \<notin> set m" and "under (joinp (cram_dst E) n) (joinp (joinp (cram_dst E) m) ''run.t'')"
  shows "n = m"
proof -
  obtain t where "m @ ''/'' @ ''run.t'' = n @ ''/'' @ t"
    using assms(3) by (auto simp: under_def startswith_iff joinp_def)
  then have "takeWhile (\<lambda>c. c \<noteq> CHR ''/'') (m @ ''/'' @ ''run.t'') = takeWhile (\<lambda>c. c \<noteq> CHR ''/'') (n @ ''/'' @ t)"
    by simp
  moreover have "takeWhile (\<lambda>c. c \<noteq> CHR ''/'') m = m" "takeWhile (\<lambda>c. c \<noteq> CHR ''/'') n = n"
    using assms(1,2) by (auto simp: takeWhile_eq_all_conv)
  ultimately show ?thesis by (simp add: takeWhile_tail)
qed

lemma copy_all_transcripts:
  assumes "copy_all E names w = (Inr (), w')" and "\<forall>n \<in> set names. CHR ''/'' \<notin> set n"
  shows "(\<forall>m. disk w' (run_t E m) = disk w (run_t E m)) \<and>
    (\<forall>m. CHR ''/'' \<notin> set m \<and> disk w (run_t E m) \<noteq> None \<longrightarrow>
       disk w' (joinp (joinp (cram_dst E) m) ''run.t'') =
         (if m \<in> set names then disk w (run_t E m) else disk w (joinp (joinp (cram_dst E) m) ''run.t'')))"
  using assms
proof (induction names arbitrary: w)
  case (Cons n names)
  let ?w1 = "snd (copytree (joinp (cram_src E) n) (joinp (cram_dst E) n) w)"
  have c: "copy_all E names ?w1 = (Inr (), w')"
    using Cons.prems(1) by (simp add: bindio_def copytree_def set_disk_def)
  have src: "disk ?w1 (run_t E m) = disk w (run_t E m)" for m
    using not_in_dst(1) by (simp add: copytree_def set_disk_def)
  have dst: "disk ?w1 (joinp (joinp (cram_dst E) m) ''run.t'') =
      (if m = n then disk w (run_t E m) else disk w (joinp (joinp (cram_dst E) m) ''run.t''))"
    if "CHR ''/'' \<notin> set m" "disk w (run_t E m) \<noteq> None" for m
    using that dst_apart [of n m E] Cons.prems(2)
    by (auto simp: copytree_def set_disk_def run_t_def joinp_def under_def startswith_iff)
  show ?case using Cons.IH [OF c] Cons.prems(2) src dst by auto
qed simp

lemma copy_all_returns: "fst (copy_all E names w) = Inr ()"
  by (induction names arbitrary: w) (simp_all add: bindio_def copytree_def set_disk_def)

lemma classify_cram_returns:
  assumes "fst (entries_of E (cram_src E) w) = Inr names" and "names \<noteq> []"
    and "fst (cram_scope E names [] [] w) = Inr (inc, exc)"
  shows "fst (cmd_classify_cram E False w) = Inr [''  in scope  '' @ str_nat (length inc),
     ''  excluded  '' @ str_nat (length exc) @ ''  (see test/cram-scope.md)'']"
proof -
  have e: "entries_of E (cram_src E) w = (Inr names, w)" using assms(1) by (simp add: entries_of_def)
  obtain w1 where s: "cram_scope E names [] [] w = (Inr (inc, exc), w1)" using run_eq [OF assms(3)] by blast
  obtain w2 where c: "copy_all E inc (w1\<lparr>disk := (\<lambda>p. if under (cram_dst E) p then None else disk w1 p)\<rparr>) = (Inr (), w2)"
    using run_eq [OF copy_all_returns] by blast
  show ?thesis using assms(2)
    by (simp add: cmd_classify_cram_def bindio_def e s c rmtree_def set_disk_def write_text_def write_bytes_def)
qed

section \<open>Properties\<close>

text \<open>
  C31: a command is in scope exactly when every part of it between shell operators is: none is a
  script that could call \<open>wax\<close> unseen, and every \<open>wax\<close> invocation has only implemented flags,
  formats, subcommands and inputs.
\<close>

theorem cram_reason_exact: "cram_reason cmd = None \<longleftrightarrow> list_all in_scope (segments cmd)"
  by (simp add: cram_reason_def segments_reason_exact)

text \<open>
  C32: the commands read off a transcript are the commands that were typed, continuation lines
  included, whatever the output between them.
\<close>

theorem transcript_commands:
  assumes "list_all exchange_ok es"
  shows "cram_commands (transcript es) = map (\<lambda>(cmd, conts, outs). join [LF] (cmd # conts)) es"
proof -
  have "splitlines (transcript es) = concat (map exchange_lines es)"
    unfolding transcript_def
  proof (rule splitlines_concat, rule ballI)
    fix l assume "l \<in> set (concat (map exchange_lines es))"
    then obtain e where "e \<in> set es" and l: "l \<in> set (exchange_lines e)" by auto
    then have "exchange_ok e" using assms by (simp add: list_all_iff)
    then show "\<forall>c \<in> set l. \<not> is_linebreak c" using l by (rule exchange_unbroken)
  qed
  then show ?thesis by (simp add: cram_commands_def fold_exchanges [OF assms])
qed

definition demo_session :: "exchange list" where
  "demo_session = [(''cat > m.wax <<E'', [''x;'', ''E''], []), (''wax m.wax'', [], [''x;'', ''[1]''])]"

theorem transcript_commands_witness:
  "cram_commands (transcript demo_session)
     = [''cat > m.wax <<E'' @ [LF] @ ''x;'' @ [LF] @ ''E'', ''wax m.wax'']"
proof -
  have "list_all exchange_ok demo_session" by code_simp
  then show ?thesis by (simp only: transcript_commands) (simp add: demo_session_def)
qed

text \<open>
  C33: every test of the reference is either run or listed with a reason, never both and never
  neither: the included ones are exactly those without a reason and their transcripts are
  copied; the report names all the others, and the printed counts are those of the two lists.
\<close>

theorem classify_cram_exact:
  assumes "fst (cmd_classify_cram E False w) = Inr lines"
    and "fst (entries_of E (cram_src E) w) = Inr names"
  shows "\<exists>included excluded.
    lines = [''  in scope  '' @ str_nat (length included),
             ''  excluded  '' @ str_nat (length excluded) @ ''  (see test/cram-scope.md)'']
    \<and> distinct (included @ map fst excluded)
    \<and> set included = {n \<in> set names. reasons_of E w n = Some []}
    \<and> set excluded = {(n, why). n \<in> set names \<and> (\<exists>r rs. reasons_of E w n = Some (r # rs)
        \<and> why = hd (sorted_set (r # rs)))}
    \<and> disk (snd (cmd_classify_cram E False w)) (joinp (root E) ''test/cram-scope.md'')
        = Some (utf8_encode (scope_report included excluded))
    \<and> (\<forall>n \<in> set included. disk (snd (cmd_classify_cram E False w)) (joinp (joinp (cram_dst E) n) ''run.t'')
        = disk w (run_t E n))"
proof -
  have names: "entries_of E (cram_src E) w = (Inr names, w)" "distinct names"
    "\<forall>n \<in> set names. CHR ''/'' \<notin> set n"
    using assms(2) hd_split_on by (auto simp: entries_of_def)
  obtain inc exc w1 w2 where
    s: "cram_scope E names [] [] w = (Inr (inc, exc), w1)"
    and c: "copy_all E inc (snd (rmtree (cram_dst E) w1)) = (Inr (), w2)"
    and w': "snd (cmd_classify_cram E False w) = snd (write_text (joinp (root E) ''test/cram-scope.md'') (scope_report inc exc) w2)"
    and l: "lines = [''  in scope  '' @ str_nat (length inc),
             ''  excluded  '' @ str_nat (length exc) @ ''  (see test/cram-scope.md)'']"
    using run_eq [OF assms(1)] names(1)
    by (auto simp: cmd_classify_cram_def bindio_Inr_iff rmtree_def set_disk_def write_text_def write_bytes_def
        split: if_splits)
  note exact = cram_scope_exact [OF s, simplified]
  have inc: "\<forall>n \<in> set inc. CHR ''/'' \<notin> set n" using exact names(3) by simp
  have kept: "disk (snd (rmtree (cram_dst E) w1)) (run_t E n) = disk w (run_t E n)" for n
    using exact not_in_dst(2) by (simp add: rmtree_def set_disk_def)
  have "disk w (run_t E n) \<noteq> None" if "n \<in> set inc" for n
    using that exact by (auto simp: reasons_of_def read_text_def bindio_def read_bytes_def split: option.splits)
  then have copied: "disk w2 (joinp (joinp (cram_dst E) n) ''run.t'') = disk w (run_t E n)" if "n \<in> set inc" for n
    using that copy_all_transcripts [OF c inc] kept inc by simp
  have "joinp (joinp (cram_dst E) n) ''run.t'' \<noteq> joinp (root E) ''test/cram-scope.md''" for n
    by (simp add: joinp_def cram_dst_def)
  then have "disk (snd (cmd_classify_cram E False w)) (joinp (joinp (cram_dst E) n) ''run.t'') = disk w (run_t E n)"
    if "n \<in> set inc" for n
    using copied [OF that] by (simp add: w' write_text_def write_bytes_def set_disk_def)
  moreover have "disk (snd (cmd_classify_cram E False w)) (joinp (root E) ''test/cram-scope.md'')
      = Some (utf8_encode (scope_report inc exc))"
    by (simp add: w' write_text_def write_bytes_def set_disk_def)
  moreover have "distinct (inc @ map fst exc)" using exact names(2) by (auto simp: comp_def)
  moreover have "set inc = {n \<in> set names. reasons_of E w n = Some []}" using exact by simp
  moreover have "set exc = {(n, why). n \<in> set names \<and> (\<exists>r rs. reasons_of E w n = Some (r # rs)
        \<and> why = hd (sorted_set (r # rs)))}"
    using exact by (auto simp: image_iff neq_Nil_conv)
  ultimately show ?thesis using l by blast
qed

definition cram_env :: env where
  "cram_env = demo_env\<lparr>walk := (\<lambda>m. filter (\<lambda>p. m p \<noteq> None)
     [''/wax/test/cram-tests/b.t/run.t'', ''/wax/test/cram-tests/a.t/run.t''])\<rparr>"

definition cram_world :: world where
  "cram_world = demo_world\<lparr>disk := (disk demo_world)
     (''/wax/test/cram-tests/a.t/run.t'' \<mapsto> ''  $ wax check m.wax'' @ [LF],
      ''/wax/test/cram-tests/b.t/run.t'' \<mapsto> ''  $ wax lsp | cat'' @ [LF])\<rparr>"

lemma cram_entries: "fst (entries_of cram_env (cram_src cram_env) cram_world) = Inr [''a.t'', ''b.t'']"
  by code_simp

lemma cram_judged:
  "fst (cram_scope cram_env [''a.t'', ''b.t''] [] [] cram_world)
     = Inr ([''a.t''], [(''b.t'', ''runs the '' @ repr_str ''lsp'' @ '' subcommand'' @ not_implemented)])"
  by code_simp

theorem classify_cram_exact_witness:
  "\<exists>included excluded. distinct (included @ map fst (excluded :: (str \<times> str) list))
     \<and> set included = {n \<in> set [''a.t'', ''b.t'']. reasons_of cram_env cram_world n = Some []}"
  using classify_cram_exact [OF classify_cram_returns [OF cram_entries list.distinct(2) cram_judged] cram_entries]
  by (elim exE conjE) (intro exI conjI)

end
