(* ===== verification/Collect.thy ===== *)
theory Collect
  imports Oracles Paths Py_Regex Py_Repr
begin

text \<open>
  The \<open>collect\<close> command of \<open>tools/waxdiff.py\<close> (176--434): the corpus is rebuilt source by source
  from the reference's checkout, and the manifest records where every file came from.
\<close>

type_synonym manifest = "(str, json) dict"

definition checkout :: "env \<Rightarrow> path" where
  "checkout E = joinp (root E) ''wax''"

section \<open>One corpus file\<close>

definition write_corpus_file :: "str \<Rightarrow> str \<Rightarrow> str \<Rightarrow> manifest \<Rightarrow> manifest io" where
  "write_corpus_file rel text origin m = (case dget m rel of
      Some e \<Rightarrow> bindio (lift (obj_item e ''origin'')) (\<lambda>first.
        raise (AssertionError (''corpus name collision: '' @ repr_str rel @ '' claimed by both ''
          @ repr_json first @ '' and '' @ repr_str origin)))
    | None \<Rightarrow>
        bindio (corpus_path rel) (\<lambda>dest.
        bindio (write_text dest text) (\<lambda>_.
        ret (dset rel (JObj [(''origin'', JStr origin)]) m))))"

definition keep_file :: "str \<Rightarrow> str \<Rightarrow> str \<Rightarrow> nat \<times> manifest \<Rightarrow> (nat \<times> manifest) io" where
  \<comment> \<open>written and counted\<close>
  "keep_file rel text origin s =
     bindio (write_corpus_file rel text origin (snd s)) (\<lambda>m'. ret (fst s + 1, m'))"

section \<open>The sources\<close>

definition cram_name :: "path \<Rightarrow> str" where
  "cram_name p = ''cram/'' @ removesuffix (basename (parent p)) ''.t'' @ ''__'' @ basename p"

definition collect_cram :: "env \<Rightarrow> manifest \<Rightarrow> (nat \<times> manifest) io" where
  "collect_cram E m =
     bindio (rglob E (joinp (checkout E) ''test/cram-tests'') ''.wax'') (\<lambda>files.
     foldio (\<lambda>p s.
       bindio (read_text p) (\<lambda>text.
       bindio (lift (relative_to (checkout E) p)) (\<lambda>origin.
       keep_file (cram_name p) text origin s))) files (0, m))"

definition fence_rx :: rx where
  \<comment> \<open>\<open>^```(wax(?:,[a-z]+)?)\s*$\<close>\<close>
  "fence_rx = cat [Bol, lit ''```'', Grp 1 (cat [lit ''wax'', opt (cat [lit '','', plus (CharIf is_lower)])]),
     Many (CharIf is_space), Eol]"

definition closes :: "str \<Rightarrow> bool" where
  "closes l \<longleftrightarrow> rstrip l = ''```''"

function fenced :: "str list \<Rightarrow> (str \<times> str list) list" where
  \<comment> \<open>the label and the lines of every block that is not empty\<close>
  "fenced [] = []"
| "fenced (l # ls) = (case rx_match fence_rx l of
      None \<Rightarrow> fenced ls
    | Some g \<Rightarrow>
        (let body = takeWhile (\<lambda>x. \<not> closes x) ls;
             after = fenced (drop 1 (dropWhile (\<lambda>x. \<not> closes x) ls))
         in if body = [] then after else (group g 1, body) # after))"
  by pat_completeness auto
termination
  by (relation "measure length")
    (auto simp: less_Suc_eq_le intro: le_trans [OF diff_le_self length_dropWhile_le])

definition pad3 :: "nat \<Rightarrow> str" where
  "pad3 n = replicate (3 - length (str_nat n)) CHR ''0'' @ str_nat n"

definition doc_name :: "path \<Rightarrow> nat \<Rightarrow> str \<Rightarrow> str" where
  "doc_name md block label = ''docs/'' @ py_stem md @ ''__'' @ pad3 block
     @ (if contains label ''check'' then ''_checked'' else []) @ ''.wax''"

definition collect_page :: "env \<Rightarrow> path \<Rightarrow> nat \<times> manifest \<Rightarrow> (nat \<times> manifest) io" where
  "collect_page E md s =
     bindio (read_text md) (\<lambda>text.
     bindio (lift (relative_to (checkout E) md)) (\<lambda>page.
     foldio (\<lambda>(block, label, body).
         keep_file (doc_name md block label) (join [LF] body @ [LF]) (page @ '' block '' @ str_nat block))
       (enumerate 0 (fenced (splitlines text))) s))"

definition repr_strs :: "str list \<Rightarrow> str" where
  "repr_strs xs = ''['' @ join '', '' (map repr_str xs) @ '']''"

definition collect_docs :: "env \<Rightarrow> manifest \<Rightarrow> (nat \<times> manifest) io" where
  "collect_docs E m =
     bindio (rglob E (joinp (checkout E) ''docs/src'') ''.md'') (\<lambda>pages.
     let stems = map py_stem pages;
         twice = filter (\<lambda>s. 1 < count_list stems s) stems in
     if twice \<noteq> []
     then raise (SystemExit (''collect: duplicate doc stems: '' @ repr_strs (sorted_set twice)))
     else foldio (collect_page E) pages (0, m))"

definition bytes_space :: "char \<Rightarrow> bool" where
  "bytes_space c \<longleftrightarrow> code c = 32 \<or> 9 \<le> code c \<and> code c \<le> 13"

definition nothing :: "proc \<Rightarrow> bool" where
  \<comment> \<open>\<open>r.code != 0 or not r.out.strip()\<close>\<close>
  "nothing r \<longleftrightarrow> pcode r \<noteq> 0 \<or> list_all bytes_space (pout r)"

definition wat_name :: "str \<Rightarrow> str" where
  "wat_name below = ''wat/'' @ removesuffix (replace ''/'' ''__'' below) ''.wat'' @ ''.wax''"

definition collect_wat :: "env \<Rightarrow> manifest \<Rightarrow> (nat \<times> manifest) io" where
  "collect_wat E m =
     bindio (rglob E (joinp (checkout E) ''test'') ''.wat'') (\<lambda>files.
     foldio (\<lambda>p s.
       bindio (wax E [''-i'', ''wat'', ''-f'', ''wax'', p]) (\<lambda>r.
       if nothing r then ret s else
       bindio (lift (relative_to (joinp (checkout E) ''test'') p)) (\<lambda>below.
       bindio (lift (utf8_strict (pout r))) (\<lambda>text.
       bindio (lift (relative_to (checkout E) p)) (\<lambda>from.
       keep_file (wat_name below) text (from @ '' (wat->wax)'') s))))) files (0, m))"

text \<open>
  The modules of the specification suite: each script is split into a directory named by its
  stem, and the first \<open>per_wast\<close> modules that decompile are kept.
\<close>

definition spec_tag :: "str \<Rightarrow> str" where
  "spec_tag below = replace ''/'' ''__'' (removesuffix below ''.wast'')"

definition spec_name :: "str \<Rightarrow> path \<Rightarrow> str" where
  "spec_name below p = ''spec/'' @ spec_tag below @ ''__'' @ py_stem p @ ''.wax''"

fun spec_modules ::
    "env \<Rightarrow> path \<Rightarrow> int \<Rightarrow> path list \<Rightarrow> nat \<Rightarrow> nat \<times> manifest \<Rightarrow> (nat \<times> manifest) io" where
  "spec_modules E wast per_wast [] kept s = ret s"
| "spec_modules E wast per_wast (p # ps) kept s =
     (if per_wast \<le> int kept then ret s else
      bindio (wax E [p, ''-f'', ''wax'']) (\<lambda>r.
      if nothing r then spec_modules E wast per_wast ps kept s else
      bindio (lift (relative_to (joinp (checkout E) ''test'') wast)) (\<lambda>below.
      bindio (lift (utf8_strict (pout r))) (\<lambda>text.
      bindio (lift (relative_to (checkout E) wast)) (\<lambda>from.
      bindio (keep_file (spec_name below p) text
                (from @ '' -> '' @ basename p @ '' (wasm->wax)'') s) (\<lambda>s'.
      spec_modules E wast per_wast ps (kept + 1) s'))))))"

definition split_dir :: "env \<Rightarrow> path \<Rightarrow> path" where
  "split_dir E wast = joinp (joinp (report E) ''wast-split'') (py_stem wast)"

definition spec_script :: "env \<Rightarrow> int \<Rightarrow> path \<Rightarrow> nat \<times> manifest \<Rightarrow> (nat \<times> manifest) io" where
  "spec_script E per_wast wast s =
     (let d = split_dir E wast in
      bindio (run E [''wasm-tools'', ''json-from-wast'', ''--wasm-dir'', d,
                ''-o'', joinp d ''out.json'', wast] True None) (\<lambda>r.
      if pcode r \<noteq> 0 then ret s
      else bindio (glob_files E d ''.wasm'') (\<lambda>mods. spec_modules E wast per_wast mods 0 s)))"

definition limited :: "int option \<Rightarrow> 'a list \<Rightarrow> 'a list" where
  \<comment> \<open>\<open>if limit: xs = xs[:limit]\<close>\<close>
  "limited limit xs = (case limit of None \<Rightarrow> xs
     | Some n \<Rightarrow> if n = 0 then xs else if 0 < n then take (nat n) xs
                else take (length xs - nat (- n)) xs)"

definition collect_spec :: "env \<Rightarrow> int option \<Rightarrow> int \<Rightarrow> manifest \<Rightarrow> (nat \<times> manifest) io" where
  "collect_spec E limit per_wast m =
     (if \<not> has_wasm_tools E then ret (0, m) else
      bindio (rmtree (joinp (report E) ''wast-split'')) (\<lambda>_.
      bindio (rglob E (joinp (checkout E) ''test/wasm-test-suite'') ''.wast'') (\<lambda>suite.
      bindio (rglob E (joinp (checkout E) ''test/wasm-tools-suite'') ''.wast'') (\<lambda>tools.
      bindio (foldio (spec_script E per_wast)
                (limited limit (sort_key (split_on ''/'') (suite @ tools))) (0, m)) (\<lambda>s.
      bindio (rmtree (joinp (report E) ''wast-split'')) (\<lambda>_. ret s))))))"

section \<open>The command\<close>

record collect_args =
  conly :: "str list"
  cspec_limit :: "int option"
  cspec_per_wast :: int

definition all_sources :: "str list" where
  "all_sources = [''cram'', ''docs'', ''wat'', ''spec'']"

definition collector :: "env \<Rightarrow> collect_args \<Rightarrow> str \<Rightarrow> manifest \<Rightarrow> (nat \<times> manifest) io" where
  "collector E A name m =
     (if name = ''cram'' then collect_cram E m else if name = ''docs'' then collect_docs E m
      else if name = ''wat'' then collect_wat E m
      else if name = ''spec'' then collect_spec E (cspec_limit A) (cspec_per_wast A) m
      else raise (KeyError name))"

fun collect_sources ::
    "env \<Rightarrow> collect_args \<Rightarrow> str list \<Rightarrow> (str, nat) dict \<Rightarrow> manifest \<Rightarrow> ((str, nat) dict \<times> manifest) io" where
  "collect_sources E A [] counts m = ret (counts, m)"
| "collect_sources E A (name # names) counts m =
     bindio (corpus_path name) (\<lambda>d.
     bindio (rmtree d) (\<lambda>_.
     bindio (collector E A name m) (\<lambda>(n, m').
     collect_sources E A names (dset name n counts) m')))"

text \<open>The sources that are left alone are counted on the disk.\<close>

definition count_kept :: "env \<Rightarrow> str \<Rightarrow> (str, nat) dict \<Rightarrow> (str, nat) dict io" where
  "count_kept E name counts =
     (if dget counts name \<noteq> None then ret counts else
      bindio (corpus_path name) (\<lambda>d.
      bindio (has_dir E d) (\<lambda>there.
      if \<not> there then ret counts
      else bindio (glob_files E d ''.wax'') (\<lambda>files. ret (dset name (length files) counts)))))"

definition prior_files :: "manifest io" where
  "prior_files =
     bindio (corpus_path ''manifest.json'') (\<lambda>p.
     bindio (exists_file p) (\<lambda>there.
     if \<not> there then ret []
     else bindio (read_text p) (\<lambda>s.
       lift (bindr (bindr (loads s) (\<lambda>j. obj_item j ''files'')) as_obj))))"

definition source_of :: "str \<Rightarrow> str" where
  "source_of k = hd (split_on ''/'' k)"

definition carried :: "str list \<Rightarrow> manifest \<Rightarrow> manifest" where
  "carried sources prior = filter (\<lambda>(k, v). source_of k \<notin> set sources) prior"

definition corpus_comment :: str where
  "corpus_comment = ''Provenance for every corpus file. Regenerate with ''
     @ ''tools/waxdiff.py collect. Files are committed so the ''
     @ ''differential suite runs without the wax/ checkout.''"

definition manifest_json :: "(str, nat) dict \<Rightarrow> manifest \<Rightarrow> json" where
  "manifest_json counts m = JObj
     [(''_comment'', JStr corpus_comment),
      (''counts'', JObj (map (\<lambda>(k, n). (k, JInt (int n))) counts)),
      (''files'', JObj (sort_items m))]"

definition on_disk :: "env \<Rightarrow> str list io" where
  "on_disk E w = (case rglob E (corpus w) ''.wax'' w of
      (Inl e, w') \<Rightarrow> (Inl e, w')
    | (Inr ps, w') \<Rightarrow> (mapr (relative_to (corpus w)) ps, w'))"

definition chosen_sources :: "collect_args \<Rightarrow> str list" where
  "chosen_sources A = (if conly A = [] then all_sources else conly A)"

definition missing_message :: "str list \<Rightarrow> str" where
  "missing_message missing = ''waxdiff: '' @ str_nat (length (remdups missing))
     @ '' corpus file(s) have no manifest entry, e.g. '' @ repr_strs (take 3 (sorted_set missing))
     @ ''.'' @ [LF] @ ''Re-run a full `collect` (no --only) to rebuild provenance for every source.''"

definition record_corpus :: "env \<Rightarrow> (str, nat) dict \<Rightarrow> manifest \<Rightarrow> unit io" where
  "record_corpus E counts m =
     bindio (on_disk E) (\<lambda>files.
     let missing = filter (\<lambda>r. dget m r = None) files in
     if missing \<noteq> [] then raise (SystemExit (missing_message missing))
     else
     bindio (corpus_path ''manifest.json'') (\<lambda>p.
     write_text p (dumps Indent2 (manifest_json counts m) @ [LF])))"

definition cmd_collect :: "env \<Rightarrow> collect_args \<Rightarrow> (str, nat) dict io" where
  \<comment> \<open>the counts that are printed\<close>
  "cmd_collect E A =
     bindio (need_reference E) (\<lambda>_.
     bindio (has_dir E (checkout E)) (\<lambda>there.
     if \<not> there then raise (SystemExit (''waxdiff: reference checkout missing at '' @ checkout E)) else
     bindio prior_files (\<lambda>prior.
     bindio (collect_sources E A (chosen_sources A) [] (carried (chosen_sources A) prior)) (\<lambda>(counts0, m).
     bindio (foldio (count_kept E) all_sources counts0) (\<lambda>counts.
     bindio (record_corpus E counts m) (\<lambda>_. ret counts))))))"

definition count_lines :: "(str, nat) dict \<Rightarrow> str list" where
  "count_lines counts = map (\<lambda>(k, n). ''  '' @ ljust 6 k @ '' '' @ rjust 5 (str_nat n)) counts
     @ [''  total  '' @ rjust 5 (str_nat (sum_list (map snd counts)))]"

section \<open>A source only adds its own names\<close>

definition grows :: "str \<Rightarrow> nat \<times> manifest \<Rightarrow> nat \<times> manifest \<Rightarrow> bool" where
  "grows name s t \<longleftrightarrow> (\<exists>new. snd t = snd s @ new \<and> fst t = fst s + length new
     \<and> distinct (dkeys new) \<and> set (dkeys new) \<inter> set (dkeys (snd s)) = {}
     \<and> (\<forall>k \<in> set (dkeys new). source_of k = name))"

lemma grows_refl: "grows name s s"
  by (simp add: grows_def dkeys_def)

lemma grows_trans:
  assumes "grows name s t" and "grows name t u"
  shows "grows name s u"
proof -
  obtain a b where a: "snd t = snd s @ a" "fst t = fst s + length a" "distinct (dkeys a)"
      "set (dkeys a) \<inter> set (dkeys (snd s)) = {}" "\<forall>k \<in> set (dkeys a). source_of k = name"
    and b: "snd u = snd t @ b" "fst u = fst t + length b" "distinct (dkeys b)"
      "set (dkeys b) \<inter> set (dkeys (snd t)) = {}" "\<forall>k \<in> set (dkeys b). source_of k = name"
    using assms unfolding grows_def by blast
  show ?thesis unfolding grows_def
    by (rule exI [of _ "a @ b"]) (use a b in \<open>auto simp: dkeys_def\<close>)
qed

lemma source_of_prefix: "CHR ''/'' \<notin> set n \<Longrightarrow> source_of (n @ CHR ''/'' # x) = n"
proof -
  have "CHR ''/'' \<notin> set n \<Longrightarrow> hd (split_on ''/'' (n @ CHR ''/'' # x)) = n"
  proof (induction n)
    case (Cons c n)
    then show ?case
      by (cases "split_on ''/'' (n @ CHR ''/'' # x)") (auto simp: startswith_def split_on_nonempty)
  qed (simp add: startswith_def)
  then show "CHR ''/'' \<notin> set n \<Longrightarrow> ?thesis" by (simp add: source_of_def)
qed

lemma names_by_source [simp]:
  "source_of (cram_name p) = ''cram''" "source_of (doc_name md block label) = ''docs''"
  "source_of (wat_name below) = ''wat''" "source_of (spec_name below p) = ''spec''"
  using source_of_prefix [of "''cram''"] source_of_prefix [of "''docs''"] source_of_prefix [of "''wat''"]
    source_of_prefix [of "''spec''"]
  by (simp_all add: cram_name_def doc_name_def wat_name_def spec_name_def)

lemma dset_fresh: "dget m k = None \<Longrightarrow> dset k v m = m @ [(k, v)]"
  by (induction m) (auto split: if_splits)

lemma ensures_lift: "(\<And>x. r = Inr x \<Longrightarrow> Q x) \<Longrightarrow> ensures (lift r) Q"
  by (auto simp: ensures_def)

lemma keep_grows: "ensures (keep_file rel text origin s) (grows (source_of rel) s)"
proof -
  have "ensures (write_corpus_file rel text origin (snd s))
      (\<lambda>m'. dget (snd s) rel = None \<and> (\<exists>v. m' = snd s @ [(rel, v)]))"
    by (cases "dget (snd s) rel")
      (auto simp: write_corpus_file_def dset_fresh intro!: ensures_rules)
  then show ?thesis unfolding keep_file_def
  proof (rule ensures_bind_post, intro ensures_ret)
    fix m' assume "dget (snd s) rel = None \<and> (\<exists>v. m' = snd s @ [(rel, v)])"
    then obtain v where m: "m' = snd s @ [(rel, v)]" "rel \<notin> set (dkeys (snd s))"
      by (auto simp: dget_None_iff)
    show "grows (source_of rel) s (fst s + 1, m')" unfolding grows_def
      by (rule exI [of _ "[(rel, v)]"]) (use m in \<open>simp add: dkeys_def\<close>)
  qed
qed

lemmas keep_in = keep_grows [of "cram_name p" for p, simplified]
  keep_grows [of "doc_name md block label" for md block label, simplified]
  keep_grows [of "wat_name below" for below, simplified]
  keep_grows [of "spec_name below p" for below p, simplified]

lemma loop_grows: "(\<And>x s. ensures (f x s) (grows name s)) \<Longrightarrow> ensures (foldio f xs s) (grows name s)"
  by (rule ensures_foldio) (auto intro: grows_refl grows_trans)

lemma page_grows: "ensures (collect_page E md s) (grows ''docs'' s)"
  unfolding collect_page_def
  by (intro ensures_bind loop_grows) (auto intro: keep_in(2) split: prod.split)

lemma modules_grow: "ensures (spec_modules E wast per_wast ps kept s) (grows ''spec'' s)"
proof (induction ps arbitrary: kept s)
  case (Cons p ps)
  have "ensures (bindio (keep_file (spec_name below p) t or s)
      (\<lambda>s'. spec_modules E wast per_wast ps (kept + 1) s')) (grows ''spec'' s)" for below t or
    by (rule ensures_bind_post [OF keep_in(4)]) (rule ensures_weaken [OF Cons.IH], rule grows_trans)
  note step = this
  show ?case unfolding spec_modules.simps
    by (rule ensures_if, rule ensures_ret, rule grows_refl, rule ensures_bind, rule ensures_if,
        rule Cons.IH, rule ensures_bind, rule ensures_bind, rule ensures_bind, rule step)
qed (simp add: ensures_def grows_refl)

lemma script_grows: "ensures (spec_script E per_wast wast s) (grows ''spec'' s)"
  unfolding spec_script_def Let_def
  by (intro ensures_bind ensures_if modules_grow ensures_ret grows_refl)

section \<open>The contract of a source\<close>

locale corpus_source =
  fixes collect :: "manifest \<Rightarrow> (nat \<times> manifest) io" and name :: str
  assumes adds: "ensures (collect m) (grows name (0, m))"
begin

lemma added:
  assumes "collect m w = (Inr (n, m'), w')"
  shows "\<exists>new. m' = m @ new \<and> n = length new \<and> distinct (dkeys new)
    \<and> set (dkeys new) \<inter> set (dkeys m) = {} \<and> (\<forall>k \<in> set (dkeys new). source_of k = name)"
  using ensuresD [OF adds assms] by (simp add: grows_def)

lemma distinct_names:
  assumes "collect m w = (Inr (n, m'), w')" and "distinct (dkeys m)"
  shows "distinct (dkeys m')"
  using added [OF assms(1)] assms(2) by (elim exE conjE) (simp add: dkeys_def Int_commute)

lemma others_kept:
  assumes "collect m w = (Inr (n, m'), w')" and "other \<noteq> name"
  shows "filter (\<lambda>k. source_of k = other) (dkeys m') = filter (\<lambda>k. source_of k = other) (dkeys m)"
  using added [OF assms(1)] assms(2) by (auto simp: dkeys_def filter_empty_conv)

lemma counted:
  assumes "collect m w = (Inr (n, m'), w')" and "\<forall>k \<in> set (dkeys m). source_of k \<noteq> name"
  shows "length (filter (\<lambda>k. source_of k = name) (dkeys m')) = n"
proof -
  obtain new where m': "m' = m @ new" and n: "n = length new" and s: "\<forall>k \<in> set (dkeys new). source_of k = name"
    using added [OF assms(1)] by blast
  have "filter (\<lambda>k. source_of k = name) (dkeys m) = []" using assms(2) by (simp add: filter_empty_conv)
  moreover have "filter (\<lambda>k. source_of k = name) (dkeys new) = dkeys new" using s by (simp add: filter_id_conv)
  ultimately show ?thesis by (simp add: m' n dkeys_def)
qed

end

interpretation cram: corpus_source "collect_cram E" "''cram''" for E
  by unfold_locales (auto simp: collect_cram_def intro!: ensures_bind loop_grows keep_in(1))

interpretation docs: corpus_source "collect_docs E" "''docs''" for E
  by unfold_locales
    (auto simp: collect_docs_def Let_def intro!: ensures_bind ensures_raise loop_grows page_grows)

interpretation wat: corpus_source "collect_wat E" "''wat''" for E
  by unfold_locales
    (auto simp: collect_wat_def intro!: ensures_bind loop_grows keep_in(3) ensures_ret grows_refl)

interpretation spec: corpus_source "collect_spec E limit per_wast" "''spec''" for E limit per_wast
proof
  fix m
  have loop: "ensures (bindio (foldio (spec_script E per_wast) ws (0, m)) (\<lambda>s. bindio (rmtree d) (\<lambda>_. ret s)))
      (grows ''spec'' (0, m))" for ws d
    by (rule ensures_bind_post [OF loop_grows [OF script_grows]]) (intro ensures_bind ensures_ret)
  show "ensures (collect_spec E limit per_wast m) (grows ''spec'' (0, m))"
    unfolding collect_spec_def
    by (rule ensures_if, intro ensures_ret grows_refl)
      (rule ensures_bind, rule ensures_bind, rule ensures_bind, rule loop)
qed

interpretation any_source: corpus_source "collector E A name" name for E A name
proof
  show "ensures (collector E A name m) (grows name (0, m))" for m
    by (simp add: collector_def cram.adds docs.adds wat.adds spec.adds ensures_raise)
qed

section \<open>What a run records\<close>

definition entries_from :: "str \<Rightarrow> manifest \<Rightarrow> nat" where
  "entries_from name m = length (filter (\<lambda>k. source_of k = name) (dkeys m))"

lemma entries_from_0: "entries_from name m = 0 \<longleftrightarrow> (\<forall>k \<in> set (dkeys m). source_of k \<noteq> name)"
  by (auto simp: entries_from_def filter_empty_conv)

lemma sources_counted:
  assumes "collect_sources E A names counts m w = (Inr (counts', m'), w')" and "distinct names"
    and "\<forall>name \<in> set names. entries_from name m = 0"
    and "\<forall>name n. dget counts name = Some n \<longrightarrow> name \<notin> set names \<and> n = entries_from name m"
    and "distinct (dkeys m)"
  shows "distinct (dkeys m') \<and> (\<forall>name n. dget counts' name = Some n \<longrightarrow> n = entries_from name m')
    \<and> (\<forall>name \<in> set names. dget counts' name \<noteq> None)
    \<and> (\<forall>name. dget counts name \<noteq> None \<longrightarrow> dget counts' name \<noteq> None)"
  using assms
proof (induction names arbitrary: counts m w)
  case (Cons name names)
  obtain n m1 w1 w2 where c: "collector E A name m w1 = (Inr (n, m1), w2)"
    and r: "collect_sources E A names (dset name n counts) m1 w2 = (Inr (counts', m'), w')"
    using Cons.prems(1) by (auto simp: bindio_Inr_iff)
  have n: "n = entries_from name m1"
    using any_source.counted [OF c] Cons.prems(3) by (simp add: entries_from_0) (simp add: entries_from_def)
  have o: "entries_from other m1 = entries_from other m" if "other \<noteq> name" for other
    using any_source.others_kept [OF c that] by (simp add: entries_from_def)
  have "\<forall>other \<in> set names. entries_from other m1 = 0" using Cons.prems(2,3) o by force
  moreover have "\<forall>other k. dget (dset name n counts) other = Some k \<longrightarrow> other \<notin> set names \<and> k = entries_from other m1"
    using Cons.prems(2,4) n o by auto
  ultimately show ?case
    using Cons.IH [OF r] Cons.prems(2) any_source.distinct_names [OF c Cons.prems(5)] by auto
qed simp

lemma counts_extended:
  "ensures (foldio (count_kept E) names counts)
     (\<lambda>counts'. \<forall>name n. dget counts name = Some n \<longrightarrow> dget counts' name = Some n)"
proof (rule ensures_foldio)
  fix name and c :: "(str, nat) dict"
  show "ensures (count_kept E name c) (\<lambda>c'. \<forall>k n. dget c k = Some n \<longrightarrow> dget c' k = Some n)"
    unfolding count_kept_def by (intro ensures_if ensures_bind ensures_ret) auto
qed auto

lemma prior_files_world: "prior_files w = (r, w') \<Longrightarrow> w' = w"
  by (auto simp: prior_files_def bindio_def corpus_path_def exists_file_def dest: read_text_world
      split: if_splits prod.splits sum.splits)

lemma on_disk_world: "on_disk E w = (r, w') \<Longrightarrow> w' = w"
  by (auto simp: on_disk_def rglob_def)

lemma relative_to_Inr: "relative_to d p = Inr rel \<Longrightarrow> p = joinp d rel"
  by (auto simp: relative_to_def under_def startswith_iff joinp_def split: if_splits)

lemma on_disk_complete:
  assumes "on_disk E w = (Inr files, w')" and "joinp (corpus w) rel \<in> set (walk E (disk w))"
    and "endswith rel ''.wax''"
  shows "w' = w \<and> rel \<in> set files"
proof -
  define ps where "ps = sort_key (split_on ''/'') (filter (\<lambda>p. under (corpus w) p \<and> endswith p ''.wax'') (walk E (disk w)))"
  have m: "mapr (relative_to (corpus w)) ps = Inr files" and w: "w' = w"
    using assms(1) by (auto simp: on_disk_def rglob_def ps_def)
  have "joinp (corpus w) rel \<in> set ps"
    using assms(2,3) by (auto simp: ps_def under_def startswith_iff joinp_def endswith_iff)
  then obtain i where i: "i < length ps" "ps ! i = joinp (corpus w) rel" by (auto simp: in_set_conv_nth)
  then have "i < length files" "relative_to (corpus w) (ps ! i) = Inr (files ! i)"
    using m by (auto simp: mapr_Inr_iff list_all2_conv_all_nth)
  then have "files ! i = rel" using i by simp
  then show ?thesis using w \<open>i < length files\<close> by auto
qed

lemma prior_files_once:
  assumes "prior_files w = (Inr prior, w')"
  shows "distinct (dkeys prior)"
proof (cases "prior = []")
  case False
  then obtain s j f where "loads s = Inr j" "obj_item j ''files'' = Inr f" and f: "as_obj f = Inr prior"
    using assms by (auto simp: prior_files_def bindio_Inr_iff bindr_Inr_iff split: if_splits)
  then obtain d where "keys_once (JObj d)" "dget d ''files'' = Some f"
    using loads_once [of s j] by (auto simp: obj_item_def dindex_Inr_iff split: json.splits)
  then have "keys_once f" by (auto simp: list_all_iff dest!: map_of_SomeD)
  then show ?thesis using f by (auto simp: as_obj_def dkeys_def split: json.splits)
qed (simp add: dkeys_def)

section \<open>Properties\<close>

text \<open>
  C34: when \<open>collect\<close> succeeds, the manifest it writes accounts for the corpus: every \<open>.wax\<close> file
  that the final listing of the corpus showed has an entry, no name has two, and the count
  recorded for each rebuilt source is the number of its entries.
\<close>

theorem collect_provenance:
  assumes "fst (cmd_collect E A w) = Inr counts" and "distinct (chosen_sources A)"
  shows "\<exists>m w1. distinct (dkeys m)
    \<and> snd (cmd_collect E A w) = w1\<lparr>disk := (disk w1)(joinp (corpus w1) ''manifest.json'' \<mapsto>
        utf8_encode (dumps Indent2 (manifest_json counts m) @ [LF]))\<rparr>
    \<and> (\<forall>rel. endswith rel ''.wax'' \<and> joinp (corpus w1) rel \<in> set (walk E (disk w1)) \<longrightarrow> dget m rel \<noteq> None)
    \<and> (\<forall>name \<in> set (chosen_sources A). dget counts name = Some (entries_from name m))"
proof -
  obtain prior w1 w1' counts0 m w2 w3 where
    p': "prior_files w1 = (Inr prior, w1')"
    and s': "collect_sources E A (chosen_sources A) [] (carried (chosen_sources A) prior) w1' = (Inr (counts0, m), w2)"
    and f: "foldio (count_kept E) all_sources counts0 w2 = (Inr counts, w3)"
    and e: "record_corpus E counts m w3 = (Inr (), snd (cmd_collect E A w))"
    using run_eq [OF assms(1)] by (auto simp: cmd_collect_def bindio_Inr_iff split: if_splits)
  obtain files w3' where d': "on_disk E w3 = (Inr files, w3')" and missing: "filter (\<lambda>r. dget m r = None) files = []"
    using e by (auto simp: record_corpus_def bindio_Inr_iff Let_def split: if_splits)
  note p = p' [unfolded prior_files_world [OF p']] and s = s' [unfolded prior_files_world [OF p']]
    and d = d' [unfolded on_disk_world [OF d']]
  have w': "snd (cmd_collect E A w) = w3\<lparr>disk := (disk w3)(joinp (corpus w3) ''manifest.json'' \<mapsto>
        utf8_encode (dumps Indent2 (manifest_json counts m) @ [LF]))\<rparr>"
    using e d missing by (simp add: record_corpus_def bindio_def corpus_path_def write_text_def write_bytes_def set_disk_def)
  have "entries_from name (carried (chosen_sources A) prior) = 0" if "name \<in> set (chosen_sources A)" for name
    using that by (auto simp: entries_from_0 carried_def dkeys_def)
  moreover have "distinct (dkeys (carried (chosen_sources A) prior))"
    using prior_files_once [OF p] by (simp add: carried_def dkeys_def distinct_map_filter)
  ultimately have m: "distinct (dkeys m)" and c: "\<forall>name n. dget counts0 name = Some n \<longrightarrow> n = entries_from name m"
      "\<forall>name \<in> set (chosen_sources A). dget counts0 name \<noteq> None"
    using sources_counted [OF s assms(2)] by auto
  have "dget counts name = Some (entries_from name m)" if "name \<in> set (chosen_sources A)" for name
    using that c ensuresD [OF counts_extended f] by (metis option.exhaust)
  moreover have "dget m rel \<noteq> None"
    if "endswith rel ''.wax''" "joinp (corpus w3) rel \<in> set (walk E (disk w3))" for rel
    using on_disk_complete [OF d that(2,1)] missing by (simp add: filter_empty_conv)
  ultimately show ?thesis using m w' by (intro exI [of _ m] exI [of _ w3]) simp
qed

definition collect_env :: env where
  "collect_env = demo_env\<lparr>walk := (\<lambda>m. filter (\<lambda>p. m p \<noteq> None)
     [''/wax/test/cram-tests/t.t/m.wax'', ''/wax/docs/src/p.md'', ''k/cram/t__m.wax'', ''k/docs/p__000_checked.wax''])\<rparr>"

definition collect_world :: world where
  "collect_world = \<lparr>disk = map_of
     [(''/wax/test/cram-tests/t.t/m.wax'', ''x;''),
      (''/wax/docs/src/p.md'', ''```wax,check'' @ [LF] @ ''y;'' @ [LF] @ ''```'' @ [LF]),
      (''/tools/reference.json'', ''{'' @ [DQ] @ ''asset'' @ [DQ] @ '':'' @ [DQ] @ ''r'' @ [DQ] @ ''}''),
      (''/tools/wax-ref'', []), (''/tools/r'', [])],
     corpus = ''k'', golden = ''g'', span_exempt = []\<rparr>"

definition collect_two :: collect_args where
  "collect_two = \<lparr>conly = [''cram'', ''docs''], cspec_limit = None, cspec_per_wast = 5\<rparr>"

lemma demo_collect: "fst (cmd_collect collect_env collect_two collect_world) = Inr [(''cram'', 1), (''docs'', 1)]"
  by code_simp

theorem collect_provenance_witness:
  "\<exists>m. distinct (dkeys m) \<and> entries_from ''cram'' m = 1 \<and> entries_from ''docs'' m = 1"
proof -
  have "distinct (chosen_sources collect_two)" by code_simp
  from collect_provenance [OF demo_collect this] obtain m where "distinct (dkeys m)"
    and "\<forall>name \<in> set (chosen_sources collect_two). dget [(''cram'', 1), (''docs'', 1)] name = Some (entries_from name m)"
    by blast
  then show ?thesis by (intro exI [of _ m]) (simp add: chosen_sources_def collect_two_def)
qed

section \<open>Scripts with the same stem\<close>

text \<open>
  The scripts of two suites that share a stem are split into one directory, which is not emptied
  in between: the modules the first script left there are collected again under the name of the
  second.  Here the second script has one module, and is credited with two.
\<close>

definition twin_exec :: "str list \<Rightarrow> bytes option \<Rightarrow> files \<Rightarrow> answer \<times> files" where
  "twin_exec argv inp m =
     (if hd argv = ''wasm-tools'' then
        (Exited 0 [] [],
         if last argv = ''/wax/test/wasm-test-suite/x.wast''
         then m(''/test/report/wast-split/x/x.0.wasm'' \<mapsto> [], ''/test/report/wast-split/x/x.1.wasm'' \<mapsto> [])
         else m(''/test/report/wast-split/x/x.0.wasm'' \<mapsto> []))
      else (Exited 0 ''x;'' [], m))"

definition twin_env :: env where
  "twin_env = demo_env\<lparr>has_wasm_tools := True, exec := twin_exec, walk := (\<lambda>m. filter (\<lambda>p. m p \<noteq> None)
     [''/wax/test/wasm-test-suite/x.wast'', ''/wax/test/wasm-tools-suite/x.wast'',
      ''/test/report/wast-split/x/x.0.wasm'', ''/test/report/wast-split/x/x.1.wasm''])\<rparr>"

definition twin_world :: world where
  "twin_world = \<lparr>disk = map_of [(''/wax/test/wasm-test-suite/x.wast'', []), (''/wax/test/wasm-tools-suite/x.wast'', [])],
     corpus = ''k'', golden = ''g'', span_exempt = []\<rparr>"

lemma stale_split_modules:
  "map_sum id (map fst \<circ> snd) (fst (collect_spec twin_env None 5 [] twin_world)) = Inr
     [''spec/wasm-test-suite__x__x.0.wax'', ''spec/wasm-test-suite__x__x.1.wax'',
      ''spec/wasm-tools-suite__x__x.0.wax'', ''spec/wasm-tools-suite__x__x.1.wax'']"
  by code_simp

end
