(* ===== verification/Grade.thy ===== *)
theory Grade
  imports Golden
begin

text \<open>
  Grading one input with the oracles and no goldens, and recognising the recorded divergences by
  their shape: \<open>_is_finding9\<close>, \<open>_is_finding12\<close>, \<open>_reference_reproduces_instability\<close> and
  \<open>grade\<close> of \<open>tools/waxdiff.py\<close> (1310--1519).
\<close>

section \<open>Recorded divergences, by their shape\<close>

fun all_res :: "('a \<Rightarrow> bool res) \<Rightarrow> 'a list \<Rightarrow> bool res" where
  \<comment> \<open>a loop that returns \<open>False\<close> at the first element that fails\<close>
  "all_res f [] = Inr True"
| "all_res f (x # xs) = bindr (f x) (\<lambda>b. if b then all_res f xs else Inr False)"

definition offset :: "json \<Rightarrow> int res" where
  "offset j = (case j of JInt i \<Rightarrow> Inr i | JBool b \<Rightarrow> Inr (if b then 1 else 0) | _ \<Rightarrow> Inl TypeError)"

definition gated_apart :: "policy \<Rightarrow> diag \<Rightarrow> diag \<Rightarrow> bool" where
  \<comment> \<open>some gated field other than a span differs\<close>
  "gated_apart P w g \<longleftrightarrow> list_ex (\<lambda>k. differs w g k \<and> k \<in> set (gated P) \<and> k \<notin> set span_fields)
     (dkeys w @ dkeys g)"

definition string_span :: "bytes \<Rightarrow> policy \<Rightarrow> json \<times> json \<Rightarrow> bool res" where
  "string_span raw P wg =
     bindr (as_obj (fst wg)) (\<lambda>w. bindr (as_obj (snd wg)) (\<lambda>g.
     if gated_apart P w g then Inr False
     else if \<not> list_ex (differs w g) span_fields then Inr False
     else if jget g ''startOffset'' = JNull \<or> jget g ''endOffset'' = JNull then Inr False
     else bindr (offset (jget g ''startOffset'')) (\<lambda>st.
       if \<not> (0 \<le> st \<and> st < int (length raw)) then Inr False
       else if raw ! nat st \<noteq> DQ then Inr False
       else if \<not> py_eq (jget w ''endOffset'') (jget g ''endOffset'') then Inr False
       else bindr (offset (jget g ''endOffset'')) (\<lambda>en.
         Inr (py_eq (jget w ''startOffset'') (JInt (en - 1)))))))"

definition is_finding9 :: "str \<Rightarrow> json list \<Rightarrow> json list \<Rightarrow> policy \<Rightarrow> bool res" where
  "is_finding9 src want got P =
     (if length want \<noteq> length got \<or> want = [] then Inr False
      else all_res (string_span (utf8_encode src) P) (zip want got))"

text \<open>
  Only a string can start with one of the two openings, so another value's \<open>str()\<close> is read as
  empty.
\<close>

definition syntax_message :: "diag \<Rightarrow> bool" where
  "syntax_message d \<longleftrightarrow> (case jget d ''message'' of
      JStr s \<Rightarrow> startswith s ''Expecting '' \<or> startswith s ''Assuming that '' | _ \<Rightarrow> False)"

definition bounds_of :: "diag \<Rightarrow> (int \<times> int) option res" where
  "bounds_of d = (if jget d ''startOffset'' = JNull \<or> jget d ''endOffset'' = JNull then Inr None
     else bindr (offset (jget d ''startOffset'')) (\<lambda>st.
          bindr (offset (jget d ''endOffset'')) (\<lambda>en. Inr (Some (st, en)))))"

definition is_finding12 :: "json list \<Rightarrow> json list \<Rightarrow> policy \<Rightarrow> bool res" where
  "is_finding12 want got P =
     (case (want, got) of
        ([jw], [jg]) \<Rightarrow>
          bindr (as_obj jw) (\<lambda>w. bindr (as_obj jg) (\<lambda>g.
          if gated_apart P w g then Inr False
          else if \<not> differs w g ''message'' then Inr False
          else bindr (bounds_of w) (\<lambda>bw. bindr (bounds_of g) (\<lambda>bg.
            case (bw, bg) of
              (Some (wst, wen), Some (gst, gen)) \<Rightarrow>
                if wen \<le> gst then Inr (syntax_message g \<and> \<not> syntax_message w)
                else if gen \<le> wst then Inr (syntax_message w \<and> \<not> syntax_message g)
                else Inr False
            | _ \<Rightarrow> Inr False))))
      | _ \<Rightarrow> Inr False)"

definition timed_out_text :: bytes where
  "timed_out_text = ''waxdiff: timed out''"

definition reproduces_instability :: "env \<Rightarrow> str list \<Rightarrow> path \<Rightarrow> bool io" where
  "reproduces_instability E impl p =
     bindio (impl_run E impl [p, ''-f'', ''wax'']) (\<lambda>once.
     if pcode once \<noteq> 0 then ret False else
     bindio (new_temp_file E ''.wax'' (pout once)) (\<lambda>tmp.
     bindio (try_finally
        (bindio (impl_run E impl [tmp, ''-f'', ''wax'']) (\<lambda>ours.
         bindio (wax E [tmp, ''-f'', ''wax'']) (\<lambda>theirs. ret (ours, theirs))))
        (unlink tmp)) (\<lambda>(ours, theirs).
     ret (if pcode ours \<noteq> pcode theirs then False
          else if pcode ours \<noteq> 0
          then 0 < pcode ours \<and> perr ours = perr theirs \<and> strip (perr ours) \<noteq> timed_out_text
          else pout ours \<noteq> pout once \<and> pout theirs = pout ours))))"

section \<open>Grading a mutant\<close>

definition mutant :: str where
  "mutant = ''mutant.wax''"

definition set_roots :: "path \<Rightarrow> path \<Rightarrow> unit io" where
  "set_roots c g w = (Inr (), w\<lparr>corpus := c, golden := g\<rparr>)"

definition set_exempt :: "str \<Rightarrow> unit io" where
  "set_exempt reason w = (Inr (), w\<lparr>span_exempt := dset mutant reason (span_exempt w)\<rparr>)"

definition pop_exempt :: "unit io" where
  "pop_exempt w = (Inr (), w\<lparr>span_exempt := filter (\<lambda>kv. fst kv \<noteq> mutant) (span_exempt w)\<rparr>)"

definition run_oracles ::
    "env \<Rightarrow> str list \<Rightarrow> path \<Rightarrow> meta \<Rightarrow> policy \<Rightarrow> nat list \<Rightarrow> outcome io" where
  "run_oracles E impl p m P os =
     bindio (if 1 \<in> set os then check_oracle1 E impl mutant p m P no_outcome else ret no_outcome) (\<lambda>o1.
     bindio (if 2 \<in> set os then check_oracle2 E impl mutant p m P o1 else ret o1) (\<lambda>o2.
     if 3 \<in> set os then check_oracle3 E impl mutant p m P o2 else ret o2))"

definition grade_oracles ::
    "env \<Rightarrow> str list \<Rightarrow> path \<Rightarrow> meta \<Rightarrow> policy \<Rightarrow> nat list \<Rightarrow> failure list io" where
  "grade_oracles E impl p m P os =
     bindio (run_oracles E impl p m P os) (\<lambda>out.
     if list_ex (\<lambda>f. foracle f = ''idempotence'') (failures out) then
       bindio (reproduces_instability E impl p) (\<lambda>shared.
       ret (if shared then filter (\<lambda>f. foracle f \<noteq> ''idempotence'') (failures out) else failures out))
     else ret (failures out))"

text \<open>
  The reason to exempt the mutant, or the failure that its output is not JSON.  Only asked when
  the reference printed diagnostics.
\<close>

definition recognise ::
    "env \<Rightarrow> str list \<Rightarrow> str \<Rightarrow> path \<Rightarrow> policy \<Rightarrow> (failure + str option) io" where
  "recognise E impl src p P =
     bindio (golden_path ''mutant.diag.jsonl'') (\<lambda>want_path.
     bindio (exists_file want_path) (\<lambda>there.
     if \<not> there then ret (Inr None) else
     bindio (read_text want_path) (\<lambda>s.
     bindio (lift (parse_jsonl s)) (\<lambda>want.
     bindio (impl_run E impl [''check'', ''--error-format'', ''json'', p]) (\<lambda>r.
     let t = decode (perr r) in
     (case parse_jsonl t of
        Inl JSONDecodeError \<Rightarrow>
          ret (Inl \<lparr>ffile = mutant, foracle = ''errors'', fdetail = NonJson (take 2000 t)\<rparr>)
      | Inl e \<Rightarrow> raise e
      | Inr got \<Rightarrow>
          bindio (lift (is_finding9 src want got P)) (\<lambda>f9.
          if f9 then ret (Inr (Some ''finding 9 (string span)'')) else
          bindio (lift (is_finding12 want got P)) (\<lambda>f12.
          ret (Inr (if f12 then Some ''finding 12 (action timing)'' else None))))))))))"

definition grade_body ::
    "env \<Rightarrow> str list \<Rightarrow> str \<Rightarrow> policy \<Rightarrow> nat list \<Rightarrow> failure list io" where
  "grade_body E impl src P os =
     bindio (corpus_path mutant) (\<lambda>p.
     bindio (write_text p src) (\<lambda>_.
     bindio (on_json_error
        (bindio (classify_one E p) (\<lambda>res. bindio (write_golden res) (\<lambda>m. ret (Some m))))
        (ret None)) (\<lambda>recorded.
     case recorded of
       None \<Rightarrow> ret []
     | Some m \<Rightarrow>
         bindio (recognise E impl src p P) (\<lambda>r.
         case r of
           Inl f \<Rightarrow> ret [f]
         | Inr None \<Rightarrow> grade_oracles E impl p m P os
         | Inr (Some reason) \<Rightarrow>
             bindio (set_exempt reason) (\<lambda>_.
             try_finally (grade_oracles E impl p m P os) pop_exempt)))))"

definition grade :: "env \<Rightarrow> str list \<Rightarrow> str \<Rightarrow> policy \<Rightarrow> nat list \<Rightarrow> failure list io" where
  "grade E impl src P os w =
     (let scratch = temp_dir E ''waxdiff-fuzz-'' (disk w) in
      try_finally
        (bindio (set_roots (joinp scratch ''corpus'') (joinp scratch ''golden'')) (\<lambda>_.
           grade_body E impl src P os))
        (bindio (set_roots (corpus w) (golden w)) (\<lambda>_. rmtree scratch)) w)"

text \<open>\<open>fuzz --oracle 4\<close> is accepted and compares nothing: no branch of \<open>grade\<close> runs oracle 4.\<close>

lemma oracle4_ungraded: "grade_oracles E impl p m P [4] = ret []"
  by (rule ext) (simp add: grade_oracles_def run_oracles_def no_outcome_def bindio_def)

section \<open>What the shapes promise\<close>

lemma all_res_True: "all_res f xs = Inr True \<Longrightarrow> \<forall>x \<in> set xs. f x = Inr True"
  by (induction xs) (auto simp: bindr_Inr_iff split: if_splits)

lemma differs_keys: "differs w g k \<Longrightarrow> k \<in> set (dkeys w @ dkeys g)"
proof (rule ccontr)
  assume d: "differs w g k" and "k \<notin> set (dkeys w @ dkeys g)"
  then have "dget w k = None" "dget g k = None" using dget_None_iff [of _ k] by auto
  then show False using d by (simp add: differs_def jget_def)
qed

lemma not_gated_apart:
  "\<not> gated_apart P w g \<Longrightarrow> differs w g k \<Longrightarrow> k \<in> set (gated P) \<Longrightarrow> k \<in> set span_fields"
  using differs_keys by (fastforce simp: gated_apart_def list_ex_iff)

lemma normalize_file_value: "jget (normalize_obj w) ''file'' = (case jget w ''file'' of
    JStr s \<Rightarrow> JStr (case rfind s corpus_marker of None \<Rightarrow> s | Some at \<Rightarrow> drop at s) | v \<Rightarrow> v)"
  by (simp add: normalize_obj_def split: json.split option.split)

lemma normalize_same_file:
  assumes "\<not> differs w g ''file''"
  shows "\<not> differs (normalize_obj w) (normalize_obj g) ''file''"
proof (cases "\<exists>s. jget w ''file'' = JStr s")
  case True
  then obtain s where s: "jget w ''file'' = JStr s" by blast
  then have "jget g ''file'' = JStr s" using assms by (simp add: differs_def)
  then show ?thesis using s by (simp add: differs_def normalize_file_value)
next
  case False
  then have "\<not> (\<exists>s. jget g ''file'' = JStr s)" using assms by (auto simp: differs_def)
  then have "jget (normalize_obj w) ''file'' = jget w ''file''"
    "jget (normalize_obj g) ''file'' = jget g ''file''"
    using False by (simp_all add: normalize_file_value split: json.split)
  then show ?thesis using assms by (simp add: differs_def)
qed

lemma differs_normalized: "k \<noteq> ''file'' \<Longrightarrow> differs (normalize_obj w) (normalize_obj g) k = differs w g k"
  by (simp add: differs_def jget_normalize)

lemma excusable:
  assumes "\<not> gated_apart P w g" and "reason \<noteq> None"
  shows "agree reason (gated P) (normalize_obj w) (normalize_obj g)"
  unfolding agree_def excused_def
proof (intro ballI impI conjI)
  fix f assume f: "f \<in> set (gated P)" and d: "differs (normalize_obj w) (normalize_obj g) f"
  show "reason \<noteq> None" by (rule assms(2))
  have "''file'' \<notin> set span_fields" by code_simp
  then show "f \<in> set span_fields"
    using not_gated_apart [OF assms(1) _ f] d normalize_same_file differs_normalized by (cases "f = ''file''") blast+
qed

lemma span_divergence:
  assumes "differs w g f" and "f \<in> set span_fields" and "set span_fields \<subseteq> set (gated P)"
  shows "diverges (gated P) (normalize_obj w) (normalize_obj g)"
proof -
  have "''file'' \<notin> set span_fields" by code_simp
  then have "f \<noteq> ''file''" using assms(2) by blast
  then show ?thesis unfolding diverges_def using assms differs_normalized by (intro bexI [of _ f]) auto
qed

lemma string_span_shape:
  assumes "string_span raw P (JObj w, JObj g) = Inr True"
  shows "\<not> gated_apart P w g \<and> (\<exists>f \<in> set span_fields. differs w g f)"
  using assms by (auto simp: string_span_def as_obj_def list_ex_iff split: if_splits)

lemma finding9_parity:
  assumes f: "is_finding9 src (map JObj want) (map JObj got) P = Inr True"
    and gated: "set span_fields \<subseteq> set (gated P)" and c: "c = diag_code m"
  shows "error_parity (Some reason) P m c (map normalize_obj want) (map normalize_obj got)"
proof -
  have len: "length want = length got" "want \<noteq> []"
    and all: "all_res (string_span (utf8_encode src) P) (zip (map JObj want) (map JObj got)) = Inr True"
    using f by (auto simp: is_finding9_def split: if_splits)
  have pair: "\<not> gated_apart P w g \<and> (\<exists>f \<in> set span_fields. differs w g f)"
    if "(w, g) \<in> set (zip want got)" for w g
  proof -
    have "(JObj w, JObj g) \<in> set (zip (map JObj want) (map JObj got))"
      using that by (auto simp: zip_map_map)
    then show ?thesis using all_res_True [OF all] string_span_shape by blast
  qed
  have z: "zip (map normalize_obj want) (map normalize_obj got)
      = map (\<lambda>(w, g). (normalize_obj w, normalize_obj g)) (zip want got)"
    by (simp add: zip_map_map)
  have "list_all2 (agree (Some reason) (gated P)) (map normalize_obj want) (map normalize_obj got)"
    using len(1) pair excusable by (fastforce simp: list_all2_iff z)
  moreover have "\<exists>(w, g) \<in> set (zip (map normalize_obj want) (map normalize_obj got)). diverges (gated P) w g"
  proof -
    obtain w g where wg: "(w, g) \<in> set (zip want got)" using len by (cases want; cases got) auto
    then have "diverges (gated P) (normalize_obj w) (normalize_obj g)"
      using pair span_divergence [OF _ _ gated] by blast
    then show ?thesis using wg by (force simp: z)
  qed
  ultimately show ?thesis using len(1) c by (simp add: error_parity_def)
qed

lemma finding12_parity:
  assumes f: "is_finding12 [JObj w] [JObj g] P = Inr True"
    and gated: "set span_fields \<subseteq> set (gated P)" and c: "c = diag_code m"
    and apart: "\<exists>f \<in> set span_fields. differs w g f"
  shows "error_parity (Some reason) P m c [normalize_obj w] [normalize_obj g]"
proof -
  have "\<not> gated_apart P w g"
    using f by (auto simp: is_finding12_def as_obj_def split: if_splits)
  then have "agree (Some reason) (gated P) (normalize_obj w) (normalize_obj g)"
    by (rule excusable) simp
  moreover have "diverges (gated P) (normalize_obj w) (normalize_obj g)"
    using apart span_divergence [OF _ _ gated] by blast
  ultimately show ?thesis using c by (simp add: error_parity_def)
qed

section \<open>Grading leaves the globals alone\<close>

definition keeps_exempt :: "'a io \<Rightarrow> bool" where
  "keeps_exempt m \<longleftrightarrow> (\<forall>w. mutant \<notin> set (dkeys (span_exempt w)) \<longrightarrow> span_exempt (snd (m w)) = span_exempt w)"

lemma keeps_exempt_globals: "keeps_globals m \<Longrightarrow> keeps_exempt m"
  by (simp add: keeps_globals_def keeps_exempt_def)

lemma keeps_exempt_bind:
  assumes m: "keeps_exempt m" and f: "\<And>x. keeps_exempt (f x)"
  shows "keeps_exempt (bindio m f)"
  unfolding keeps_exempt_def
proof (intro allI impI)
  fix w :: world assume w: "mutant \<notin> set (dkeys (span_exempt w))"
  obtain r w1 where r: "m w = (r, w1)" by (cases "m w")
  have e: "span_exempt w1 = span_exempt w" using m w r by (auto simp: keeps_exempt_def)
  show "span_exempt (snd (bindio m f w)) = span_exempt w"
    using f [unfolded keeps_exempt_def] e w by (cases r) (auto simp: bindio_def r)
qed

lemma keeps_exempt_json: "keeps_globals m \<Longrightarrow> keeps_globals h \<Longrightarrow> keeps_globals (on_json_error m h)"
proof -
  assume m: "keeps_globals m" and h: "keeps_globals h"
  have "corpus (snd (on_json_error m h w)) = corpus w \<and> golden (snd (on_json_error m h w)) = golden w
      \<and> span_exempt (snd (on_json_error m h w)) = span_exempt w" for w
  proof -
    obtain r w1 where r: "m w = (r, w1)" by (cases "m w")
    have "corpus w1 = corpus w" "golden w1 = golden w" "span_exempt w1 = span_exempt w"
      using m [unfolded keeps_globals_def, rule_format, of w] r by auto
    then show ?thesis using h [unfolded keeps_globals_def, rule_format, of w1]
      by (auto simp: on_json_error_def r split: sum.split exn.split)
  qed
  then show ?thesis by (simp add: keeps_globals_def)
qed

lemma pop_after_set: "mutant \<notin> set (dkeys d) \<Longrightarrow> filter (\<lambda>kv. fst kv \<noteq> mutant) (dset mutant v d) = d"
  by (induction d) (auto simp: dkeys_def)

lemma keeps_classify [globals_rules]: "keeps_globals (classify_one E p)" "keeps_globals (write_golden r)"
proof -
  have "keeps_globals (\<lambda>w. lift (relative_to (corpus w) p) w)" by (simp add: keeps_globals_def)
  then show "keeps_globals (classify_one E p)"
    unfolding classify_one_def reference_check_def Let_def
    by (intro globals_rules)
  show "keeps_globals (write_golden r)"
    unfolding write_golden_def write_reprint_def write_diagnostics_def Let_def
    by (intro globals_rules)
qed

lemma keeps_grade_oracles [globals_rules]: "keeps_globals (grade_oracles E impl p m P os)"
  unfolding grade_oracles_def run_oracles_def reproduces_instability_def
  by (intro globals_rules oracle1.globals_kept oracle2.globals_kept oracle3.globals_kept)

lemma keeps_recognise [globals_rules]: "keeps_globals (recognise E impl src p P)"
proof -
  have k: "keeps_globals (case parse_jsonl t of
      Inl JSONDecodeError \<Rightarrow> ret a | Inl e \<Rightarrow> raise e | Inr got \<Rightarrow> f got)"
    if "\<And>got. keeps_globals (f got)" for t a and f :: "json list \<Rightarrow> (failure + str option) io"
    using that by (auto split: sum.split exn.split intro: globals_rules)
  show ?thesis unfolding recognise_def Let_def
    by (intro globals_rules k)
qed

lemma keeps_body: "keeps_exempt (grade_body E impl src P os)"
proof -
  have ex: "keeps_exempt (bindio (set_exempt reason) (\<lambda>_. try_finally (grade_oracles E impl p m P os) pop_exempt))"
    for reason p m
    unfolding keeps_exempt_def
  proof (intro allI impI)
    fix w :: world assume w: "mutant \<notin> set (dkeys (span_exempt w))"
    let ?w1 = "w\<lparr>span_exempt := dset mutant reason (span_exempt w)\<rparr>"
    obtain r w2 where r: "grade_oracles E impl p m P os ?w1 = (r, w2)" by (cases "grade_oracles E impl p m P os ?w1")
    have "span_exempt w2 = dset mutant reason (span_exempt w)"
      using keeps_grade_oracles [unfolded keeps_globals_def, rule_format, of E impl p m P os ?w1] r by simp
    then show "span_exempt (snd (bindio (set_exempt reason)
        (\<lambda>_. try_finally (grade_oracles E impl p m P os) pop_exempt) w)) = span_exempt w"
      using pop_after_set [OF w] by (simp add: bindio_def set_exempt_def try_finally_def r pop_exempt_def)
  qed
  have r: "keeps_exempt (case r of Inl f \<Rightarrow> ret [f] | Inr None \<Rightarrow> grade_oracles E impl p m P os
      | Inr (Some reason) \<Rightarrow> bindio (set_exempt reason)
          (\<lambda>_. try_finally (grade_oracles E impl p m P os) pop_exempt))" for r p m
    using ex by (auto split: sum.split option.split intro: keeps_exempt_globals globals_rules)
  have c: "keeps_exempt (case x of None \<Rightarrow> ret [] | Some m \<Rightarrow> f m)"
    if "\<And>m. keeps_exempt (f m)" for x and f :: "meta \<Rightarrow> failure list io"
    using that by (auto split: option.split intro: keeps_exempt_globals globals_rules)
  show ?thesis unfolding grade_body_def
    by (intro keeps_exempt_bind c r keeps_exempt_globals [OF keeps_exempt_json]
        keeps_exempt_globals [OF keeps_basic(7)] keeps_exempt_globals [OF keeps_calls(7)]
        keeps_exempt_globals [OF keeps_recognise] globals_rules)
qed

lemma grade_world:
  assumes "mutant \<notin> set (dkeys (span_exempt w))"
  shows "corpus (snd (grade E impl src P os w)) = corpus w"
    and "golden (snd (grade E impl src P os w)) = golden w"
    and "span_exempt (snd (grade E impl src P os w)) = span_exempt w"
    and "under (temp_dir E ''waxdiff-fuzz-'' (disk w)) q \<Longrightarrow> disk (snd (grade E impl src P os w)) q = None"
proof -
  let ?s = "temp_dir E ''waxdiff-fuzz-'' (disk w)"
  let ?w1 = "w\<lparr>corpus := joinp ?s ''corpus'', golden := joinp ?s ''golden''\<rparr>"
  obtain r w2 where r: "grade_body E impl src P os ?w1 = (r, w2)" by (cases "grade_body E impl src P os ?w1")
  have e: "span_exempt w2 = span_exempt w"
    using keeps_body [unfolded keeps_exempt_def, rule_format, of ?w1 E impl src P os] assms r by simp
  have g: "snd (grade E impl src P os w) = w2\<lparr>corpus := corpus w, golden := golden w,
      disk := (\<lambda>p. if under ?s p then None else disk w2 p)\<rparr>"
    by (simp add: grade_def Let_def try_finally_def bindio_def set_roots_def r rmtree_def set_disk_def
        cong: if_cong)
  show "corpus (snd (grade E impl src P os w)) = corpus w"
    "golden (snd (grade E impl src P os w)) = golden w"
    "span_exempt (snd (grade E impl src P os w)) = span_exempt w"
    "under ?s q \<Longrightarrow> disk (snd (grade E impl src P os w)) q = None"
    using e by (simp_all add: g)
qed

section \<open>Properties\<close>

text \<open>
  C27: what is recognised as finding 9 is excused by oracle 3 and never trips over the check for
  stale exemptions: with every span field gated and the same exit code, the listed mutant
  passes.
\<close>

theorem finding9_excused:
  assumes "is_finding9 src (map JObj want) (map JObj got) P = Inr True"
    and "set span_fields \<subseteq> set (gated P)" and "c = diag_code m"
  shows "error_parity (Some reason) P m c (map normalize_obj want) (map normalize_obj got)"
  by (rule finding9_parity [OF assms])

definition demo_span :: "int \<Rightarrow> int \<Rightarrow> str \<Rightarrow> diag" where
  "demo_span a b msg = [(''startOffset'', JInt a), (''endOffset'', JInt b), (''message'', JStr msg)]"

definition span_policy :: policy where
  "span_policy = demo_policy\<lparr>gated := ''severity'' # span_fields\<rparr>"

theorem finding9_excused_witness:
  "error_parity (Some ''finding 9'') span_policy demo_bad_meta 1
     (map normalize_obj [demo_span 2 3 ''m'']) (map normalize_obj [demo_span 0 3 ''m''])"
  by (rule finding9_excused [where src = "[DQ] @ ''a'' @ [DQ]"]) code_simp+

text \<open>
  The recognition of finding 12 has no such guarantee: two empty spans at one offset count
  as disjoint, so the exemption is set although the spans agree, and oracle 3 fails the mutant
  for a stale exemption.
\<close>

lemma finding12_empty_spans:
  "is_finding12 [JObj (demo_span 4 4 ''bad attribute'')] [JObj (demo_span 4 4 ''Expecting x'')] span_policy
     = Inr True
   \<and> compare_diags mutant (Some ''finding 12'') span_policy demo_bad_meta 1
       [demo_span 4 4 ''bad attribute''] [demo_span 4 4 ''Expecting x''] no_outcome
     = fail mutant ''errors'' (StaleExemption ''finding 12'')
         (add_drift (FieldDrift mutant 0 ''message'' None (JStr ''bad attribute'') (JStr ''Expecting x'')) no_outcome)"
  by (rule conjI) code_simp+

text \<open>
  C10: however grading ends, by a value or by an exception, the corpus and golden directories and
  the table of exemptions are what they were, and nothing is left in the scratch directory.
\<close>

theorem grade_restores:
  assumes "mutant \<notin> set (dkeys (span_exempt w))"
  shows "corpus (snd (grade E impl src P os w)) = corpus w
    \<and> golden (snd (grade E impl src P os w)) = golden w
    \<and> span_exempt (snd (grade E impl src P os w)) = span_exempt w
    \<and> (\<forall>q. under (temp_dir E ''waxdiff-fuzz-'' (disk w)) q \<longrightarrow> disk (snd (grade E impl src P os w)) q = None)"
  by (simp add: grade_world [OF assms])

theorem grade_restores_witness:
  "span_exempt (snd (grade demo_env demo_impl ''bad'' demo_policy [1, 2, 3] demo_world)) = span_exempt_init"
proof -
  have "mutant \<notin> set (dkeys (span_exempt demo_world))" by code_simp
  from grade_restores [OF this, of demo_env demo_impl "''bad''" demo_policy "[1, 2, 3]"]
  show ?thesis by (simp add: demo_world_def)
qed

end
