(* ===== verification/Mutate.thy ===== *)
theory Mutate
  imports Py_Regex
begin

text \<open>
  Cutting a corpus file into tokens, editing them and writing them back (\<open>tools/waxdiff.py\<close>,
  1241--1307).  The generator of random numbers is a parameter: \<open>below s n\<close> is a number below
  \<open>n\<close> and the next state.
\<close>

section \<open>Tokens\<close>

definition ident_start :: "char \<Rightarrow> bool" where
  "ident_start c \<longleftrightarrow> code c < 128 \<and> (is_upper c \<or> is_lower c \<or> c = CHR ''_'')"

definition ident_part :: "char \<Rightarrow> bool" where
  "ident_part c \<longleftrightarrow> ident_start c \<or> is_digit c \<or> c = CHR ''.''"

definition quoted :: "char \<Rightarrow> rx" where
  "quoted q = cat [lit [q], Many (Alt (none_of [q, BSL]) (Cat (lit [BSL]) dot)), lit [q]]"

definition token_rx :: rx where
  "token_rx = alts
     ([Cat (lit ''//'') (Many (none_of [LF])),
       cat [lit ''/*'', Many (Alt (none_of ''*'') (Cat (lit ''*'') (NotAhead (lit ''/'')))), lit ''*/''],
       quoted DQ,
       quoted SQ,
       Cat (CharIf ident_start) (Many (CharIf ident_part)),
       cat [lit ''0'', any_of ''xXbBoO'', plus (any_of ''0123456789abcdefABCDEF_'')],
       cat [CharIf is_digit, Many (any_of ''0123456789_''),
         opt (Cat (lit ''.'') (Many (any_of ''0123456789_'')))]]
      @ map lit [''>>='', ''<<='', ''>=s'', ''>=u'', ''<=s'', ''<=u'', ''>>s'', ''>>u'',
         ''->'', ''=>'', ''::'', ''=='', ''!='', ''<='', ''>='', ''<<'', ''++'',
         ''+='', ''-='', ''*='', ''/='', ''%='', ''&='', ''|='', ''^='', '':='',
         ''/s'', ''/u'', ''%s'', ''%u'', ''<s'', ''<u'', ''>s'', ''>u'']
      @ [CharIf (\<lambda>c. \<not> is_space c)])"

definition tokenize :: "str \<Rightarrow> str list" where
  "tokenize src = map fst (rx_findall token_rx src)"

fun consumes :: "rx \<Rightarrow> bool" where
  \<comment> \<open>every match takes at least one character\<close>
  "consumes (CharIf P) = True"
| "consumes (Cat r r') = (consumes r \<or> consumes r')"
| "consumes (Alt r r') = (consumes r \<and> consumes r')"
| "consumes (Grp n r) = consumes r"
| "consumes r = False"

lemma consumes_shorter:
  "consumes r \<Longrightarrow> m \<in> set (ms r p cs) \<Longrightarrow> length (snd (fst m)) < length (snd p)"
proof (induction r arbitrary: p cs m)
  case (CharIf P)
  then show ?case by (cases "snd p") (auto simp: char_step_def split: if_splits)
next
  case (Cat r r')
  then obtain m1 where m1: "m1 \<in> set (ms r p cs)" "m \<in> set (ms r' (fst m1) (snd m1))" by auto
  note le = ms_length [OF m1(1)] ms_length [OF m1(2)]
  show ?case using Cat.prems(1) Cat.IH(1) [OF _ m1(1)] Cat.IH(2) [OF _ m1(2)] le by fastforce
qed auto

lemma alts_last: "ms r p cs \<noteq> [] \<Longrightarrow> r \<in> set rs \<Longrightarrow> ms (alts rs) p cs \<noteq> []"
  by (induction rs rule: alts.induct) auto

lemma consumes_alts: "list_all consumes rs \<Longrightarrow> consumes (alts rs)"
  by (induction rs rule: alts.induct) auto

lemma consumes_lit: "s \<noteq> [] \<Longrightarrow> consumes (lit s)"
  by (cases s) (auto simp: lit_def)

lemma consumes_token: "consumes token_rx"
  unfolding token_rx_def
  by (rule consumes_alts)
    (simp add: consumes_lit quoted_def opt_def plus_def any_of_def)

interpretation tokens: scanner token_rx "\<lambda>c. \<not> is_space c"
proof unfold_locales
  fix c b s
  assume c: "\<not> is_space c"
  have "ms (CharIf (\<lambda>c. \<not> is_space c)) (b, c # s) [] \<noteq> []"
    using c by (simp add: char_step_def)
  then have "ms token_rx (b, c # s) [] \<noteq> []"
    unfolding token_rx_def by (rule alts_last) simp
  then obtain m l where m: "ms token_rx (b, c # s) [] = m # l" by (cases "ms token_rx (b, c # s) []") auto
  have "length (snd (fst m)) < length (c # s)"
    using consumes_shorter [OF consumes_token, of m "(b, c # s)" "[]"] m by simp
  then show "\<exists>m. rx_match_at token_rx (b, c # s) = Some m \<and> length (snd (fst m)) \<le> length s"
    by (auto simp: rx_match_at_def m)
qed

section \<open>Edits\<close>

type_synonym 's below = "'s \<Rightarrow> nat \<Rightarrow> nat \<times> 's"

definition swap_at :: "nat \<Rightarrow> 'a list \<Rightarrow> 'a list" where
  "swap_at i xs = (let j = min (i + 1) (length xs - 1) in xs[i := xs ! j, j := xs ! i])"

definition delete_at :: "nat \<Rightarrow> 'a list \<Rightarrow> 'a list" where
  "delete_at i xs = take i xs @ drop (i + 1) xs"

definition duplicate_at :: "nat \<Rightarrow> 'a list \<Rightarrow> 'a list" where
  "duplicate_at i xs = take i xs @ [xs ! i] @ drop i xs"

definition mutate :: "'s below \<Rightarrow> str list \<Rightarrow> 's \<Rightarrow> str list \<times> 's" where
  "mutate below tokens s =
     (if length tokens < 2 then (tokens, s)
      else
        let (i, s1) = below s (length tokens);
            (kind, s2) = below s1 4
        in if kind = 0 then (swap_at i tokens, s2)
           else if kind = 1 then (delete_at i tokens, s2)
           else if kind = 2 then (duplicate_at i tokens, s2)
           else let (j, s3) = below s2 (length tokens) in (tokens[i := tokens ! j], s3))"

fun mutate_times :: "'s below \<Rightarrow> nat \<Rightarrow> str list \<Rightarrow> 's \<Rightarrow> str list \<times> 's" where
  "mutate_times below 0 tokens s = (tokens, s)"
| "mutate_times below (Suc n) tokens s =
     (let (tokens', s') = mutate below tokens s in mutate_times below n tokens' s')"

definition ends_line :: "str \<Rightarrow> bool" where
  "ends_line t \<longleftrightarrow> t \<in> {'';'', ''{'', ''}''} \<or> startswith t ''//''"

definition render_tokens :: "str list \<Rightarrow> str" where
  "render_tokens tokens =
     strip (concat (map (\<lambda>t. t @ (if ends_line t then [LF] else '' '')) tokens)) @ [LF]"

section \<open>What an edit can do\<close>

lemma mutate_cases:
  assumes "2 \<le> length tokens" and "\<And>s n. 0 < n \<Longrightarrow> fst (below s n) < n"
  shows "\<exists>i < length tokens. \<exists>j < length tokens. fst (mutate below tokens s) \<in>
    {swap_at i tokens, delete_at i tokens, duplicate_at i tokens, tokens[i := tokens ! j]}"
proof -
  have n: "0 < length tokens" using assms(1) by linarith
  obtain i s1 where i: "below s (length tokens) = (i, s1)" by (cases "below s (length tokens)")
  obtain k s2 where k: "below s1 4 = (k, s2)" by (cases "below s1 4")
  obtain j s3 where j: "below s2 (length tokens) = (j, s3)" by (cases "below s2 (length tokens)")
  have "i < length tokens" "j < length tokens"
    using assms(2) [OF n, of s] assms(2) [OF n, of s2] i j by simp_all
  then show ?thesis using assms(1) i k j by (auto simp: mutate_def)
qed

lemma set_swap: "i < length xs \<Longrightarrow> mset (swap_at i xs) = mset xs"
  unfolding swap_at_def Let_def by (rule mset_swap) auto

lemma mutate_shape:
  assumes b: "\<And>s n. 0 < n \<Longrightarrow> fst (below s n) < n"
  shows "set (fst (mutate below tokens s)) \<subseteq> set tokens
    \<and> length (fst (mutate below tokens s)) \<le> length tokens + 1
    \<and> length tokens \<le> length (fst (mutate below tokens s)) + 1"
proof (cases "2 \<le> length tokens")
  case True
  then obtain i j where ij: "i < length tokens" "j < length tokens"
    "fst (mutate below tokens s) \<in>
      {swap_at i tokens, delete_at i tokens, duplicate_at i tokens, tokens[i := tokens ! j]}"
    using mutate_cases [where below = below and s = s, OF True b] by blast
  have "set (swap_at i tokens) = set tokens" "length (swap_at i tokens) = length tokens"
    using set_swap [OF ij(1)] by (metis set_mset_mset, metis size_mset)
  moreover have "set (delete_at i tokens) \<subseteq> set tokens"
    by (auto simp: delete_at_def dest: in_set_takeD in_set_dropD)
  moreover have "length (delete_at i tokens) + 1 = length tokens"
    using ij(1) by (simp add: delete_at_def)
  moreover have "set (duplicate_at i tokens) \<subseteq> set tokens"
    using ij(1) by (auto simp: duplicate_at_def dest: in_set_takeD in_set_dropD)
  moreover have "length (duplicate_at i tokens) = length tokens + 1"
    using ij(1) by (simp add: duplicate_at_def)
  moreover have "set (tokens[i := tokens ! j]) \<subseteq> set tokens"
    using ij(2) by (intro set_update_subsetI) auto
  moreover have "length (tokens[i := tokens ! j]) = length tokens" by simp
  ultimately show ?thesis using ij(3) by auto
qed (simp add: mutate_def)

lemma mutate_times_set:
  assumes b: "\<And>s n. 0 < n \<Longrightarrow> fst (below s n) < n"
  shows "set (fst (mutate_times below n tokens s)) \<subseteq> set tokens
    \<and> length (fst (mutate_times below n tokens s)) \<le> length tokens + n
    \<and> length tokens \<le> length (fst (mutate_times below n tokens s)) + n"
proof (induction n arbitrary: tokens s)
  case (Suc n)
  obtain t s' where t: "mutate below tokens s = (t, s')" by (cases "mutate below tokens s")
  show ?case using Suc.IH [of t s'] mutate_shape [where below = below and tokens = tokens and s = s, OF b] t by auto
qed simp

section \<open>Properties\<close>

text \<open>
  C28: tokenizing loses nothing but white space: the tokens, put end to end, hold the visible
  characters of the source in their order.
\<close>

theorem tokenize_complete:
  "filter (\<lambda>c. \<not> is_space c) (concat (tokenize src)) = filter (\<lambda>c. \<not> is_space c) src"
  using tokens.filter_findall [of src] by (simp add: tokenize_def)

text \<open>
  C29: \<open>n\<close> edits invent no token, and change the number of tokens by at most \<open>n\<close>.
\<close>

theorem mutations_bounded:
  assumes "\<And>s n. 0 < n \<Longrightarrow> fst (below s n) < n"
  shows "set (fst (mutate_times below n tokens s)) \<subseteq> set tokens
    \<and> length (fst (mutate_times below n tokens s)) \<le> length tokens + n
    \<and> length tokens \<le> length (fst (mutate_times below n tokens s)) + n"
  using assms by (rule mutate_times_set)

theorem mutations_bounded_witness:
  "set (fst (mutate_times (\<lambda>s n. (s mod n, s + 1)) 2 [''a'', ''b'', ''c''] (0::nat))) \<subseteq> {''a'', ''b'', ''c''}"
  using mutations_bounded [of "\<lambda>s n. (s mod n, s + 1)" 2 "[''a'', ''b'', ''c'']" "0::nat"] by auto

end
