(* ===== verification/Minimize.thy ===== *)
theory Minimize
  imports Grade Mutate
begin

text \<open>
  \<open>minimize\<close> of \<open>tools/waxdiff.py\<close> (1522--1553): shrinking a find by dropping chunks of tokens.
\<close>

section \<open>Shrinking a find\<close>

text \<open>
  One pass at one width, and the passes.  \<open>fails\<close> grades a candidate.  A pass returns the number
  of attempts so far, whether anything was dropped, and the tokens kept.
\<close>

function pass_loop ::
    "(str list \<Rightarrow> failure list io) \<Rightarrow> nat \<Rightarrow> nat \<Rightarrow> nat \<Rightarrow> nat \<Rightarrow> bool \<Rightarrow> str list \<Rightarrow>
     (nat \<times> bool \<times> str list) io" where
  "pass_loop fails budget width i spent shrunk kept w =
     (if i < length kept \<and> spent < budget then
        let candidate = take i kept @ drop (i + width) kept in
        (case (if candidate = [] then (Inr [], w) else fails candidate w) of
           (Inl e, w') \<Rightarrow> (Inl e, w')
         | (Inr fs, w') \<Rightarrow>
             if fs \<noteq> [] then pass_loop fails budget width i (spent + 1) True candidate w'
             else pass_loop fails budget width (i + width) (spent + 1) shrunk kept w')
      else (Inr (spent, shrunk, kept), w))"
  by pat_completeness auto
termination
  by (relation "measure (\<lambda>(fails, budget, width, i, spent, shrunk, kept, w). budget - spent)") auto

declare pass_loop.simps [simp del]

lemma pass_loop_spent:
  "pass_loop fails budget width i spent shrunk kept w = (Inr (spent', shrunk', kept'), w') \<Longrightarrow>
   spent \<le> spent' \<and> (shrunk' \<and> \<not> shrunk \<longrightarrow> spent < spent') \<and> (spent \<le> budget \<longrightarrow> spent' \<le> budget)"
proof (induction fails budget width i spent shrunk kept w rule: pass_loop.induct)
  case (1 fails budget width i spent shrunk kept w)
  show ?case
  proof (cases "i < length kept \<and> spent < budget")
    case False
    then show ?thesis using 1(3) by (subst (asm) pass_loop.simps) auto
  next
    case True
    let ?c = "take i kept @ drop (i + width) kept"
    obtain r w1 where r: "(if ?c = [] then (Inr [], w) else fails ?c w) = (r, w1)"
      by (metis surj_pair)
    have "\<exists>fs. r = Inr fs"
      using 1(3) True r by (subst (asm) pass_loop.simps) (auto simp: Let_def split: sum.splits)
    then obtain fs where fs: "r = Inr fs" by blast
    show ?thesis
    proof (cases "fs = []")
      case False
      have "pass_loop fails budget width i (spent + 1) True ?c w1 = (Inr (spent', shrunk', kept'), w')"
        using 1(3) True r fs False by (subst (asm) pass_loop.simps) (simp add: Let_def)
      from 1(1) [OF True refl r [symmetric] fs False this] show ?thesis using True by simp
    next
      case nil: True
      have "pass_loop fails budget width (i + width) (spent + 1) shrunk kept w1
          = (Inr (spent', shrunk', kept'), w')"
        using 1(3) True r fs nil by (subst (asm) pass_loop.simps) (simp add: Let_def)
      moreover have "\<not> fs \<noteq> []" using nil by simp
      ultimately show ?thesis using 1(2) [OF True refl r [symmetric] fs] True by auto
    qed
  qed
qed

function minimize_loop ::
    "(str list \<Rightarrow> failure list io) \<Rightarrow> nat \<Rightarrow> nat \<Rightarrow> nat \<Rightarrow> str list \<Rightarrow> (nat \<times> str list) io" where
  "minimize_loop fails budget width spent kept w =
     (if 1 \<le> width \<and> spent < budget then
        (case pass_loop fails budget width 0 spent False kept w of
           (Inl e, w') \<Rightarrow> (Inl e, w')
         | (Inr (spent', shrunk, kept'), w') \<Rightarrow>
             minimize_loop fails budget (if shrunk then width else width div 2) spent' kept' w')
      else (Inr (spent, kept), w))"
  by pat_completeness auto
termination
  by (relation "measures [\<lambda>(fails, budget, width, spent, kept, w). budget - spent,
      \<lambda>(fails, budget, width, spent, kept, w). width]")
    (auto dest!: sym [THEN pass_loop_spent])

declare minimize_loop.simps [simp del]

definition minimize ::
    "env \<Rightarrow> str list \<Rightarrow> str list \<Rightarrow> policy \<Rightarrow> nat list \<Rightarrow> nat \<Rightarrow> (nat \<times> str list) io" where
  \<comment> \<open>the attempts spent are returned beside the tokens kept\<close>
  "minimize E impl tokens P os budget =
     minimize_loop (\<lambda>c. grade E impl (render_tokens c) P os) budget
       (max 1 (length tokens div 2)) 0 tokens"

section \<open>What shrinking keeps\<close>

definition still_fails :: "(str list \<Rightarrow> failure list io) \<Rightarrow> str list \<Rightarrow> str list \<Rightarrow> bool" where
  "still_fails fails tokens kept \<longleftrightarrow> kept = tokens \<or> (\<exists>w fs w'. fails kept w = (Inr fs, w') \<and> fs \<noteq> [])"

definition shrunk_from :: "(str list \<Rightarrow> failure list io) \<Rightarrow> str list \<Rightarrow> str list \<Rightarrow> bool" where
  "shrunk_from fails tokens kept \<longleftrightarrow> subseq kept tokens \<and> (tokens \<noteq> [] \<longrightarrow> kept \<noteq> [])
     \<and> still_fails fails tokens kept"

lemma shrunk_refl [simp]: "shrunk_from fails t t"
  by (simp add: shrunk_from_def still_fails_def)

lemma shrunk_trans: "shrunk_from fails a b \<Longrightarrow> shrunk_from fails b c \<Longrightarrow> shrunk_from fails a c"
  unfolding shrunk_from_def still_fails_def by (metis subseq_order.order_trans)

lemma subseq_cut: "subseq (take i xs @ drop (i + n) xs) xs"
proof -
  have "subseq (drop n (drop i xs)) (drop i xs)"
    by (rule suffix_imp_subseq) (rule suffix_drop)
  from list_emb_append_mono [OF subseq_order.order_refl this, of "take i xs"] show ?thesis
    by (simp add: add.commute)
qed

text \<open>One step of a pass, as a case distinction on the attempt.\<close>

lemma pass_loop_step:
  assumes "i < length kept" "spent < budget"
    and "pass_loop fails budget width i spent shrunk kept w = (Inr x, w')"
  shows "(\<exists>fs w1. fs \<noteq> [] \<and> take i kept @ drop (i + width) kept \<noteq> []
        \<and> fails (take i kept @ drop (i + width) kept) w = (Inr fs, w1)
        \<and> pass_loop fails budget width i (spent + 1) True (take i kept @ drop (i + width) kept) w1 = (Inr x, w'))
    \<or> (\<exists>w1. (take i kept @ drop (i + width) kept = [] \<and> w1 = w
          \<or> fails (take i kept @ drop (i + width) kept) w = (Inr [], w1))
        \<and> pass_loop fails budget width (i + width) (spent + 1) shrunk kept w1 = (Inr x, w'))"
proof -
  let ?c = "take i kept @ drop (i + width) kept"
  obtain r w1 where r: "(if ?c = [] then (Inr [], w) else fails ?c w) = (r, w1)" by (metis surj_pair)
  have "\<exists>fs. r = Inr fs"
    using assms r by (subst (asm) pass_loop.simps) (auto simp: Let_def split: sum.splits)
  then obtain fs where fs: "r = Inr fs" by blast
  show ?thesis
  proof (cases "fs = []")
    case True
    then have "pass_loop fails budget width (i + width) (spent + 1) shrunk kept w1 = (Inr x, w')"
      using assms r fs by (subst (asm) pass_loop.simps) (simp add: Let_def)
    then show ?thesis using r fs True by (auto split: if_splits)
  next
    case False
    then have "pass_loop fails budget width i (spent + 1) True ?c w1 = (Inr x, w')"
      using assms r fs by (subst (asm) pass_loop.simps) (simp add: Let_def)
    moreover have "?c \<noteq> []" "fails ?c w = (Inr fs, w1)" using r fs False by (auto split: if_splits)
    ultimately show ?thesis using False by blast
  qed
qed

lemma pass_loop_done: "\<not> (i < length kept \<and> spent < budget) \<Longrightarrow>
    pass_loop fails budget width i spent shrunk kept w = (Inr (spent, shrunk, kept), w)"
  by (subst pass_loop.simps) auto

lemma pass_loop_kept:
  "pass_loop fails budget width i spent shrunk kept w = (Inr (spent', shrunk', kept'), w') \<Longrightarrow>
   shrunk_from fails kept kept'"
proof (induction "budget - spent" arbitrary: i spent shrunk kept w rule: less_induct)
  case less
  show ?case
  proof (cases "i < length kept \<and> spent < budget")
    case False
    then show ?thesis using less.prems pass_loop_done [OF False] by auto
  next
    case True
    let ?c = "take i kept @ drop (i + width) kept"
    have dec: "budget - (spent + 1) < budget - spent" using True by (simp add: diff_less_mono2)
    from pass_loop_step [OF _ _ less.prems] True
    consider fs w1 where "fs \<noteq> []" "?c \<noteq> []" "fails ?c w = (Inr fs, w1)"
        "pass_loop fails budget width i (spent + 1) True ?c w1 = (Inr (spent', shrunk', kept'), w')"
      | w1 where "pass_loop fails budget width (i + width) (spent + 1) shrunk kept w1
          = (Inr (spent', shrunk', kept'), w')" by blast
    then show ?thesis
    proof cases
      case 1
      have "shrunk_from fails kept ?c"
        unfolding shrunk_from_def still_fails_def using 1 subseq_cut by blast
      then show ?thesis using less.hyps [OF dec 1(4)] shrunk_trans by blast
    next
      case 2
      then show ?thesis using less.hyps [OF dec] by blast
    qed
  qed
qed

lemma minimize_loop_kept:
  "minimize_loop fails budget width spent kept w = (Inr (spent', kept'), w') \<Longrightarrow> spent \<le> budget \<Longrightarrow>
   shrunk_from fails kept kept' \<and> spent' \<le> budget"
proof (induction fails budget width spent kept w rule: minimize_loop.induct)
  case (1 fails budget width spent kept w)
  show ?case
  proof (cases "1 \<le> width \<and> spent < budget")
    case False
    then show ?thesis using 1(2,3) by (subst (asm) minimize_loop.simps) auto
  next
    case True
    then obtain s1 sh k1 w1 where p: "pass_loop fails budget width 0 spent False kept w = (Inr (s1, sh, k1), w1)"
      and r: "minimize_loop fails budget (if sh then width else width div 2) s1 k1 w1 = (Inr (spent', kept'), w')"
      using 1(2) by (subst (asm) minimize_loop.simps) (auto split: prod.splits sum.splits)
    have "s1 \<le> budget" using pass_loop_spent [OF p] 1(3) by blast
    then show ?thesis
      using 1(1) [OF True p [symmetric] refl refl refl r] pass_loop_kept [OF p] shrunk_trans by blast
  qed
qed

text \<open>
  What the search relies on: from the worlds of a set, grading returns and stays in the set.
\<close>

definition settles :: "world set \<Rightarrow> (str list \<Rightarrow> failure list io) \<Rightarrow> bool" where
  "settles W fails \<longleftrightarrow> (\<forall>c. \<forall>w \<in> W. \<exists>fs. \<exists>w' \<in> W. fails c w = (Inr fs, w'))"

lemma pass_loop_returns:
  assumes "settles W fails"
  shows "w \<in> W \<Longrightarrow> \<exists>x. \<exists>w' \<in> W. pass_loop fails budget width i spent shrunk kept w = (Inr x, w')"
proof (induction "budget - spent" arbitrary: i spent shrunk kept w rule: less_induct)
  case less
  let ?c = "take i kept @ drop (i + width) kept"
  have "\<exists>fs. \<exists>w1 \<in> W. (if c = [] then (Inr [], w) else fails c w) = (Inr fs, w1)" for c
    using assms less.prems unfolding settles_def by (cases "c = []") auto
  then obtain fs w1 where f: "(if ?c = [] then (Inr [], w) else fails ?c w) = (Inr fs, w1)" "w1 \<in> W"
    by blast
  show ?case
  proof (cases "i < length kept \<and> spent < budget")
    case False
    then show ?thesis using less.prems pass_loop_done [OF False] by auto
  next
    case True
    have dec: "budget - (spent + 1) < budget - spent" using True by (simp add: diff_less_mono2)
    show ?thesis using less.hyps [OF dec f(2)] f(1) True
      by (subst pass_loop.simps) (simp add: Let_def)
  qed
qed

lemma minimize_loop_returns:
  assumes "settles W fails"
  shows "w \<in> W \<Longrightarrow> \<exists>x. \<exists>w' \<in> W. minimize_loop fails budget width spent kept w = (Inr x, w')"
  using assms
proof (induction fails budget width spent kept w rule: minimize_loop.induct)
  case (1 fails budget width spent kept w)
  obtain s1 sh k1 w1 where p: "pass_loop fails budget width 0 spent False kept w = (Inr (s1, sh, k1), w1)"
    and w1: "w1 \<in> W"
    using pass_loop_returns [where fails = fails and budget = budget and width = width and i = 0
        and spent = spent and shrunk = False and kept = kept, OF 1(3,2)]
    by (auto simp: split_paired_Ex)
  show ?case
  proof (cases "1 \<le> width \<and> spent < budget")
    case False
    then show ?thesis using 1(2) by (subst minimize_loop.simps) auto
  next
    case True
    from 1(1) [OF True p [symmetric] refl refl refl w1 1(3)] show ?thesis
      using True p by (subst minimize_loop.simps) simp
  qed
qed

lemma pass_loop_shrunk:
  "pass_loop fails budget width i spent True kept w = (Inr (spent', shrunk', kept'), w') \<Longrightarrow> shrunk'"
proof (induction "budget - spent" arbitrary: i spent kept w rule: less_induct)
  case less
  show ?case
  proof (cases "i < length kept \<and> spent < budget")
    case False
    then show ?thesis using less.prems pass_loop_done [OF False] by auto
  next
    case True
    have dec: "budget - (spent + 1) < budget - spent" using True by (simp add: diff_less_mono2)
    from pass_loop_step [OF _ _ less.prems] True less.hyps [OF dec] show ?thesis by blast
  qed
qed

text \<open>
  Local minimality.  When the answer for a candidate does not depend on the world, a search that
  ends before its budget is spent has tried, on the tokens it keeps, every single deletion.
\<close>

definition locally_minimal :: "(str list \<Rightarrow> failure list) \<Rightarrow> str list \<Rightarrow> bool" where
  "locally_minimal f kept \<longleftrightarrow> (\<forall>j < length kept. delete_at j kept = [] \<or> f (delete_at j kept) = [])"

definition answers :: "world set \<Rightarrow> (str list \<Rightarrow> failure list io) \<Rightarrow> (str list \<Rightarrow> failure list) \<Rightarrow> bool" where
  "answers W fails f \<longleftrightarrow> (\<forall>c. \<forall>w \<in> W. \<exists>w' \<in> W. fails c w = (Inr (f c), w'))"

lemma answers_settles: "answers W fails f \<Longrightarrow> settles W fails"
  unfolding answers_def settles_def by blast

lemma answersD: "answers W fails f \<Longrightarrow> w \<in> W \<Longrightarrow> fails c w = (Inr fs, w') \<Longrightarrow> fs = f c \<and> w' \<in> W"
  unfolding answers_def by (metis Inr_inject prod.inject)

lemma pass_loop_single:
  assumes a: "answers W fails f"
  shows "pass_loop fails budget 1 i spent False kept w = (Inr (spent', False, kept'), w') \<Longrightarrow>
    spent' < budget \<Longrightarrow> w \<in> W \<Longrightarrow>
    kept' = kept \<and> (\<forall>j. i \<le> j \<and> j < length kept \<longrightarrow> delete_at j kept = [] \<or> f (delete_at j kept) = [])"
proof (induction "budget - spent" arbitrary: i spent kept w rule: less_induct)
  case less
  have sp: "spent < budget" using pass_loop_spent [OF less.prems(1)] less.prems(2) by simp
  show ?case
  proof (cases "i < length kept")
    case False
    then show ?thesis using less.prems pass_loop_done [of i kept spent budget fails 1 False w] by auto
  next
    case True
    let ?c = "take i kept @ drop (i + 1) kept"
    have dec: "budget - (spent + 1) < budget - spent" using sp by (simp add: diff_less_mono2)
    from pass_loop_step [OF True sp less.prems(1)]
    consider w1 where "pass_loop fails budget 1 i (spent + 1) True ?c w1 = (Inr (spent', False, kept'), w')"
      | w1 where "?c = [] \<and> w1 = w \<or> fails ?c w = (Inr [], w1)"
          "pass_loop fails budget 1 (i + 1) (spent + 1) False kept w1 = (Inr (spent', False, kept'), w')"
      by blast
    then show ?thesis
    proof cases
      case 1
      then show ?thesis using pass_loop_shrunk [OF 1] by simp
    next
      case 2
      have "delete_at i kept = [] \<or> f (delete_at i kept) = []" and w1: "w1 \<in> W"
        using 2(1) answersD [OF a less.prems(3), of ?c "[]" w1] less.prems(3)
        by (auto simp: delete_at_def)
      then show ?thesis using less.hyps [OF dec 2(2) less.prems(2) w1]
        by (metis Suc_eq_plus1 Suc_leI le_neq_implies_less)
    qed
  qed
qed

lemma minimize_loop_minimal:
  "minimize_loop fails budget width spent kept w = (Inr (spent', kept'), w') \<Longrightarrow>
    1 \<le> width \<Longrightarrow> spent' < budget \<Longrightarrow> w \<in> W \<Longrightarrow> answers W fails f \<Longrightarrow> locally_minimal f kept'"
proof (induction fails budget width spent kept w rule: minimize_loop.induct)
  case (1 fails budget width spent kept w)
  have sp: "spent < budget"
  proof (rule ccontr)
    assume "\<not> spent < budget"
    then show False using 1(2,4) by (subst (asm) minimize_loop.simps) auto
  qed
  then have c: "1 \<le> width \<and> spent < budget" using 1(3) by simp
  then obtain s1 sh k1 w1 where p: "pass_loop fails budget width 0 spent False kept w = (Inr (s1, sh, k1), w1)"
    and r: "minimize_loop fails budget (if sh then width else width div 2) s1 k1 w1 = (Inr (spent', kept'), w')"
    using 1(2) by (subst (asm) minimize_loop.simps) (auto split: prod.splits sum.splits)
  have w1: "w1 \<in> W"
    using pass_loop_returns [OF answers_settles [OF 1(6)] 1(5), of budget width 0 spent False kept] p by auto
  show ?case
  proof (cases "1 \<le> (if sh then width else width div 2)")
    case True
    then show ?thesis using 1(1) [OF c p [symmetric] refl refl refl r _ 1(4) w1 1(6)] by blast
  next
    case False
    then have sh: "\<not> sh" and w: "width = 1" using c by (auto split: if_splits)
    have e: "spent' = s1" "kept' = k1"
      using r False by (subst (asm) minimize_loop.simps; auto)+
    have "pass_loop fails budget 1 0 spent False kept w = (Inr (s1, False, k1), w1)"
      using p sh w by simp
    from pass_loop_single [OF 1(6) this _ 1(5)] show ?thesis
      using 1(4) e by (auto simp: locally_minimal_def)
  qed
qed

section \<open>Properties\<close>

text \<open>
  C25: shrinking keeps a find a find: what \<open>minimize\<close> returns is a subsequence of the mutant's
  tokens, not empty, that failed when it was graded (or the mutant itself), after at most
  \<open>budget\<close> attempts.
\<close>

theorem minimize_sound:
  assumes "fst (minimize E impl tokens P os budget w) = Inr (spent, kept)"
  shows "subseq kept tokens \<and> (tokens \<noteq> [] \<longrightarrow> kept \<noteq> []) \<and> spent \<le> budget
    \<and> (kept = tokens \<or> (\<exists>w1 fs w2. grade E impl (render_tokens kept) P os w1 = (Inr fs, w2) \<and> fs \<noteq> []))"
  using minimize_loop_kept [OF run_eq [OF assms [unfolded minimize_def]]]
  by (auto simp: shrunk_from_def still_fails_def)

text \<open>A program that rejects everything, against a reference that accepts everything.\<close>

definition stub_env :: env where
  "stub_env = demo_env\<lparr>exec := (\<lambda>argv i m. (if argv ! 0 = ''impl'' then Exited 1 [] [] else Exited 0 ''x'' [], m))\<rparr>"

definition stub_failure :: failure where
  "stub_failure = \<lparr>ffile = mutant, foracle = ''reprint'', fdetail = ExitedWith 1 []\<rparr>"

definition stub_worlds :: "world set" where
  "stub_worlds = {w. \<forall>q. under ''/tmp/waxdiff-fuzz-'' q \<longrightarrow> disk w q = None}"

lemma stub_run: "run stub_env argv cap i u = (Inr (if argv ! 0 = ''impl'' then \<lparr>pcode = 1, pout = [], perr = []\<rparr>
      else \<lparr>pcode = 0, pout = ''x'', perr = []\<rparr>), u)"
  by (simp add: run_def stub_env_def demo_env_def capped_def)

lemma stub_wax: "wax stub_env args u = (Inr \<lparr>pcode = 0, pout = ''x'', perr = []\<rparr>, u)"
proof -
  have "reference stub_env \<noteq> ''impl''" by code_simp
  then show ?thesis by (simp add: wax_def stub_run)
qed

lemma stub_grade:
  assumes w: "w \<in> stub_worlds" and m: "mode P compiles_clean ''oracle1'' = Inr (JStr ''match'')"
  shows "\<exists>w' \<in> stub_worlds. grade stub_env [''impl''] src P [1] w = (Inr [stub_failure], w')"
proof -
  let ?s = "''/tmp/waxdiff-fuzz-''"
  let ?g = "joinp ?s ''golden''"
  let ?p = "joinp (joinp ?s ''corpus'') mutant"
  let ?w1 = "w\<lparr>corpus := joinp ?s ''corpus'', golden := ?g\<rparr>"
  let ?w2 = "?w1\<lparr>disk := (disk w)(?p \<mapsto> utf8_encode src)\<rparr>"
  let ?w3 = "?w2\<lparr>disk := (disk ?w2)(joinp ?g ''mutant.reprint'' \<mapsto> ''x'')\<rparr>"
  let ?c = "\<lparr>cfile = mutant, cbucket = compiles_clean, creprint_code = 0, cdiag_code = 0,
     creprint = Some ''x'', cdiagnostics = [], cwasm_sha256 = Some ''x''\<rparr>"
  let ?m = "\<lparr>bucket = compiles_clean, reprint_code = 0, diag_code = 0, wasm_sha256 = Some ''x''\<rparr>"
  have t: "temp_dir stub_env ''waxdiff-fuzz-'' m = ?s" for m by (simp add: stub_env_def demo_env_def)
  have d: "decode [] = []" "decode ''x'' = ''x''" "utf8_encode ''x'' = ''x''"
    "digest stub_env ''x'' = ''x''" "removesuffix mutant ''.wax'' = ''mutant''"
    "take 400 (decode []) = []" by code_simp+
  have c: "classify_one stub_env ?p ?w2 = (Inr ?c, ?w2)"
    by (simp add: classify_one_def bindio_def stub_wax reference_check_def d)
  have g: "write_golden ?c ?w2 = (Inr ?m, ?w3)"
    by (simp add: write_golden_def write_reprint_def write_diagnostics_def bindio_def golden_path_def
        write_text_def write_bytes_def set_disk_def d)
  have fresh: "disk w (joinp ?g ''mutant.diag.jsonl'') = None"
    using w by (simp add: stub_worlds_def under_def joinp_def startswith_def)
  have r: "recognise stub_env [''impl''] src ?p P ?w3 = (Inr (Inr None), ?w3)"
    using fresh by (simp add: recognise_def bindio_def golden_path_def exists_file_def joinp_def mutant_def)
  have o1: "check_oracle1 stub_env [''impl''] mutant ?p ?m P no_outcome ?w3
      = (Inr (fail mutant ''reprint'' (ExitedWith 1 []) no_outcome), ?w3)"
    by (simp add: check_oracle1_def m is_skip_def bindio_def golden_path_def exists_file_def
        read_bytes_def impl_run_def stub_run d err_text_def)
  have o: "grade_oracles stub_env [''impl''] ?p ?m P [1] ?w3 = (Inr [stub_failure], ?w3)"
    using o1 by (simp add: grade_oracles_def run_oracles_def bindio_def verdict_simps stub_failure_def
        no_outcome_def)
  have b: "grade_body stub_env [''impl''] src P [1] ?w1 = (Inr [stub_failure], ?w3)"
    using c g r o by (simp add: grade_body_def bindio_def corpus_path_def write_text_def write_bytes_def
        set_disk_def on_json_error_def)
  let ?w4 = "?w3\<lparr>corpus := corpus w, golden := golden w,
      disk := (\<lambda>q. if under ?s q then None else disk ?w3 q)\<rparr>"
  have "grade stub_env [''impl''] src P [1] w = (Inr [stub_failure], ?w4)"
    using b by (simp add: grade_def Let_def t try_finally_def bindio_def set_roots_def rmtree_def
        set_disk_def cong: if_cong)
  moreover have "?w4 \<in> stub_worlds" by (simp add: stub_worlds_def)
  ultimately show ?thesis by blast
qed

lemma stub_answers_mode:
  assumes "mode P compiles_clean ''oracle1'' = Inr (JStr ''match'')"
  shows "answers stub_worlds (\<lambda>c. grade stub_env [''impl''] (render_tokens c) P [1]) (\<lambda>_. [stub_failure])"
  using stub_grade [OF _ assms] by (auto simp: answers_def)

lemma stub_answers: "answers stub_worlds (\<lambda>c. grade stub_env [''impl''] (render_tokens c) demo_policy [1])
    (\<lambda>_. [stub_failure])"
  by (rule stub_answers_mode) code_simp

lemma stub_start: "demo_world \<in> stub_worlds"
  by (auto simp: stub_worlds_def demo_world_def under_def startswith_def)

lemma stub_minimize:
  "fst (minimize stub_env [''impl''] [''a'', ''b'', ''c''] demo_policy [1] 400 demo_world) = Inr (4, [''c''])"
  by code_simp

theorem minimize_sound_witness:
  "subseq [''c''] [''a'', ''b'', ''c''] \<and> (4 :: nat) \<le> 400"
  using minimize_sound [OF stub_minimize] by blast

text \<open>
  C26: shrinking ends: for every budget, from a world in which grading does not raise,
  \<open>minimize\<close> returns.
\<close>

theorem minimize_terminates:
  assumes "settles W (\<lambda>c. grade E impl (render_tokens c) P os)" and "w \<in> W"
  shows "\<exists>spent kept. fst (minimize E impl tokens P os budget w) = Inr (spent, kept)"
  using minimize_loop_returns [OF assms, of budget "max 1 (length tokens div 2)" 0 tokens]
  by (auto simp: minimize_def)

theorem minimize_terminates_witness:
  "\<forall>tokens budget. \<exists>spent kept.
     fst (minimize stub_env [''impl''] tokens demo_policy [1] budget demo_world) = Inr (spent, kept)"
  by (intro allI, rule minimize_terminates [OF answers_settles [OF stub_answers] stub_start])

text \<open>
  C9: what is kept is minimal: if the search ends before its budget is spent, and grading a
  candidate always gives the same answer, then no single token can be deleted from the result
  without losing the find.
\<close>

theorem minimize_minimal:
  assumes "answers W (\<lambda>c. grade E impl (render_tokens c) P os) f" and "w \<in> W"
    and "fst (minimize E impl tokens P os budget w) = Inr (spent, kept)" and "spent < budget"
  shows "\<forall>j < length kept. delete_at j kept = [] \<or> f (delete_at j kept) = []"
  using minimize_loop_minimal [OF run_eq [OF assms(3) [unfolded minimize_def]] _ assms(4,2,1)]
  by (simp add: locally_minimal_def)

theorem minimize_minimal_witness:
  "fst (minimize stub_env [''impl''] [''a'', ''b'', ''c''] demo_policy [1] 400 demo_world) = Inr (4, [''c''])
    \<and> delete_at 0 [''c''] = []"
  using minimize_minimal [OF stub_answers stub_start stub_minimize] stub_minimize by simp

end
