(* ===== verification/Hermetic.thy ===== *)
theory Hermetic
  imports Grade Paths
begin

text \<open>
  What grading a mutant leaves alone.  The programs that are run may do anything to the disk, and
  the operating system chooses the temporary names; when neither touches a file, no grading
  does, wherever its scratch directory is.
\<close>

section \<open>The environment\<close>

definition hermetic :: "env \<Rightarrow> path \<Rightarrow> bool" where
  "hermetic E q \<longleftrightarrow> (\<forall>argv i m. snd (exec E argv i m) q = m q)
     \<and> (\<forall>sfx m. \<not> prefix (temp_file E sfx m) q) \<and> (\<forall>sfx m. \<not> prefix (temp_dir E sfx m) q)
     \<and> \<not> under (joinp (report E) ''tmp'') q"

section \<open>Operations that spare a file\<close>

text \<open>\<open>spares c g q m\<close>: with the corpus at \<open>c\<close> and the goldens at \<open>g\<close>, and leaving them there, \<open>m\<close> keeps \<open>q\<close>.\<close>

definition spares :: "path \<Rightarrow> path \<Rightarrow> path \<Rightarrow> 'a io \<Rightarrow> bool" where
  "spares c g q m \<longleftrightarrow> (\<forall>w. corpus w = c \<longrightarrow> golden w = g \<longrightarrow>
     corpus (snd (m w)) = c \<and> golden (snd (m w)) = g \<and> disk (snd (m w)) q = disk w q)"

lemma sparesI:
  "(\<And>w r w1. corpus w = c \<Longrightarrow> golden w = g \<Longrightarrow> m w = (r, w1) \<Longrightarrow>
     corpus w1 = c \<and> golden w1 = g \<and> disk w1 q = disk w q) \<Longrightarrow> spares c g q m"
  unfolding spares_def by (metis prod.collapse)

lemma sparesD:
  "spares c g q m \<Longrightarrow> m w = (r, w1) \<Longrightarrow> corpus w = c \<Longrightarrow> golden w = g \<Longrightarrow>
     corpus w1 = c \<and> golden w1 = g \<and> disk w1 q = disk w q"
  unfolding spares_def by (metis snd_conv)

named_theorems spares_rules "operations that spare a file"

lemma spares_reads: "reads_only m \<Longrightarrow> spares c g q m"
  by (simp add: spares_def reads_only_def)

lemma spares_basic [spares_rules]:
  "spares c g q (ret x)" "spares c g q (raise e)" "spares c g q (lift r)"
  "spares c g q (exists_file p)" "spares c g q (read_bytes p)" "spares c g q (read_text p)"
  "spares c g q (exemption rel)"
proof -
  have "reads_only (read_bytes p)" "reads_only (exemption rel)"
    by (simp_all add: reads_only_def read_bytes_def exemption_def split: option.split)
  then show "spares c g q (ret x)" "spares c g q (raise e)" "spares c g q (lift r)"
    "spares c g q (exists_file p)" "spares c g q (read_bytes p)" "spares c g q (read_text p)"
    "spares c g q (exemption rel)"
    by (auto intro: spares_reads reads_rules)
qed

lemma spares_bind [spares_rules]:
  assumes m: "spares c g q m" and f: "\<And>x. spares c g q (f x)"
  shows "spares c g q (bindio m f)"
proof (rule sparesI)
  fix w r2 w2 assume w: "corpus w = c" "golden w = g" and b: "bindio m f w = (r2, w2)"
  obtain r w1 where r: "m w = (r, w1)" by (cases "m w")
  note 1 = sparesD [OF m r w]
  show "corpus w2 = c \<and> golden w2 = g \<and> disk w2 q = disk w q"
  proof (cases r)
    case (Inl e)
    then show ?thesis using b r 1 by (simp add: bindio_def)
  next
    case (Inr x)
    then have "f x w1 = (r2, w2)" using b r by (simp add: bindio_def)
    from sparesD [OF f this] 1 show ?thesis by simp
  qed
qed

lemma spares_golden: "spares c g q (f (joinp g rel)) \<Longrightarrow> spares c g q (bindio (golden_path rel) f)"
  by (simp add: spares_def bindio_def golden_path_def)

lemma spares_corpus: "spares c g q (f (joinp c rel)) \<Longrightarrow> spares c g q (bindio (corpus_path rel) f)"
  by (simp add: spares_def bindio_def corpus_path_def)

lemma spares_temp:
  assumes "hermetic E q" and "\<And>p. \<not> prefix p q \<Longrightarrow> spares c g q (f p)"
  shows "spares c g q (bindio (new_temp_file E sfx b) f)"
proof -
  have p: "\<not> prefix (temp_file E sfx m) q" for m using assms(1) by (simp add: hermetic_def)
  then have "q \<noteq> temp_file E sfx m" for m by (metis prefix_order.refl)
  then show ?thesis using assms(2) [OF p]
    by (simp add: spares_def bindio_def new_temp_file_def Let_def)
qed

lemma spares_if [spares_rules]:
  "spares c g q m \<Longrightarrow> spares c g q n \<Longrightarrow> spares c g q (if b then m else n)"
  by simp

lemma spares_case_prod [spares_rules]:
  "(\<And>a b. spares c g q (f a b)) \<Longrightarrow> spares c g q (case x of (a, b) \<Rightarrow> f a b)"
  by (cases x) simp

lemma spares_case_option [spares_rules]:
  "spares c g q n \<Longrightarrow> (\<And>a. spares c g q (f a)) \<Longrightarrow> spares c g q (case x of None \<Rightarrow> n | Some a \<Rightarrow> f a)"
  by (cases x) simp_all

lemma spares_finally [spares_rules]:
  assumes m: "spares c g q m" and f: "spares c g q f"
  shows "spares c g q (try_finally m f)"
proof (rule sparesI)
  fix w r3 w3 assume w: "corpus w = c" "golden w = g" and b: "try_finally m f w = (r3, w3)"
  obtain r w1 where r: "m w = (r, w1)" by (cases "m w")
  obtain r2 w2 where r2: "f w1 = (r2, w2)" by (cases "f w1")
  have "w3 = w2" using b r r2 by (cases r2) (simp_all add: try_finally_def)
  then show "corpus w3 = c \<and> golden w3 = g \<and> disk w3 q = disk w q"
    using sparesD [OF m r w] sparesD [OF f r2] by simp
qed

lemma spares_json [spares_rules]:
  assumes m: "spares c g q m" and h: "spares c g q h"
  shows "spares c g q (on_json_error m h)"
proof (rule sparesI)
  fix w r2 w2 assume w: "corpus w = c" "golden w = g" and b: "on_json_error m h w = (r2, w2)"
  obtain r w1 where r: "m w = (r, w1)" by (cases "m w")
  note 1 = sparesD [OF m r w]
  have "w2 = w1 \<or> h w1 = (r2, w2)"
    using b by (auto simp: on_json_error_def r split: sum.splits exn.splits)
  then show "corpus w2 = c \<and> golden w2 = g \<and> disk w2 q = disk w q"
    using 1 sparesD [OF h, of w1 r2 w2] by auto
qed

lemma spares_writes:
  "p \<noteq> q \<Longrightarrow> spares c g q (write_bytes p b)" "p \<noteq> q \<Longrightarrow> spares c g q (write_text p s)"
  "p \<noteq> q \<Longrightarrow> spares c g q (unlink p)"
  by (auto simp: spares_def write_bytes_def write_text_def unlink_def set_disk_def bindio_def exists_file_def)

lemma spares_run:
  assumes "hermetic E q"
  shows "spares c g q (run E argv cap i)"
proof -
  have "m' q = m q" if "exec E args inp m = (a, m')" for args inp m a m'
    using assms that unfolding hermetic_def by (metis snd_conv)
  then show ?thesis by (auto simp: spares_def run_def split: prod.split answer.split)
qed

lemma spares_calls:
  assumes "hermetic E q"
  shows "spares c g q (wax E args)" "spares c g q (impl_run E impl args)" "spares c g q (wasm_tools E args i)"
  by (simp_all add: wax_def impl_run_def wasm_tools_def spares_run [OF assms])

section \<open>Grading\<close>

lemma not_prefix_longer: "\<not> prefix p q \<Longrightarrow> p \<noteq> q" "\<not> prefix p q \<Longrightarrow> p @ x \<noteq> q"
  by auto

lemma spares_idempotent:
  assumes h: "hermetic E q"
  shows "spares c g q (check_idempotent E impl rel once out)"
  unfolding check_idempotent_def Let_def
  by (rule spares_temp [OF h]) (intro spares_rules spares_calls [OF h] spares_writes not_prefix_longer(1); assumption)

lemma spares_stripped:
  assumes h: "hermetic E q"
  shows "spares c g q (stripped_wat E b)"
  unfolding stripped_wat_def Let_def
  by (rule spares_temp [OF h])
    (intro spares_rules spares_calls [OF h] spares_writes not_prefix_longer; assumption)

lemma spares_oracle1:
  assumes h: "hermetic E q"
  shows "spares c g q (check_oracle1 E impl rel p m P out)"
  unfolding check_oracle1_def
  by (intro spares_golden spares_rules spares_calls [OF h] spares_idempotent [OF h])

lemma spares_ladder:
  assumes h: "hermetic E q"
  shows "spares c g q (ladder E rel got sha out)"
  unfolding ladder_def Let_def
  by (intro spares_corpus spares_rules spares_calls [OF h] spares_stripped [OF h])

lemma spares_oracle2:
  assumes h: "hermetic E q"
  shows "spares c g q (check_oracle2 E impl rel p m P out)"
proof -
  have "joinp (joinp (report E) ''tmp'') x \<noteq> q" for x
    using h by (auto simp: hermetic_def under_def joinp_def startswith_iff)
  then show ?thesis unfolding check_oracle2_def Let_def
    by (intro spares_rules spares_calls [OF h] spares_ladder [OF h] spares_writes)
qed

lemma spares_oracle3:
  assumes h: "hermetic E q"
  shows "spares c g q (check_oracle3 E impl rel p m P out)"
  unfolding check_oracle3_def read_golden_diags_def
  by (intro spares_golden spares_rules spares_calls [OF h])

lemma spares_oracles:
  assumes h: "hermetic E q"
  shows "spares c g q (grade_oracles E impl p m P os)"
proof -
  have "spares c g q (reproduces_instability E impl p)"
  proof -
    let ?f = "\<lambda>once tmp. bindio (try_finally
        (bindio (impl_run E impl [tmp, ''-f'', ''wax'']) (\<lambda>ours.
         bindio (wax E [tmp, ''-f'', ''wax'']) (\<lambda>theirs. ret (ours, theirs))))
        (unlink tmp)) (\<lambda>(ours, theirs).
     ret (if pcode ours \<noteq> pcode theirs then False
          else if pcode ours \<noteq> 0
          then 0 < pcode ours \<and> perr ours = perr theirs \<and> strip (perr ours) \<noteq> timed_out_text
          else pout ours \<noteq> pout once \<and> pout theirs = pout ours))"
    have "spares c g q (?f once tmp)" if "\<not> prefix tmp q" for once tmp
      using not_prefix_longer(1) [OF that]
      by (intro spares_rules spares_calls [OF h] spares_writes)
    then have "spares c g q (bindio (new_temp_file E ''.wax'' (pout once)) (?f once))" for once
      by (rule spares_temp [OF h])
    then show ?thesis unfolding reproduces_instability_def
      by (intro spares_bind [OF spares_calls(2) [OF h]] spares_if spares_basic(1))
  qed
  then show ?thesis unfolding grade_oracles_def run_oracles_def
    by (intro spares_rules spares_oracle1 [OF h] spares_oracle2 [OF h] spares_oracle3 [OF h])
qed

lemma spares_classify:
  assumes h: "hermetic E q"
  shows "spares c g q (classify_one E p)"
proof -
  have "spares c g q (\<lambda>w. lift (relative_to (corpus w) p) w)" by (simp add: spares_def)
  then show ?thesis unfolding classify_one_def reference_check_def Let_def
    by (intro spares_rules spares_calls [OF h])
qed

lemma spares_write_golden:
  assumes g: "\<not> under g q"
  shows "spares c g q (write_golden res)"
proof -
  have n: "joinp g x \<noteq> q" for x using g by (auto simp: under_def joinp_def startswith_iff)
  show ?thesis unfolding write_golden_def write_reprint_def write_diagnostics_def Let_def
    by (intro spares_golden spares_rules spares_writes n)
qed

lemma spares_recognise:
  assumes h: "hermetic E q"
  shows "spares c g q (recognise E impl src p P)"
proof -
  have k: "spares c g q (case parse_jsonl t of
      Inl JSONDecodeError \<Rightarrow> ret a | Inl e \<Rightarrow> raise e | Inr got \<Rightarrow> f got)"
    if "\<And>got. spares c g q (f got)" for t a and f :: "json list \<Rightarrow> (failure + str option) io"
    using that by (auto split: sum.split exn.split intro: spares_rules)
  show ?thesis unfolding recognise_def Let_def
    by (intro spares_golden spares_rules spares_calls [OF h] k)
qed

lemma spares_body:
  assumes h: "hermetic E q" and c: "\<not> under c q" and g: "\<not> under g q"
  shows "spares c g q (grade_body E impl src P os)"
proof -
  have n: "joinp c mutant \<noteq> q" using c by (auto simp: under_def joinp_def startswith_iff)
  have e: "spares c g q (set_exempt reason)" "spares c g q pop_exempt" for reason
    by (simp_all add: spares_def set_exempt_def pop_exempt_def)
  have r: "spares c g q (case r of Inl f \<Rightarrow> ret [f] | Inr None \<Rightarrow> grade_oracles E impl p m P os
      | Inr (Some reason) \<Rightarrow> bindio (set_exempt reason)
          (\<lambda>_. try_finally (grade_oracles E impl p m P os) pop_exempt))" for r p m
    by (cases r; cases "projr r")
      (auto split: option.split intro!: spares_bind [OF e(1)] spares_finally [OF spares_oracles [OF h] e(2)]
        spares_basic(1) spares_oracles [OF h])
  have k: "spares c g q (bindio (classify_one E (joinp c mutant)) (\<lambda>res. bindio (write_golden res) (\<lambda>m. ret (Some m))))"
    by (intro spares_rules spares_classify [OF h] spares_write_golden [OF g])
  show ?thesis unfolding grade_body_def
    by (rule spares_corpus) (intro spares_bind spares_json k spares_basic spares_case_option r
        spares_recognise [OF h] spares_writes(2) [OF n])
qed

text \<open>Grading restores the corpus, and keeps every file the environment keeps.\<close>

lemma grade_end:
  assumes "grade_body E impl src P os (w\<lparr>corpus := joinp (temp_dir E ''waxdiff-fuzz-'' (disk w)) ''corpus'',
      golden := joinp (temp_dir E ''waxdiff-fuzz-'' (disk w)) ''golden''\<rparr>) = (r, w2)"
  shows "snd (grade E impl src P os w) = w2\<lparr>corpus := corpus w, golden := golden w,
      disk := (\<lambda>p. if under (temp_dir E ''waxdiff-fuzz-'' (disk w)) p then None else disk w2 p)\<rparr>"
  using assms by (simp add: grade_def Let_def try_finally_def bindio_def set_roots_def rmtree_def set_disk_def
      cong: if_cong)

lemma grade_corpus: "corpus (snd (grade E impl src P os w)) = corpus w"
proof -
  let ?s = "temp_dir E ''waxdiff-fuzz-'' (disk w)"
  let ?w1 = "w\<lparr>corpus := joinp ?s ''corpus'', golden := joinp ?s ''golden''\<rparr>"
  obtain r w2 where "grade_body E impl src P os ?w1 = (r, w2)" by (cases "grade_body E impl src P os ?w1")
  from grade_end [OF this] show ?thesis by simp
qed

lemma grade_frame:
  assumes h: "hermetic E q"
  shows "disk (snd (grade E impl src P os w)) q = disk w q"
proof -
  let ?s = "temp_dir E ''waxdiff-fuzz-'' (disk w)"
  let ?w1 = "w\<lparr>corpus := joinp ?s ''corpus'', golden := joinp ?s ''golden''\<rparr>"
  obtain r w2 where r: "grade_body E impl src P os ?w1 = (r, w2)" by (cases "grade_body E impl src P os ?w1")
  have p: "\<not> prefix ?s q" using h by (simp add: hermetic_def)
  have n: "\<not> under ?s q" "\<not> under (joinp ?s x) q" for x
    using p by (auto simp: under_def joinp_def startswith_iff)
  have "disk w2 q = disk w q"
    using sparesD [OF spares_body [OF h n(2) n(2)] r] by simp
  then show ?thesis using grade_end [OF r] n(1) by simp
qed

end
