(* ===== verification/Fuzz.thy ===== *)
theory Fuzz
  imports Minimize Hermetic Demo_Project
begin

text \<open>
  The \<open>fuzz\<close> command of \<open>tools/waxdiff.py\<close> (1589--1634): mutants of the corpus, graded, shrunk
  and written out.
\<close>

section \<open>The fuzz command\<close>

record find =
  find_path :: path
  find_seed :: str
  find_tokens :: "str list"
  find_failures :: "failure list"

definition fuzz_one ::
    "env \<Rightarrow> str list \<Rightarrow> policy \<Rightarrow> nat list \<Rightarrow> 's below \<Rightarrow> nat \<Rightarrow> int \<Rightarrow> str list \<Rightarrow> nat \<Rightarrow> 's \<Rightarrow>
     (find list \<times> 's) io" where
  \<comment> \<open>one mutant; \<open>seeds\<close> are the corpus names to draw from\<close>
  "fuzz_one E impl P os below edits seed seeds n s =
     (let (i, s1) = below s (length seeds); rel = seeds ! i in
      bindio (corpus_path rel) (\<lambda>src.
      bindio (read_text src) (\<lambda>t.
      let tokens = tokenize t in
      if length tokens < 2 then ret ([], s1)
      else if edits = 0 then raise (ValueError ''empty range for randrange()'')
      else
      let (k, s2) = below s1 edits; (mutated, s3) = mutate_times below (k + 1) tokens s2 in
      bindio (grade E impl (render_tokens mutated) P os) (\<lambda>fs.
      if fs = [] then ret ([], s3) else
      bindio (minimize E impl mutated P os 400) (\<lambda>(_, small).
      let dest = joinp (joinp (report E) ''fuzz'')
            (''find-'' @ str_int seed @ ''-'' @ str_nat n @ ''.wax'') in
      bindio (write_text dest (render_tokens small)) (\<lambda>_.
      ret ([\<lparr>find_path = dest, find_seed = rel, find_tokens = small, find_failures = fs\<rparr>], s3)))))))"

fun fuzz_loop ::
    "env \<Rightarrow> str list \<Rightarrow> policy \<Rightarrow> nat list \<Rightarrow> 's below \<Rightarrow> nat \<Rightarrow> int \<Rightarrow> str list \<Rightarrow> nat list \<Rightarrow> 's \<Rightarrow>
     find list io" where
  "fuzz_loop E impl P os below edits seed seeds [] s = ret []"
| "fuzz_loop E impl P os below edits seed seeds (n # ns) s =
     bindio (fuzz_one E impl P os below edits seed seeds n s) (\<lambda>(fs, s').
     bindio (fuzz_loop E impl P os below edits seed seeds ns s') (\<lambda>rest. ret (fs @ rest)))"

record fuzz_args =
  fimpl :: "str list"
  fscope :: "str option"
  froute :: str
  foracles :: "nat list"
  fseed :: int
  ffilter :: "str option"
  fcount :: nat
  fedits :: nat

definition cmd_fuzz :: "env \<Rightarrow> fuzz_args \<Rightarrow> 's below \<Rightarrow> 's \<Rightarrow> (nat \<times> find list) io" where
  \<comment> \<open>the exit code and the finds; \<open>s\<close> is the generator seeded with \<open>fseed\<close>\<close>
  "cmd_fuzz E A below s =
     bindio (need_reference E) (\<lambda>_.
     bindio (load_policy E (fscope A)) (\<lambda>P0.
     let P = P0\<lparr>oracle2_route := froute A\<rparr>; os = (if foracles A = [] then [1, 2, 3] else foracles A) in
     bindio (load_index E) (\<lambda>index.
     let seeds = sort (map fst index);
         chosen = (case ffilter A of None \<Rightarrow> seeds
           | Some x \<Rightarrow> if x = [] then seeds else filter (\<lambda>r. contains r x) seeds) in
     if chosen = [] then raise (SystemExit ''waxdiff: no seed files'') else
     bindio (fuzz_loop E (fimpl A) P os below (fedits A) (fseed A) chosen [0..<fcount A] s) (\<lambda>finds.
     ret (if finds \<noteq> [] then 1 else 0, finds)))))"

section \<open>The mutants that are drawn\<close>

text \<open>
  Which mutants a run makes depends on the generator and the texts of the corpus only.
  \<open>src\<close> gives the text of a corpus file.
\<close>

definition draw ::
    "'s below \<Rightarrow> nat \<Rightarrow> str list \<Rightarrow> (str \<Rightarrow> str) \<Rightarrow> 's \<Rightarrow> (str \<times> str list option) \<times> 's" where
  "draw below edits seeds src s =
     (let (i, s1) = below s (length seeds); rel = seeds ! i; tokens = tokenize (src rel)
      in if length tokens < 2 then ((rel, None), s1)
         else let (k, s2) = below s1 edits; (mutated, s3) = mutate_times below (k + 1) tokens s2
              in ((rel, Some mutated), s3))"

fun mutants_drawn ::
    "'s below \<Rightarrow> nat \<Rightarrow> str list \<Rightarrow> (str \<Rightarrow> str) \<Rightarrow> nat list \<Rightarrow> 's \<Rightarrow> (nat \<times> str \<times> str list) list" where
  "mutants_drawn below edits seeds src [] s = []"
| "mutants_drawn below edits seeds src (n # ns) s = (case draw below edits seeds src s of
      ((rel, None), s') \<Rightarrow> mutants_drawn below edits seeds src ns s'
    | ((rel, Some m), s') \<Rightarrow> (n, rel, m) # mutants_drawn below edits seeds src ns s')"

definition find_file :: "env \<Rightarrow> int \<Rightarrow> nat \<Rightarrow> path" where
  "find_file E seed n = joinp (joinp (report E) ''fuzz'')
     (''find-'' @ str_int seed @ ''-'' @ str_nat n @ ''.wax'')"

text \<open>
  A find reports a failing mutant: under its number, with its seed file and what its grading says,
  and as a smaller input, part of the mutant, that fails too and is the text on disk.
\<close>

definition reported ::
    "env \<Rightarrow> int \<Rightarrow> (str list \<Rightarrow> failure list) \<Rightarrow> world \<Rightarrow> nat \<times> str \<times> str list \<Rightarrow> find \<Rightarrow> bool" where
  "reported E seed f u d g \<longleftrightarrow> (case d of (n, rel, m) \<Rightarrow>
     find_path g = find_file E seed n \<and> find_seed g = rel \<and> find_failures g = f m
     \<and> subseq (find_tokens g) m \<and> f (find_tokens g) \<noteq> []
     \<and> disk u (find_path g) = Some (utf8_encode (render_tokens (find_tokens g))))"

lemma find_file_apart: "n \<noteq> k \<Longrightarrow> find_file E seed n \<noteq> find_file E seed k"
  by (auto simp: find_file_def joinp_def)

section \<open>Shrinking, with what is known of grading\<close>

lemma pass_loop_inv:
  assumes step: "\<And>c u fs u'. I u \<Longrightarrow> fails c u = (Inr fs, u') \<Longrightarrow> I u' \<and> (fs \<noteq> [] \<longrightarrow> K c)"
  shows "pass_loop fails budget width i spent shrunk kept w = (Inr (spent', shrunk', kept'), w') \<Longrightarrow>
    I w \<Longrightarrow> K kept \<Longrightarrow> I w' \<and> K kept'"
proof (induction "budget - spent" arbitrary: i spent shrunk kept w rule: less_induct)
  case less
  show ?case
  proof (cases "i < length kept \<and> spent < budget")
    case False
    then show ?thesis using less.prems pass_loop_done [OF False] by auto
  next
    case True
    let ?c = "take i kept @ drop (i + width) kept"
    have dec: "budget - (spent + 1) < budget - spent" using True by (simp add: diff_less_mono2)
    from pass_loop_step [OF _ _ less.prems(1)] True
    consider fs w1 where "fs \<noteq> []" "fails ?c w = (Inr fs, w1)"
        "pass_loop fails budget width i (spent + 1) True ?c w1 = (Inr (spent', shrunk', kept'), w')"
      | w1 where "?c = [] \<and> w1 = w \<or> fails ?c w = (Inr [], w1)"
        "pass_loop fails budget width (i + width) (spent + 1) shrunk kept w1
          = (Inr (spent', shrunk', kept'), w')" by blast
    then show ?thesis
    proof cases
      case 1
      then show ?thesis using less.hyps [OF dec 1(3)] step [OF less.prems(2) 1(2)] by blast
    next
      case 2
      have "I w1" using 2(1) step [OF less.prems(2), of ?c "[]" w1] less.prems(2) by blast
      then show ?thesis using less.hyps [OF dec 2(2)] less.prems(3) by blast
    qed
  qed
qed

lemma minimize_loop_inv:
  assumes step: "\<And>c u fs u'. I u \<Longrightarrow> fails c u = (Inr fs, u') \<Longrightarrow> I u' \<and> (fs \<noteq> [] \<longrightarrow> K c)"
  shows "minimize_loop fails budget width spent kept w = (Inr (spent', kept'), w') \<Longrightarrow>
    I w \<Longrightarrow> K kept \<Longrightarrow> I w' \<and> K kept'"
  using step
proof (induction fails budget width spent kept w rule: minimize_loop.induct)
  case (1 fails budget width spent kept w)
  show ?case
  proof (cases "1 \<le> width \<and> spent < budget")
    case False
    then show ?thesis using 1(2-4) by (subst (asm) minimize_loop.simps) auto
  next
    case True
    then obtain s1 sh k1 w1 where p: "pass_loop fails budget width 0 spent False kept w = (Inr (s1, sh, k1), w1)"
      and r: "minimize_loop fails budget (if sh then width else width div 2) s1 k1 w1 = (Inr (spent', kept'), w')"
      using 1(2) by (subst (asm) minimize_loop.simps) (auto split: prod.splits sum.splits)
    have "I w1 \<and> K k1" by (rule pass_loop_inv [where I = I and K = K, OF 1(5) p 1(3,4)])
    then have w1: "I w1" "K k1" by simp_all
    show ?thesis by (rule 1(1) [OF True p [symmetric] refl refl refl r w1]) (rule 1(5))
  qed
qed

section \<open>One mutant and the loop\<close>

text \<open>What the run relies on: grading is a function of the mutant, on a set of worlds that it and the finds stay in.\<close>

definition gradable :: "env \<Rightarrow> str list \<Rightarrow> policy \<Rightarrow> nat list \<Rightarrow> int \<Rightarrow> (str list \<Rightarrow> failure list) \<Rightarrow> world set \<Rightarrow> bool" where
  "gradable E impl P os seed f W \<longleftrightarrow> answers W (\<lambda>c. grade E impl (render_tokens c) P os) f
     \<and> (\<forall>v \<in> W. \<forall>n b. v\<lparr>disk := (disk v)(find_file E seed n \<mapsto> b)\<rparr> \<in> W)"

lemma minimize_gradable:
  assumes g: "gradable E impl P os seed f W"
    and m: "minimize E impl mutated P os budget v = (Inr (spent, kept), v')" and v: "v \<in> W" and bad: "f mutated \<noteq> []"
  shows "subseq kept mutated" and "f kept \<noteq> []" and "v' \<in> W" and "corpus v' = corpus v"
    and "hermetic E q \<Longrightarrow> disk v' q = disk v q"
proof -
  have a: "answers W (\<lambda>c. grade E impl (render_tokens c) P os) f" using g by (simp add: gradable_def)
  note loop = m [unfolded minimize_def]
  show "subseq kept mutated"
    using minimize_loop_kept [OF loop] by (simp add: shrunk_from_def)
  have "v' \<in> W \<and> f kept \<noteq> []"
    by (rule minimize_loop_inv [where I = "\<lambda>u. u \<in> W" and K = "\<lambda>c. f c \<noteq> []", OF _ loop v bad])
      (use answersD [OF a] in auto)
  then show "f kept \<noteq> []" "v' \<in> W" by simp_all
  let ?I = "\<lambda>u. corpus u = corpus v \<and> (hermetic E q \<longrightarrow> disk u q = disk v q)"
  have fr: "corpus u' = corpus u \<and> (hermetic E q \<longrightarrow> disk u' q = disk u q)"
    if "grade E impl (render_tokens c) P os u = (Inr fs, u')" for c u fs u'
    using grade_frame [of E _ impl "render_tokens c" P os u] grade_corpus [of E impl "render_tokens c" P os u] that by simp
  have "?I v' \<and> True"
    by (rule minimize_loop_inv [where I = ?I and K = "\<lambda>_. True", OF _ loop]) (use fr in auto)
  then show "corpus v' = corpus v" "hermetic E q \<Longrightarrow> disk v' q = disk v q" by simp_all
qed


lemma fuzz_one_reports:
  assumes g: "gradable E impl P os seed f W" and v: "v \<in> W"
    and below: "\<And>s n. 0 < n \<Longrightarrow> fst (below s n) < n" and seeds: "seeds \<noteq> []"
    and src: "\<And>rel. rel \<in> set seeds \<Longrightarrow> text_at v (joinp (corpus v) rel) = src rel"
    and run: "fuzz_one E impl P os below edits seed seeds n s v = (Inr (fs, s'), v')"
    and drawn: "draw below edits seeds src s = ((rel, mo), s3)"
  shows "s' = s3" and "v' \<in> W" and "corpus v' = corpus v"
    and "q \<noteq> find_file E seed n \<Longrightarrow> hermetic E q \<Longrightarrow> disk v' q = disk v q"
    and "list_all2 (reported E seed f v') (case mo of Some m \<Rightarrow> if f m \<noteq> [] then [(n, rel, m)] else [] | None \<Rightarrow> []) fs"
proof -
  obtain i s1 where i: "below s (length seeds) = (i, s1)" by (cases "below s (length seeds)")
  have il: "i < length seeds" using below [of "length seeds" s] i seeds by simp
  let ?rel = "seeds ! i"
  obtain t v1 where t: "read_text (joinp (corpus v) ?rel) v = (Inr t, v1)"
    using run i by (auto simp: fuzz_one_def Let_def bindio_Inr_iff corpus_path_def)
  have v1: "v1 = v" by (rule read_text_world [OF t])
  have tx: "t = src ?rel" using text_read [of "joinp (corpus v) ?rel" v t] t src il by simp
  have step: "bindio (corpus_path ?rel) (\<lambda>src. bindio (read_text src) h) v = h t v"
    for h :: "str \<Rightarrow> (find list \<times> 's) io"
    using t by (simp add: bindio_def corpus_path_def v1)
  define tokens where "tokens = tokenize (src ?rel)"
  have tok: "(if length tokens < 2 then ret ([], s1)
      else if edits = 0 then raise (ValueError ''empty range for randrange()'')
      else (case below s1 edits of (k, s2) \<Rightarrow> case mutate_times below (k + 1) tokens s2 of (mutated, s3) \<Rightarrow>
      bindio (grade E impl (render_tokens mutated) P os) (\<lambda>fs.
      if fs = [] then ret ([], s3) else
      bindio (minimize E impl mutated P os 400) (\<lambda>(_, small).
      bindio (write_text (find_file E seed n) (render_tokens small)) (\<lambda>_.
      ret ([\<lparr>find_path = find_file E seed n, find_seed = ?rel, find_tokens = small, find_failures = fs\<rparr>], s3)))))) v
    = (Inr (fs, s'), v')"
    using run unfolding fuzz_one_def find_file_def Let_def tokens_def i prod.case step tx .
  have rel: "rel = ?rel"
    using drawn i by (auto simp: draw_def Let_def split: if_splits prod.splits)
  have "s' = s3 \<and> v' \<in> W \<and> corpus v' = corpus v
    \<and> (\<forall>q. q \<noteq> find_file E seed n \<longrightarrow> hermetic E q \<longrightarrow> disk v' q = disk v q)
    \<and> list_all2 (reported E seed f v') (case mo of Some m \<Rightarrow> if f m \<noteq> [] then [(n, rel, m)] else [] | None \<Rightarrow> []) fs"
  proof (cases "length tokens < 2")
    case True
    then have "mo = None" "s3 = s1" using drawn i by (simp_all add: draw_def tokens_def Let_def)
    then show ?thesis using tok True v by simp
  next
    case False
    obtain k s2 where k: "below s1 edits = (k, s2)" by (cases "below s1 edits")
    obtain m s3' where m: "mutate_times below (k + 1) tokens s2 = (m, s3')"
      by (cases "mutate_times below (k + 1) tokens s2")
    have mo: "mo = Some m" "s3 = s3'"
      using drawn i k m False by (simp_all add: draw_def tokens_def Let_def del: mutate_times.simps)
    obtain fs0 v2 where gr: "grade E impl (render_tokens m) P os v = (Inr fs0, v2)"
      and rest: "(if fs0 = [] then ret ([], s3) else
      bindio (minimize E impl m P os 400) (\<lambda>(_, small).
      bindio (write_text (find_file E seed n) (render_tokens small)) (\<lambda>_.
      ret ([\<lparr>find_path = find_file E seed n, find_seed = ?rel, find_tokens = small, find_failures = fs0\<rparr>], s3)))) v2
      = (Inr (fs, s'), v')"
      using tok False k m mo(2) by (auto simp: bindio_Inr_iff raise_def simp del: io_simps mutate_times.simps split: if_splits)
    have a: "answers W (\<lambda>c. grade E impl (render_tokens c) P os) f" using g by (simp add: gradable_def)
    have f0: "fs0 = f m" "v2 \<in> W" using answersD [OF a v gr] by simp_all
    have fr: "corpus v2 = corpus v" "hermetic E q \<Longrightarrow> disk v2 q = disk v q" for q
      using grade_corpus [of E impl "render_tokens m" P os v] grade_frame [of E q impl "render_tokens m" P os v] gr
      by simp_all
    show ?thesis
    proof (cases "f m = []")
      case True
      then show ?thesis using rest f0 fr mo by simp
    next
      case bad: False
      obtain spent small v3 where mi: "minimize E impl m P os 400 v2 = (Inr (spent, small), v3)"
        and w: "bindio (write_text (find_file E seed n) (render_tokens small)) (\<lambda>_.
          ret ([\<lparr>find_path = find_file E seed n, find_seed = ?rel, find_tokens = small, find_failures = fs0\<rparr>], s3)) v3
          = (Inr (fs, s'), v')"
        using rest bad f0(1) by (auto simp: bindio_Inr_iff simp del: io_simps)
      have v': "v' = v3\<lparr>disk := (disk v3)(find_file E seed n \<mapsto> utf8_encode (render_tokens small))\<rparr>" "s' = s3"
        "fs = [\<lparr>find_path = find_file E seed n, find_seed = rel, find_tokens = small, find_failures = f m\<rparr>]"
        using w f0(1) rel by (auto simp: bindio_def write_text_def write_bytes_def set_disk_def)
      note mg = minimize_gradable [OF g mi f0(2) bad]
      have "v' \<in> W" using g mg(3) unfolding v'(1) gradable_def by blast
      then show ?thesis using v' mg(1,2,4,5) fr mo bad by (simp add: reported_def)
    qed
  qed
  then show "s' = s3" and "v' \<in> W" and "corpus v' = corpus v"
    and "q \<noteq> find_file E seed n \<Longrightarrow> hermetic E q \<Longrightarrow> disk v' q = disk v q"
    and "list_all2 (reported E seed f v') (case mo of Some m \<Rightarrow> if f m \<noteq> [] then [(n, rel, m)] else [] | None \<Rightarrow> []) fs"
    by blast+
qed


lemma reported_later:
  assumes "list_all2 (reported E seed f v) ds gs" and "\<forall>d \<in> set ds. disk v' (find_file E seed (fst d)) = disk v (find_file E seed (fst d))"
  shows "list_all2 (reported E seed f v') ds gs"
proof (rule list_all2_all_nthI)
  show l: "length ds = length gs" using list_all2_lengthD [OF assms(1)] .
  fix i assume i: "i < length ds"
  then have "reported E seed f v (ds ! i) (gs ! i)" "ds ! i \<in> set ds"
    using assms(1) by (simp_all add: list_all2_nthD)
  then show "reported E seed f v' (ds ! i) (gs ! i)"
    using assms(2) by (auto simp: reported_def split: prod.splits)
qed

definition failing :: "(str list \<Rightarrow> failure list) \<Rightarrow> (nat \<times> str \<times> str list) list \<Rightarrow> (nat \<times> str \<times> str list) list" where
  "failing f ds = filter (\<lambda>(n, rel, m). f m \<noteq> []) ds"

lemma drawn_numbers: "set (map fst (mutants_drawn below edits seeds src ns s)) \<subseteq> set ns"
proof (induction ns arbitrary: s)
  case (Cons n ns)
  obtain rel mo s' where d: "draw below edits seeds src s = ((rel, mo), s')" by (metis surj_pair)
  show ?case using Cons.IH [of s'] d by (cases mo) auto
qed simp

lemma fuzz_loop_reports:
  assumes g: "gradable E impl P os seed f W"
    and below: "\<And>s n. 0 < n \<Longrightarrow> fst (below s n) < n" and seeds: "seeds \<noteq> []"
    and files: "\<And>n. hermetic E (find_file E seed n)"
    and corp: "\<And>rel. rel \<in> set seeds \<Longrightarrow> hermetic E (joinp c rel) \<and> (\<forall>n. joinp c rel \<noteq> find_file E seed n)"
  shows "fuzz_loop E impl P os below edits seed seeds ns s v = (Inr fs, v') \<Longrightarrow> v \<in> W \<Longrightarrow> corpus v = c \<Longrightarrow>
    (\<And>rel. rel \<in> set seeds \<Longrightarrow> text_at v (joinp c rel) = src rel) \<Longrightarrow> distinct ns \<Longrightarrow>
    list_all2 (reported E seed f v') (failing f (mutants_drawn below edits seeds src ns s)) fs
    \<and> (\<forall>n. n \<notin> set ns \<longrightarrow> disk v' (find_file E seed n) = disk v (find_file E seed n))"
proof (induction ns arbitrary: s v fs)
  case Nil
  then show ?case by (simp add: failing_def)
next
  case (Cons n ns)
  obtain fs1 s1 v1 where one: "fuzz_one E impl P os below edits seed seeds n s v = (Inr (fs1, s1), v1)"
    and "bindio (fuzz_loop E impl P os below edits seed seeds ns s1) (\<lambda>rest. ret (fs1 @ rest)) v1 = (Inr fs, v')"
    using Cons.prems(1) by (auto simp: bindio_Inr_iff simp del: io_simps)
  then obtain fs2 where loop: "fuzz_loop E impl P os below edits seed seeds ns s1 v1 = (Inr fs2, v')"
    and fs: "fs = fs1 @ fs2"
    by (auto simp: bindio_Inr_iff)
  obtain rel mo s3 where d: "draw below edits seeds src s = ((rel, mo), s3)" by (metis surj_pair)
  have src: "text_at v (joinp (corpus v) rel) = src rel" if "rel \<in> set seeds" for rel
    using Cons.prems(3,4) that by simp
  note r = fuzz_one_reports [OF g Cons.prems(2) below seeds src one d]
  have c1: "corpus v1 = c" using r(3) Cons.prems(3) by simp
  have t1: "text_at v1 (joinp c rel) = src rel" if "rel \<in> set seeds" for rel
    using r(4) [of "joinp c rel"] corp [OF that] Cons.prems(4) [OF that] by (simp add: text_at_def)
  have ns: "n \<notin> set ns" "distinct ns" using Cons.prems(5) by simp_all
  from Cons.IH [OF loop r(2) c1 t1 ns(2)]
  have ih: "list_all2 (reported E seed f v') (failing f (mutants_drawn below edits seeds src ns s1)) fs2"
    and keep: "\<forall>k. k \<notin> set ns \<longrightarrow> disk v' (find_file E seed k) = disk v1 (find_file E seed k)" by blast+
  let ?d = "case mo of Some m \<Rightarrow> if f m \<noteq> [] then [(n, rel, m)] else [] | None \<Rightarrow> []"
  have "fst d = n" if "d \<in> set ?d" for d using that by (auto split: option.splits if_splits)
  then have "\<forall>d \<in> set ?d. disk v' (find_file E seed (fst d)) = disk v1 (find_file E seed (fst d))"
    using keep ns(1) by simp
  then have "list_all2 (reported E seed f v') ?d fs1"
    using reported_later [where v' = v', OF r(5)] by blast
  moreover have "failing f (mutants_drawn below edits seeds src (n # ns) s)
      = ?d @ failing f (mutants_drawn below edits seeds src ns s1)"
    using d r(1) by (cases mo) (auto simp: failing_def)
  ultimately have "list_all2 (reported E seed f v') (failing f (mutants_drawn below edits seeds src (n # ns) s)) fs"
    using ih fs by (simp only: list_all2_appendI)
  moreover have "disk v' (find_file E seed k) = disk v (find_file E seed k)" if "k \<notin> set (n # ns)" for k
  proof -
    have k: "k \<noteq> n" "k \<notin> set ns" using that by simp_all
    have "disk v1 (find_file E seed k) = disk v (find_file E seed k)"
      using r(4) [of "find_file E seed k"] find_file_apart [OF k(1)] files by simp
    then show ?thesis using keep k(2) by simp
  qed
  ultimately show ?case by blast
qed

lemma reads_loads:
  "reads_only (need_reference E)" "reads_only (load_policy E sc)" "reads_only (load_index E)"
proof -
  have g: "reads_only (golden_path q)" for q by (simp add: reads_only_def golden_path_def)
  show "reads_only (need_reference E)"
    unfolding need_reference_def by (intro reads_rules) (auto intro: reads_rules split: json.split)
  show "reads_only (load_policy E sc)" unfolding load_policy_def by (intro reads_rules)
  show "reads_only (load_index E)" unfolding load_index_def by (intro reads_rules g)
qed

definition fuzz_policy :: "fuzz_args \<Rightarrow> policy \<Rightarrow> policy" where
  "fuzz_policy A P = P\<lparr>oracle2_route := froute A\<rparr>"

definition fuzz_oracles :: "fuzz_args \<Rightarrow> nat list" where
  "fuzz_oracles A = (if foracles A = [] then [1, 2, 3] else foracles A)"

definition fuzz_seeds :: "fuzz_args \<Rightarrow> (str \<times> meta) list \<Rightarrow> str list" where
  "fuzz_seeds A index = filter (\<lambda>r. ffilter A \<in> {None, Some []} \<or> contains r (the (ffilter A))) (sort (map fst index))"

definition failing_mutants ::
    "fuzz_args \<Rightarrow> (str list \<Rightarrow> failure list) \<Rightarrow> 's below \<Rightarrow> 's \<Rightarrow> (str \<times> meta) list \<Rightarrow> world \<Rightarrow>
     (nat \<times> str \<times> str list) list" where
  \<comment> \<open>those of the run's mutants that \<open>f\<close> finds a failure on\<close>
  "failing_mutants A f below s index w = failing f (mutants_drawn below (fedits A) (fuzz_seeds A index)
     (\<lambda>rel. text_at w (joinp (corpus w) rel)) [0..<fcount A] s)"

section \<open>Properties\<close>

text \<open>
  C14: the fuzz command reports exactly the mutants that fail.  When grading is a function of the
  mutant, programs and temporary names stay clear of the corpus and the finds, and the
  generator keeps its range, the finds are, in order, one for each mutant drawn on which the
  oracles find a failure, and the exit code is 1 when there is one.  Each find names its seed, the
  failures of that mutant, and an input that is part of the mutant, fails too, and is the text of
  the file left on disk at the end of the run.
\<close>

theorem fuzz_reports:
  assumes policy: "fst (load_policy E (fscope A) w) = Inr P" and index: "fst (load_index E w) = Inr ix"
    and grades: "gradable E (fimpl A) (fuzz_policy A P) (fuzz_oracles A) (fseed A) f W" and start: "w \<in> W"
    and below: "\<And>s n. 0 < n \<Longrightarrow> fst (below s n) < n"
    and files: "\<And>n. hermetic E (find_file E (fseed A) n)"
    and corp: "\<And>rel. rel \<in> set (map fst ix) \<Longrightarrow> hermetic E (joinp (corpus w) rel)
      \<and> (\<forall>n. joinp (corpus w) rel \<noteq> find_file E (fseed A) n)"
    and ended: "cmd_fuzz E A below s w = (Inr (exit_code, finds), w')"
  shows "list_all2 (reported E (fseed A) f w') (failing_mutants A f below s ix w) finds
    \<and> exit_code = (if failing_mutants A f below s ix w = [] then 0 else 1)"
proof -
  have same: "need_reference E w = (r, u) \<Longrightarrow> u = w" "load_policy E sc w = (r', u) \<Longrightarrow> u = w"
    "load_index E w = (r'', u) \<Longrightarrow> u = w" for r r' r'' sc u
    using reads_step [OF reads_loads(1)] reads_step [OF reads_loads(2)] reads_step [OF reads_loads(3)] by blast+
  have n: "need_reference E w = (Inr (), w)"
    using ended same(1) by (cases "need_reference E w"; cases "fst (need_reference E w)") (auto simp: cmd_fuzz_def bindio_def)
  have p: "load_policy E (fscope A) w = (Inr P, w)"
    using run_eq [OF policy] same(2) [OF run_eq [OF policy]] by simp
  have i: "load_index E w = (Inr ix, w)"
    using run_eq [OF index] same(3) [OF run_eq [OF index]] by simp
  have seeds: "(case ffilter A of None \<Rightarrow> sort (map fst ix)
      | Some x \<Rightarrow> if x = [] then sort (map fst ix) else filter (\<lambda>r. contains r x) (sort (map fst ix))) = fuzz_seeds A ix"
    by (auto simp: fuzz_seeds_def split: option.split)
  have rest: "(if fuzz_seeds A ix = [] then raise (SystemExit ''waxdiff: no seed files'') else
      bindio (fuzz_loop E (fimpl A) (fuzz_policy A P) (fuzz_oracles A) below (fedits A) (fseed A)
        (fuzz_seeds A ix) [0..<fcount A] s) (\<lambda>finds. ret (if finds \<noteq> [] then 1 else 0, finds))) w
      = (Inr (exit_code, finds), w')"
    using ended unfolding cmd_fuzz_def bindio_step [where m = "need_reference E", OF n]
      bindio_step [where m = "load_policy E (fscope A)", OF p] bindio_step [where m = "load_index E", OF i] Let_def
      seeds fuzz_policy_def [symmetric] fuzz_oracles_def [symmetric] .
  have ne: "fuzz_seeds A ix \<noteq> []" using rest by auto
  obtain u where loop: "fuzz_loop E (fimpl A) (fuzz_policy A P) (fuzz_oracles A) below (fedits A) (fseed A)
        (fuzz_seeds A ix) [0..<fcount A] s w = (Inr finds, w')"
    and code: "exit_code = (if finds \<noteq> [] then 1 else 0)"
    using rest ne by (auto simp: bindio_Inr_iff)
  have sub: "rel \<in> set (map fst ix)" if "rel \<in> set (fuzz_seeds A ix)" for rel
    using that by (simp add: fuzz_seeds_def)
  have l: "list_all2 (reported E (fseed A) f w') (failing_mutants A f below s ix w) finds"
    using fuzz_loop_reports [where c = "corpus w" and src = "\<lambda>rel. text_at w (joinp (corpus w) rel)",
        OF grades below ne files corp [OF sub] loop start refl refl] by (simp add: failing_mutants_def)
  then show ?thesis using code list_all2_lengthD [OF l] by auto
qed

definition stub_args :: fuzz_args where
  "stub_args = \<lparr>fimpl = [''impl''], fscope = None, froute = native, foracles = [1], fseed = 7,
     ffilter = Some ''a.w'', fcount = 2, fedits = 1\<rparr>"

definition stub_find :: "nat \<Rightarrow> find" where
  "stub_find n = \<lparr>find_path = ''/test/report/fuzz/find-7-'' @ str_nat n @ ''.wax'',
     find_seed = ''a.wax'', find_tokens = ['';''], find_failures = [stub_failure]\<rparr>"

lemma stub_loop:
  "fst (fuzz_loop stub_env [''impl''] (project_modes\<lparr>oracle2_route := native\<rparr>) [1]
      (\<lambda>s n. (s mod n, s + 1)) 1 7 [''a.wax''] [0..<2] (2::nat) project)
     = Inr [stub_find 0, stub_find 1]"
  by code_simp

lemma stub_fuzz:
  "fst (cmd_fuzz stub_env stub_args (\<lambda>s n. (s mod n, s + 1)) (2::nat) project)
     = Inr (1, [stub_find 0, stub_find 1])"
proof -
  have r: "root stub_env = []" by (simp add: stub_env_def demo_env_def)
  have s: "filter (\<lambda>r. contains r ''a.w'') (sort (map fst project_index)) = [''a.wax'']" by code_simp
  obtain w' where l: "fuzz_loop stub_env [''impl''] (project_modes\<lparr>oracle2_route := native\<rparr>) [1]
      (\<lambda>s n. (s mod n, s + 1)) 1 7 [''a.wax''] [0..<2] (2::nat) project
      = (Inr [stub_find 0, stub_find 1], w')"
    using run_eq [OF stub_loop] by blast
  then show ?thesis
    by (simp add: cmd_fuzz_def stub_args_def bindio_def project_loads [OF r] Let_def s
        del: fuzz_loop.simps One_nat_def upt_conv_Cons)
qed

lemma stub_hermetic: "hermetic stub_env (find_file stub_env seed n)" "hermetic stub_env (joinp ''c'' rel)"
  by (auto simp: hermetic_def stub_env_def demo_env_def find_file_def joinp_def report_def under_def startswith_def)

lemma stub_gradable:
  "gradable stub_env [''impl''] (project_modes\<lparr>oracle2_route := native\<rparr>) [1] 7 (\<lambda>_. [stub_failure]) stub_worlds"
  unfolding gradable_def
proof (intro conjI ballI allI)
  show "answers stub_worlds (\<lambda>c. grade stub_env [''impl''] (render_tokens c)
      (project_modes\<lparr>oracle2_route := native\<rparr>) [1]) (\<lambda>_. [stub_failure])"
    by (rule stub_answers_mode) code_simp
  fix v n b
  have "\<not> under ''/tmp/waxdiff-fuzz-'' (find_file stub_env 7 n)"
    by (simp add: stub_env_def demo_env_def find_file_def joinp_def report_def under_def startswith_def)
  then show "v \<in> stub_worlds \<Longrightarrow> v\<lparr>disk := (disk v)(find_file stub_env 7 n \<mapsto> b)\<rparr> \<in> stub_worlds"
    by (auto simp: stub_worlds_def)
qed

lemma project_start: "project \<in> stub_worlds"
  by (auto simp: project_def stub_worlds_def demo_world_def under_def startswith_def)

theorem fuzz_reports_witness:
  "disk (snd (cmd_fuzz stub_env stub_args (\<lambda>s n. (s mod n, s + 1)) (2::nat) project))
     ''/test/report/fuzz/find-7-0.wax'' = Some (utf8_encode (render_tokens ['';'']))"
proof -
  let ?w = "snd (cmd_fuzz stub_env stub_args (\<lambda>s n. (s mod n, s + 1)) (2::nat) project)"
  let ?f = "\<lambda>_ :: str list. [stub_failure]"
  have r: "root stub_env = []" by (simp add: stub_env_def demo_env_def)
  have a: "fscope stub_args = None" "fuzz_policy stub_args project_modes = project_modes\<lparr>oracle2_route := native\<rparr>"
    "fuzz_oracles stub_args = [1]" "fimpl stub_args = [''impl'']" "fseed stub_args = 7"
    by (simp_all add: stub_args_def fuzz_policy_def fuzz_oracles_def)
  have c: "corpus project = ''c''" by (simp add: project_def demo_world_def)
  have "list_all2 (reported stub_env (fseed stub_args) ?f ?w)
      (failing_mutants stub_args ?f (\<lambda>s n. (s mod n, s + 1)) 2 project_index project) [stub_find 0, stub_find 1]"
  proof (rule conjunct1 [OF fuzz_reports])
    show "fst (load_policy stub_env (fscope stub_args) project) = Inr project_modes"
      "fst (load_index stub_env project) = Inr project_index" using project_loads [OF r] a(1) by simp_all
    show "gradable stub_env (fimpl stub_args) (fuzz_policy stub_args project_modes) (fuzz_oracles stub_args)
        (fseed stub_args) ?f stub_worlds" unfolding a by (rule stub_gradable)
    show "project \<in> stub_worlds" by (rule project_start)
    show "hermetic stub_env (find_file stub_env (fseed stub_args) n)" for n by (rule stub_hermetic)
    show "hermetic stub_env (joinp (corpus project) rel)
        \<and> (\<forall>n. joinp (corpus project) rel \<noteq> find_file stub_env (fseed stub_args) n)" for rel
      using stub_hermetic(2) r by (simp add: c find_file_def joinp_def report_def)
    show "cmd_fuzz stub_env stub_args (\<lambda>s n. (s mod n, s + 1)) 2 project = (Inr (1, [stub_find 0, stub_find 1]), ?w)"
      by (rule run_eq [OF stub_fuzz])
  qed simp
  then have "disk ?w (find_path (stub_find 0)) = Some (utf8_encode (render_tokens (find_tokens (stub_find 0))))"
    by (auto simp: list_all2_Cons2 reported_def)
  moreover have "str_nat 0 = ''0''" by code_simp
  ultimately show ?thesis by (simp add: stub_find_def)
qed

end
