(* ===== verification/Adopt.thy ===== *)
theory Adopt
  imports Golden Paths
begin

text \<open>
  \<open>adopt\<close> of \<open>tools/waxdiff.py\<close> (1556--1586): moving a find into the corpus.
\<close>

section \<open>Adopting a find\<close>

record adopt_args =
  afile :: path
  aname :: "str option"
  aorigin :: "str option"
  aforce :: bool

definition or_else :: "str option \<Rightarrow> str \<Rightarrow> str" where
  \<comment> \<open>\<open>x or d\<close>: none and the empty string are both false\<close>
  "or_else x d = (case x of None \<Rightarrow> d | Some s \<Rightarrow> if s = [] then d else s)"

definition item_dict :: "(str, json) dict \<Rightarrow> str \<Rightarrow> (str, json) dict res" where
  \<comment> \<open>\<open>d[k]\<close>, about to be assigned into\<close>
  "item_dict d k = bindr (dindex d k) (\<lambda>v. case v of JObj e \<Rightarrow> Inr e | _ \<Rightarrow> Inl TypeError)"

definition adopt_manifest :: "str \<Rightarrow> str \<Rightarrow> (str, json) dict \<Rightarrow> (str, json) dict res" where
  "adopt_manifest rel origin m =
     bindr (item_dict m ''files'') (\<lambda>files.
     let files' = sort_items (dset rel (JObj [(''origin'', JStr origin)]) files);
         m1 = dset ''files'' (JObj files') m in
     bindr (item_dict m1 ''counts'') (\<lambda>counts.
     let n = length (filter (\<lambda>k. startswith k ''fuzz/'') (dkeys files')) in
     Inr (dset ''counts'' (JObj (dset ''fuzz'' (JInt (int n)) counts)) m1)))"

definition cmd_adopt :: "env \<Rightarrow> adopt_args \<Rightarrow> str io" where
  \<comment> \<open>the name printed\<close>
  "cmd_adopt E A =
     bindio (exists_file (afile A)) (\<lambda>there.
     if \<not> there then raise (SystemExit (''waxdiff: no such file: '' @ afile A)) else
     let rel = ''fuzz/'' @ or_else (aname A) (py_stem (afile A)) @ ''.wax'' in
     bindio (corpus_path rel) (\<lambda>dest.
     bindio (exists_file dest) (\<lambda>taken.
     if taken \<and> \<not> aforce A
     then raise (SystemExit (''waxdiff: '' @ rel @ '' already in the corpus (use --force to replace)''))
     else
     bindio (read_text (afile A)) (\<lambda>t.
     bindio (write_text dest t) (\<lambda>_.
     bindio (corpus_path ''manifest.json'') (\<lambda>mp.
     bindio (read_text mp) (\<lambda>s.
     bindio (lift (bindr (bindr (loads s) as_obj)
        (adopt_manifest rel (or_else (aorigin A) (''fuzz find, from '' @ basename (afile A)))))) (\<lambda>m.
     bindio (write_text mp (dumps Indent2 (JObj m) @ [LF])) (\<lambda>_. ret rel)))))))))"

lemma adopt_manifest_result:
  assumes m: "adopt_manifest rel origin m = Inr m'"
    and files: "dget m ''files'' = Some (JObj files)" "distinct (dkeys files)"
    and counts: "dget m ''counts'' = Some (JObj counts)"
  shows "\<exists>files' n. dget m' ''files'' = Some (JObj files') \<and> sorted (dkeys files')
      \<and> dget files' = (dget files)(rel \<mapsto> JObj [(''origin'', JStr origin)])
      \<and> n = card {k \<in> insert rel (set (dkeys files)). startswith k ''fuzz/''}
      \<and> dget m' ''counts'' = Some (JObj (dset ''fuzz'' (JInt (int n)) counts))
      \<and> (\<forall>k. k \<noteq> ''files'' \<longrightarrow> k \<noteq> ''counts'' \<longrightarrow> dget m' k = dget m k)"
proof -
  let ?d = "dset rel (JObj [(''origin'', JStr origin)]) files"
  let ?f = "sort_items ?d"
  have dist: "distinct (dkeys ?d)" using files(2) by (rule distinct_dkeys_dset)
  have df: "distinct (dkeys ?f)" using distinct_sort_items [OF dist] by (simp add: dkeys_def)
  have sk: "set (dkeys ?f) = insert rel (set (dkeys files))"
    using sort_items_keys(2) [of ?d] set_dkeys_dset [of rel _ files] by (simp add: dkeys_def)
  have n: "length (filter (\<lambda>k. startswith k ''fuzz/'') (dkeys ?f))
      = card {k \<in> insert rel (set (dkeys files)). startswith k ''fuzz/''}"
    using distinct_card [OF distinct_filter [OF df, of "\<lambda>k. startswith k ''fuzz/''"]]
    unfolding set_filter sk by simp
  have e: "m' = dset ''counts'' (JObj (dset ''fuzz''
      (JInt (int (length (filter (\<lambda>k. startswith k ''fuzz/'') (dkeys ?f))))) counts))
      (dset ''files'' (JObj ?f) m)"
    using m files(1) counts
    by (simp add: adopt_manifest_def item_dict_def dindex_def Let_def)
  show ?thesis unfolding e n
    by (rule exI [of _ ?f], rule exI, intro conjI)
      (simp_all add: sort_items_keys(1) dget_sort_items [OF dist])
qed

lemma read_text_same: "read_text p w = (r, w') \<Longrightarrow> w' = w"
  by (auto simp: read_text_def bindio_def read_bytes_def split: option.splits sum.splits)

lemma read_text_iff: "read_text p w = (r, w') \<longleftrightarrow> w' = w \<and> fst (read_text p w) = r"
  using read_text_same by (metis fst_conv prod.collapse)

lemma list_all_dset: "list_all P d \<Longrightarrow> P (k, v) \<Longrightarrow> list_all P (dset k v d)"
  by (induction d) (auto split: if_splits)

lemma adopt_manifest_jwf:
  assumes "adopt_manifest rel origin m = Inr m'" and "jwf (JObj m)"
  shows "jwf (JObj m')"
proof -
  let ?P = "\<lambda>(k, v). jwf v"
  have sub: "jwf (JObj d)" if "dget m k = Some (JObj d)" for k d
  proof -
    have "\<forall>(k, v) \<in> set m. jwf v" using assms(2) by (simp add: list_all_iff)
    then show ?thesis using map_of_SomeD [OF that] by fastforce
  qed
  have set: "jwf (JObj (dset k v d))" if "jwf (JObj d)" "jwf v" for k v d
    using that by (auto simp: AList.distinct_update intro!: list_all_dset)
  obtain files counts where f: "dget m ''files'' = Some (JObj files)"
    and c: "dget m ''counts'' = Some (JObj counts)"
    and m': "m' = dset ''counts'' (JObj (dset ''fuzz'' (JInt (int (length (filter
       (\<lambda>k. startswith k ''fuzz/'') (dkeys (sort_items (dset rel (JObj [(''origin'', JStr origin)]) files)))))))
         counts)) (dset ''files'' (JObj (sort_items (dset rel (JObj [(''origin'', JStr origin)]) files))) m)"
    using assms(1)
    by (auto simp: adopt_manifest_def item_dict_def bindr_Inr_iff dindex_def Let_def
        split: option.splits json.splits)
  have o': "jwf (JObj (dset rel (JObj [(''origin'', JStr origin)]) files))"
    by (rule set [OF sub [OF f]]) simp
  have srt: "jwf (JObj (sort_items d))" if "jwf (JObj d)" for d
    using that distinct_sort_items [of d] sort_items_keys(2) [of d]
    by (simp add: list_all_iff dkeys_def)
  show ?thesis unfolding m'
    by (rule set [OF set [OF assms(2) srt [OF o']] set [OF sub [OF c]]]) simp
qed

section \<open>Properties\<close>

text \<open>
  C30: adopting a find copies its text into the corpus, replaces an existing file only when asked
  to, and records it: the manifest on disk gains the entry, keeps the others, stays sorted, and
  counts the entries under \<open>fuzz/\<close>.
\<close>

theorem adopt_records:
  assumes "fst (cmd_adopt E A w) = Inr rel"
    and "fst (bindio (read_text (joinp (corpus w) ''manifest.json'')) (\<lambda>s. lift (loads s)) w) = Inr (JObj m)"
    and "afile A \<noteq> joinp (corpus w) rel"
    and "jwf (JObj m)" and "dget m ''files'' = Some (JObj files)" and "dget m ''counts'' = Some (JObj counts)"
  shows "let w' = snd (cmd_adopt E A w); dest = joinp (corpus w) rel in
    (aforce A \<or> disk w dest = None)
    \<and> (\<exists>t. fst (read_text (afile A) w) = Inr t \<and> disk w' dest = Some (utf8_encode t))
    \<and> (\<exists>m' files' origin.
        fst (bindio (read_text (joinp (corpus w) ''manifest.json'')) (\<lambda>s. lift (loads s)) w') = Inr (JObj m')
        \<and> dget m' ''files'' = Some (JObj files') \<and> sorted (dkeys files')
        \<and> dget files' = (dget files)(rel \<mapsto> JObj [(''origin'', JStr origin)])
        \<and> dget m' ''counts'' = Some (JObj (dset ''fuzz''
            (JInt (int (card {k \<in> insert rel (set (dkeys files)). startswith k ''fuzz/''}))) counts)))"
proof -
  let ?mp = "joinp (corpus w) ''manifest.json''"
  let ?dest = "joinp (corpus w) rel"
  let ?o = "or_else (aorigin A) (''fuzz find, from '' @ basename (afile A))"
  obtain s where s: "read_text ?mp w = (Inr s, w)" and l: "loads s = Inr (JObj m)"
    using run_eq [OF assms(2)]
    by (auto simp: bindio_Inr_iff read_text_def read_bytes_def split: option.splits)
  have rel: "rel = ''fuzz/'' @ or_else (aname A) (py_stem (afile A)) @ ''.wax''"
    using run_eq [OF assms(1)] by (auto simp: cmd_adopt_def bindio_Inr_iff Let_def split: if_splits)
  have mp: "?mp \<noteq> ?dest" by (simp add: rel joinp_def)
  note rel' = rel [symmetric, simplified]
  obtain w2 where w2: "cmd_adopt E A w = (Inr rel, w2)" using run_eq [OF assms(1)] by blast
  have "\<exists>t s' m'. read_text (afile A) w = (Inr t, w) \<and> (aforce A \<or> disk w ?dest = None)
      \<and> (let w1 = w\<lparr>disk := (disk w)(?dest \<mapsto> utf8_encode t)\<rparr> in
          read_text ?mp w1 = (Inr s', w1) \<and> bindr (bindr (loads s') as_obj) (adopt_manifest rel ?o) = Inr m'
          \<and> w2 = w1\<lparr>disk := (disk w1)(?mp \<mapsto> utf8_encode (dumps Indent2 (JObj m') @ [LF]))\<rparr>)"
    using w2
    unfolding cmd_adopt_def Let_def rel [symmetric]
    by (auto simp: bindio_Inr_iff exists_file_def corpus_path_def write_text_def write_bytes_def set_disk_def
        rel' read_text_iff split: if_splits)
  then obtain t s' m' where t: "read_text (afile A) w = (Inr t, w)" and free: "aforce A \<or> disk w ?dest = None"
    and s': "read_text ?mp (w\<lparr>disk := (disk w)(?dest \<mapsto> utf8_encode t)\<rparr>)
      = (Inr s', w\<lparr>disk := (disk w)(?dest \<mapsto> utf8_encode t)\<rparr>)"
    and b: "bindr (bindr (loads s') as_obj) (adopt_manifest rel ?o) = Inr m'"
    and w': "w2 = w\<lparr>disk := (disk w)(?dest \<mapsto> utf8_encode t,
        ?mp \<mapsto> utf8_encode (dumps Indent2 (JObj m') @ [LF]))\<rparr>"
    by (auto simp: Let_def)
  have "fst (read_text ?mp (w\<lparr>disk := (disk w)(?dest \<mapsto> utf8_encode t)\<rparr>)) = fst (read_text ?mp w)"
    using mp by (auto simp: read_text_def read_bytes_def bindio_def split: option.splits sum.splits)
  then have "s' = s" using s s' by simp
  then have m': "adopt_manifest rel ?o m = Inr m'" using b l by (simp add: as_obj_def)
  have dist: "distinct (dkeys files)"
    using assms(4) map_of_SomeD [OF assms(5)] by (auto simp: list_all_iff dkeys_def)
  note res = adopt_manifest_result [OF m' assms(5) dist assms(6)]
  have "jwf (JObj m')" by (rule adopt_manifest_jwf [OF m' assms(4)])
  then have reread: "bindio (read_text ?mp) (\<lambda>s. lift (loads s)) w2 = (Inr (JObj m'), w2)"
    by (rule text_file_back) (simp add: w')
  have "disk w2 ?dest = Some (utf8_encode t)" using mp by (simp add: w')
  then show ?thesis using free t reread res by (auto simp: Let_def w2)
qed

definition adopt_demo :: adopt_args where
  "adopt_demo = \<lparr>afile = ''/tmp/f.wax'', aname = None, aorigin = None, aforce = False\<rparr>"

definition demo_manifest :: "(str, json) dict" where
  "demo_manifest = [(''counts'', JObj [(''cram'', JInt 1)]),
     (''files'', JObj [(''cram/a.wax'', JObj [(''origin'', JStr ''o'')])])]"

definition adopt_world :: world where
  "adopt_world = demo_world\<lparr>disk := (disk demo_world)
     (''/tmp/f.wax'' \<mapsto> ''x;'', ''c/manifest.json'' \<mapsto> dumps Compact (JObj demo_manifest))\<rparr>"

theorem adopt_records_witness:
  "disk (snd (cmd_adopt demo_env adopt_demo adopt_world)) ''c/fuzz/f.wax'' = Some ''x;''"
proof -
  have c: "corpus adopt_world = ''c''" by code_simp
  have r: "fst (cmd_adopt demo_env adopt_demo adopt_world) = Inr ''fuzz/f.wax''" by code_simp
  have m: "fst (bindio (read_text (joinp (corpus adopt_world) ''manifest.json''))
      (\<lambda>s. lift (loads s)) adopt_world) = Inr (JObj demo_manifest)" by code_simp
  have ne: "afile adopt_demo \<noteq> joinp (corpus adopt_world) ''fuzz/f.wax''" by code_simp
  have wf: "jwf (JObj demo_manifest)" by code_simp
  have f: "dget demo_manifest ''files'' = Some (JObj [(''cram/a.wax'', JObj [(''origin'', JStr ''o'')])])"
    by code_simp
  have n: "dget demo_manifest ''counts'' = Some (JObj [(''cram'', JInt 1)])" by code_simp
  have d: "joinp ''c'' ''fuzz/f.wax'' = ''c/fuzz/f.wax''" by code_simp
  have t: "fst (read_text (afile adopt_demo) adopt_world) = Inr ''x;''" by code_simp
  have u: "utf8_encode ''x;'' = ''x;''" by code_simp
  from adopt_records [OF r m ne wf f n] show ?thesis by (auto simp: Let_def c d t u)
qed

end
