(* ===== verification/Command_Line.thy ===== *)
theory Command_Line
  imports Arguments Run_Report Cram_Scope Collect Fuzz Adopt
begin

text \<open>
  \<open>main\<close> of \<open>tools/waxdiff.py\<close>: the command that is run with what \<open>argparse\<close> makes of the command
  line.  The parsing of the words is \<open>argparse\<close>'s and a parameter.
\<close>

section \<open>Commands\<close>

datatype command =
    Collect collect_args
  | Classify int
  | Fuzz_Cmd "int option" fuzz_args
  | Adopt_Cmd adopt_args
  | Classify_Cram bool
  | Golden_Cmd int
  | Run_Cmd int run_args

definition oracle_list :: "namespace \<Rightarrow> nat list option" where
  "oracle_list ns = map_option (map nat) (attr (list_arg int_arg) ns ''oracle'')"

definition collect_command :: "namespace \<Rightarrow> command option" where
  "collect_command ns =
     Option.bind (attr (list_arg str_arg) ns ''only'') (\<lambda>only.
     Option.bind (attr (optional int_arg) ns ''spec_limit'') (\<lambda>limit.
     Option.bind (attr int_arg ns ''spec_per_wast'') (\<lambda>per.
     Some (Collect \<lparr>conly = only, cspec_limit = limit, cspec_per_wast = per\<rparr>))))"

definition fuzz_command :: "namespace \<Rightarrow> command option" where
  \<comment> \<open>\<open>range(n)\<close> and \<open>randint(1, n)\<close> do the same for every \<open>n\<close> below one\<close>
  "fuzz_command ns =
     Option.bind (attr str_arg ns ''impl'') (\<lambda>impl.
     Option.bind (attr int_arg ns ''count'') (\<lambda>count.
     Option.bind (attr int_arg ns ''edits'') (\<lambda>edits.
     Option.bind (attr (optional int_arg) ns ''seed'') (\<lambda>seed.
     Option.bind (attr (optional str_arg) ns ''filter'') (\<lambda>flt.
     Option.bind (oracle_list ns) (\<lambda>os.
     Option.bind (attr str_arg ns ''oracle2_route'') (\<lambda>route.
     Option.bind (attr (optional str_arg) ns ''scope'') (\<lambda>scope.
     Some (Fuzz_Cmd seed \<lparr>fimpl = words impl, fscope = scope, froute = route, foracles = os, fseed = 0,
       ffilter = flt, fcount = nat count, fedits = nat edits\<rparr>)))))))))"

definition adopt_command :: "namespace \<Rightarrow> command option" where
  "adopt_command ns =
     Option.bind (attr str_arg ns ''file'') (\<lambda>file.
     Option.bind (attr (optional str_arg) ns ''name'') (\<lambda>name.
     Option.bind (attr (optional str_arg) ns ''origin'') (\<lambda>origin.
     Option.bind (attr bool_arg ns ''force'') (\<lambda>force.
     Some (Adopt_Cmd \<lparr>afile = file, aname = name, aorigin = origin, aforce = force\<rparr>)))))"

definition run_command :: "namespace \<Rightarrow> command option" where
  "run_command ns =
     Option.bind (attr str_arg ns ''impl'') (\<lambda>impl.
     Option.bind (oracle_list ns) (\<lambda>os.
     Option.bind (attr str_arg ns ''oracle2_route'') (\<lambda>route.
     Option.bind (attr (optional str_arg) ns ''filter'') (\<lambda>flt.
     Option.bind (attr (optional str_arg) ns ''scope'') (\<lambda>scope.
     Option.bind (attr int_arg ns ''jobs'') (\<lambda>jobs.
     Option.bind (attr bool_arg ns ''self_test'') (\<lambda>self.
     Option.bind (attr int_arg ns ''max_report'') (\<lambda>most.
     Some (Run_Cmd jobs \<lparr>rimpl = impl, rscope = scope, rroute = route, roracles = os,
       rself_test = self, rfilter = flt, rmax_report = most\<rparr>)))))))))"

definition command_of :: "str \<Rightarrow> namespace \<Rightarrow> command option" where
  \<comment> \<open>\<open>set_defaults(fn=...)\<close> and what the function reads\<close>
  "command_of cmd ns =
     (if cmd = ''collect'' then collect_command ns
      else if cmd = ''classify'' then map_option Classify (attr int_arg ns ''jobs'')
      else if cmd = ''fuzz'' then fuzz_command ns
      else if cmd = ''adopt'' then adopt_command ns
      else if cmd = ''classify-cram'' then map_option Classify_Cram (attr bool_arg ns ''dry_run'')
      else if cmd = ''golden'' then map_option Golden_Cmd (attr int_arg ns ''jobs'')
      else if cmd = ''run'' then run_command ns
      else None)"

definition quietly :: "'a io \<Rightarrow> nat io" where
  "quietly m = bindio m (\<lambda>_. ret 0)"

fun execute :: "env \<Rightarrow> unified_diff \<Rightarrow> 's below \<Rightarrow> (int \<Rightarrow> 's) \<Rightarrow> int \<Rightarrow> command \<Rightarrow> nat io" where
  \<comment> \<open>the exit code; \<open>seeded\<close> is \<open>random.Random\<close>, \<open>fresh\<close> the seed drawn when none is given\<close>
  "execute E ud below seeded fresh (Collect A) = quietly (cmd_collect E A)"
| "execute E ud below seeded fresh (Classify jobs) = quietly (cmd_classify E)"
| "execute E ud below seeded fresh (Fuzz_Cmd seed A) =
     (let k = (case seed of None \<Rightarrow> fresh | Some k \<Rightarrow> k) in
      bindio (cmd_fuzz E (A\<lparr>fseed := k\<rparr>) below (seeded k)) (\<lambda>r. ret (fst r)))"
| "execute E ud below seeded fresh (Adopt_Cmd A) = quietly (cmd_adopt E A)"
| "execute E ud below seeded fresh (Classify_Cram dry) = quietly (cmd_classify_cram E dry)"
| "execute E ud below seeded fresh (Golden_Cmd jobs) = quietly (cmd_golden E)"
| "execute E ud below seeded fresh (Run_Cmd jobs A) = bindio (cmd_run E ud A) (\<lambda>r. ret (fst r))"

definition waxdiff_main ::
    "env \<Rightarrow> unified_diff \<Rightarrow> 's below \<Rightarrow> (int \<Rightarrow> 's) \<Rightarrow> int \<Rightarrow> (str list \<Rightarrow> (str \<times> namespace) res) \<Rightarrow>
     str list \<Rightarrow> nat io" where
  \<comment> \<open>\<open>parse\<close> is \<open>ap.parse_args\<close>\<close>
  "waxdiff_main E ud below seeded fresh parse argv =
     bindio (lift (parse argv)) (\<lambda>(cmd, ns). case command_of cmd ns of
         None \<Rightarrow> raise AttributeError
       | Some c \<Rightarrow> execute E ud below seeded fresh c)"

section \<open>What a command can be given\<close>

fun allowed :: "command \<Rightarrow> bool" where
  "allowed (Collect A) \<longleftrightarrow> set (conly A) \<subseteq> set all_sources"
| "allowed (Fuzz_Cmd seed A) \<longleftrightarrow> set (foracles A) \<subseteq> {1, 2, 3, 4} \<and> froute A \<in> {via_reference, native}
     \<and> fscope A \<in> {None, Some ''front-end'', Some ''full''}"
| "allowed (Run_Cmd jobs A) \<longleftrightarrow> set (roracles A) \<subseteq> {1, 2, 3, 4} \<and> rroute A \<in> {via_reference, native}
     \<and> rscope A \<in> {None, Some ''front-end'', Some ''full''}"
| "allowed _ \<longleftrightarrow> True"

lemma read_oracles:
  assumes "conforms cpus cmd ns" and "dget (subcommands cpus) cmd = Some xs" and "oracle_option \<in> set xs"
  shows "\<exists>os. oracle_list ns = Some os \<and> set os \<subseteq> {1, 2, 3, 4}"
proof -
  obtain ts where t: "attr (list_arg int_arg) ns ''oracle'' = Some ts" "AInt ` set ts \<subseteq> set (map AInt [1, 2, 3, 4])"
    using read_ints [OF conformsD [OF assms(1,2) assms(3) [unfolded oracle_option_def]]] by auto
  have "set ts \<subseteq> {1, 2, 3, 4}"
  proof
    fix x assume "x \<in> set ts"
    then have "AInt x \<in> AInt ` {1, 2, 3, 4}" using t(2) by auto
    then show "x \<in> {1, 2, 3, 4}" by auto
  qed
  then have "set (map nat ts) \<subseteq> {1, 2, 3, 4}" by auto
  then show ?thesis using t(1) by (simp add: oracle_list_def)
qed

lemma read_route:
  assumes "conforms cpus cmd ns" and "dget (subcommands cpus) cmd = Some xs" and "route_option \<in> set xs"
  shows "\<exists>r. attr str_arg ns ''oracle2_route'' = Some r \<and> r \<in> {via_reference, native}"
  using read_str [OF conformsD [OF assms(1,2) assms(3) [unfolded route_option_def]]] by auto

lemma read_scope:
  assumes "conforms cpus cmd ns" and "dget (subcommands cpus) cmd = Some xs" and "scope_option \<in> set xs"
  shows "\<exists>r. attr (optional str_arg) ns ''scope'' = Some r \<and> r \<in> {None, Some ''front-end'', Some ''full''}"
  using read_opt_str [OF conformsD [OF assms(1,2) assms(3) [unfolded scope_option_def]]]
  by (auto split: option.splits)

lemma read_filter:
  assumes "conforms cpus cmd ns" and "dget (subcommands cpus) cmd = Some xs" and "filter_option \<in> set xs"
  shows "\<exists>r. attr (optional str_arg) ns ''filter'' = Some r"
  using read_opt_str [OF conformsD [OF assms(1,2) assms(3) [unfolded filter_option_def]]] by auto

lemma read_jobs:
  assumes "conforms cpus cmd ns" and "dget (subcommands cpus) cmd = Some xs" and "jobs_option cpus \<in> set xs"
  shows "\<exists>r. attr int_arg ns ''jobs'' = Some r"
  using read_int [OF conformsD [OF assms(1,2) assms(3) [unfolded jobs_option_def]]] by auto

lemma collect_typed:
  assumes c: "conforms cpus ''collect'' ns"
  shows "\<exists>c. collect_command ns = Some c \<and> allowed c"
proof -
  have d: "dget (subcommands cpus) ''collect'' = Some (the (dget (subcommands cpus) ''collect''))"
    by (simp add: subcommands_def)
  note o = conformsD [OF c d]
  obtain only where 1: "attr (list_arg str_arg) ns ''only'' = Some only" "AStr ` set only \<subseteq> set (map AStr all_sources)"
    using read_strs [OF o [of "''only''" AppendStr "map AStr all_sources" "Some ANone"]]
    by (auto simp: subcommands_def all_sources_def)
  obtain limit where 2: "attr (optional int_arg) ns ''spec_limit'' = Some limit"
    using read_opt_int [OF o [of "''spec_limit''" StoreInt "[]" "Some ANone"]] by (auto simp: subcommands_def)
  obtain per where 3: "attr int_arg ns ''spec_per_wast'' = Some per"
    using read_int [OF o [of "''spec_per_wast''" StoreInt "[]" "Some (AInt 5)"]] by (auto simp: subcommands_def)
  have "set only \<subseteq> set all_sources" using 1(2) by auto
  then show ?thesis using 1(1) 2 3 by (simp add: collect_command_def)
qed

lemma fuzz_typed:
  assumes c: "conforms cpus ''fuzz'' ns"
  shows "\<exists>c. fuzz_command ns = Some c \<and> allowed c"
proof -
  have d: "dget (subcommands cpus) ''fuzz'' = Some (the (dget (subcommands cpus) ''fuzz''))"
    by (simp add: subcommands_def)
  note o = conformsD [OF c d]
  obtain impl where 1: "attr str_arg ns ''impl'' = Some impl"
    using read_str [OF o [of "''impl''" Store "[]" "Some (AStr ''tools/wax-mb'')"]] by (auto simp: subcommands_def)
  obtain count where 2: "attr int_arg ns ''count'' = Some count"
    using read_int [OF o [of "''count''" StoreInt "[]" "Some (AInt 100)"]] by (auto simp: subcommands_def)
  obtain edits where 3: "attr int_arg ns ''edits'' = Some edits"
    using read_int [OF o [of "''edits''" StoreInt "[]" "Some (AInt 3)"]] by (auto simp: subcommands_def)
  obtain seed where 4: "attr (optional int_arg) ns ''seed'' = Some seed"
    using read_opt_int [OF o [of "''seed''" StoreInt "[]" "Some ANone"]] by (auto simp: subcommands_def)
  obtain flt where 5: "attr (optional str_arg) ns ''filter'' = Some flt"
    using read_filter [OF c d] by (auto simp: subcommands_def)
  obtain os where 6: "oracle_list ns = Some os" "set os \<subseteq> {1, 2, 3, 4}"
    using read_oracles [OF c d] by (auto simp: subcommands_def)
  obtain route where 7: "attr str_arg ns ''oracle2_route'' = Some route" "route \<in> {via_reference, native}"
    using read_route [OF c d] by (auto simp: subcommands_def)
  obtain scope where 8: "attr (optional str_arg) ns ''scope'' = Some scope" "scope \<in> {None, Some ''front-end'', Some ''full''}"
    using read_scope [OF c d] by (auto simp: subcommands_def)
  show ?thesis using 6(2) 7(2) 8(2) unfolding fuzz_command_def 1 2 3 4 5 6(1) 7(1) 8(1) by simp
qed

lemma adopt_typed:
  assumes c: "conforms cpus ''adopt'' ns"
  shows "\<exists>c. adopt_command ns = Some c \<and> allowed c"
proof -
  have d: "dget (subcommands cpus) ''adopt'' = Some (the (dget (subcommands cpus) ''adopt''))"
    by (simp add: subcommands_def)
  note o = conformsD [OF c d]
  obtain fl where 1: "attr str_arg ns ''file'' = Some fl"
    using read_required [OF o [of "''file''" Store "[]" None]] by (auto simp: subcommands_def)
  obtain nm where 2: "attr (optional str_arg) ns ''name'' = Some nm"
    using read_opt_str [OF o [of "''name''" Store "[]" "Some ANone"]] by (auto simp: subcommands_def)
  obtain origin where 3: "attr (optional str_arg) ns ''origin'' = Some origin"
    using read_opt_str [OF o [of "''origin''" Store "[]" "Some ANone"]] by (auto simp: subcommands_def)
  obtain force where 4: "attr bool_arg ns ''force'' = Some force"
    using read_flag [OF o [of "''force''" StoreTrue "[]" "Some (ABool False)"]] by (auto simp: subcommands_def)
  show ?thesis unfolding adopt_command_def 1 2 3 4 by simp
qed

lemma run_typed:
  assumes c: "conforms cpus ''run'' ns"
  shows "\<exists>c. run_command ns = Some c \<and> allowed c"
proof -
  have d: "dget (subcommands cpus) ''run'' = Some (the (dget (subcommands cpus) ''run''))"
    by (simp add: subcommands_def)
  note o = conformsD [OF c d]
  obtain impl where 1: "attr str_arg ns ''impl'' = Some impl"
    using read_str [OF o [of "''impl''" Store "[]" "Some (AStr ''tools/wax-ref'')"]] by (auto simp: subcommands_def)
  obtain os where 2: "oracle_list ns = Some os" "set os \<subseteq> {1, 2, 3, 4}"
    using read_oracles [OF c d] by (auto simp: subcommands_def)
  obtain route where 3: "attr str_arg ns ''oracle2_route'' = Some route" "route \<in> {via_reference, native}"
    using read_route [OF c d] by (auto simp: subcommands_def)
  obtain flt where 4: "attr (optional str_arg) ns ''filter'' = Some flt"
    using read_filter [OF c d] by (auto simp: subcommands_def)
  obtain scope where 5: "attr (optional str_arg) ns ''scope'' = Some scope" "scope \<in> {None, Some ''front-end'', Some ''full''}"
    using read_scope [OF c d] by (auto simp: subcommands_def)
  obtain jobs where 6: "attr int_arg ns ''jobs'' = Some jobs"
    using read_jobs [OF c d] by (auto simp: subcommands_def)
  obtain self where 7: "attr bool_arg ns ''self_test'' = Some self"
    using read_flag [OF o [of "''self_test''" StoreTrue "[]" "Some (ABool False)"]] by (auto simp: subcommands_def)
  obtain most where 8: "attr int_arg ns ''max_report'' = Some most"
    using read_int [OF o [of "''max_report''" StoreInt "[]" "Some (AInt 50)"]] by (auto simp: subcommands_def)
  show ?thesis using 2(2) 3(2) 5(2) unfolding run_command_def 1 2(1) 3(1) 4 5(1) 6 7 8 by simp
qed

lemma command_typed:
  assumes c: "conforms cpus cmd ns"
  shows "\<exists>c. command_of cmd ns = Some c \<and> allowed c"
proof -
  have "dget (subcommands cpus) cmd \<noteq> None" using c by (auto simp: conforms_def split: option.splits)
  then consider "cmd = ''collect''" | "cmd = ''fuzz''" | "cmd = ''adopt''" | "cmd = ''run''"
    | (jobs) "cmd = ''classify'' \<or> cmd = ''golden''" | (cram) "cmd = ''classify-cram''"
    by (auto simp: subcommands_def split: if_splits)
  then show ?thesis
  proof cases
    case jobs
    then have "\<exists>xs. dget (subcommands cpus) cmd = Some xs \<and> jobs_option cpus \<in> set xs" by (auto simp: subcommands_def)
    then obtain j where "attr int_arg ns ''jobs'' = Some j" using read_jobs [OF c] by auto
    then show ?thesis using jobs by (auto simp: command_of_def)
  next
    case cram
    then have "\<exists>xs. dget (subcommands cpus) cmd = Some xs \<and> arg ''dry_run'' StoreTrue [] (Some (ABool False)) \<in> set xs"
      by (auto simp: subcommands_def)
    then obtain b where "attr bool_arg ns ''dry_run'' = Some b" using read_flag [OF conformsD [OF c]] by blast
    then show ?thesis using cram by (auto simp: command_of_def)
  qed (use c collect_typed fuzz_typed adopt_typed run_typed in \<open>simp_all add: command_of_def\<close>)
qed

text \<open>Every selection of a run can be asked for.\<close>

definition run_namespace :: "int \<Rightarrow> run_args \<Rightarrow> namespace" where
  "run_namespace jobs A =
     [(''impl'', AStr (rimpl A)),
      (''oracle'', if roracles A = [] then ANone else AList (map (\<lambda>k. AInt (int k)) (roracles A))),
      (''oracle2_route'', AStr (rroute A)),
      (''filter'', case rfilter A of None \<Rightarrow> ANone | Some s \<Rightarrow> AStr s),
      (''scope'', case rscope A of None \<Rightarrow> ANone | Some s \<Rightarrow> AStr s),
      (''jobs'', AInt jobs), (''self_test'', ABool (rself_test A)), (''max_report'', AInt (rmax_report A))]"

lemma those_oracles: "those (map int_arg (map (\<lambda>k. AInt (int k)) os)) = Some (map int os)"
  by (induction os) auto

lemma run_reachable:
  assumes "allowed (Run_Cmd jobs A)"
  shows "conforms cpus ''run'' (run_namespace jobs A) \<and> command_of ''run'' (run_namespace jobs A) = Some (Run_Cmd jobs A)"
proof
  have os: "\<And>k. k \<in> set (roracles A) \<Longrightarrow> k \<in> {1, 2, 3, 4}" using assms by auto
  have given: "list_all (given oracle_option) (map (\<lambda>k. AInt (int k)) (roracles A))"
    using os by (fastforce simp: list_all_iff given_def oracle_option_def arg_def)
  have sc: "rscope A \<in> {None, Some ''front-end'', Some ''full''}" and rt: "rroute A \<in> {via_reference, native}"
    using assms by auto
  have "permitted oracle_option (if roracles A = [] then ANone else AList (map (\<lambda>k. AInt (int k)) (roracles A)))"
    using given by (simp add: oracle_option_def arg_def)
  moreover have "permitted route_option (AStr (rroute A))"
    using rt by (auto simp: route_option_def arg_def given_def)
  moreover have "permitted scope_option (case rscope A of None \<Rightarrow> ANone | Some s \<Rightarrow> AStr s)"
    using sc by (auto simp: scope_option_def arg_def given_def)
  moreover have "permitted filter_option (case rfilter A of None \<Rightarrow> ANone | Some s \<Rightarrow> AStr s)"
    by (auto simp: filter_option_def arg_def given_def split: option.split)
  ultimately show "conforms cpus ''run'' (run_namespace jobs A)"
    by (simp add: conforms_def subcommands_def run_namespace_def oracle_option_def route_option_def
        scope_option_def filter_option_def jobs_option_def arg_def given_def del: permitted.simps)
      (simp add: given_def)
  have "oracle_list (run_namespace jobs A) = Some (roracles A)"
    using those_oracles [of "roracles A"]
    by (simp add: oracle_list_def attr_def run_namespace_def comp_def)
  then show "command_of ''run'' (run_namespace jobs A) = Some (Run_Cmd jobs A)"
    by (simp add: command_of_def run_command_def attr_def run_namespace_def split: option.split)
qed

section \<open>Properties\<close>

text \<open>
  C38: the command line is well typed.  Whatever the words, a namespace that keeps what \<open>argparse\<close>
  promises of the declared options has every attribute its command reads, at its type, with oracles
  1 to 4 and a known route and scope only, so \<open>main\<close> never fails between parsing and the command;
  and every such selection of a run can be asked for.
\<close>

theorem main_typed:
  assumes "parse argv = Inr (cmd, ns)" and "conforms cpus cmd ns"
  shows "(\<exists>c. command_of cmd ns = Some c \<and> allowed c
      \<and> waxdiff_main E ud below seeded fresh parse argv w = execute E ud below seeded fresh c w)
    \<and> (allowed (Run_Cmd jobs A) \<longrightarrow>
        (\<exists>ns. conforms cpus ''run'' ns \<and> command_of ''run'' ns = Some (Run_Cmd jobs A)))"
proof -
  obtain c where c: "command_of cmd ns = Some c" "allowed c" using command_typed [OF assms(2)] by blast
  then have "waxdiff_main E ud below seeded fresh parse argv w = execute E ud below seeded fresh c w"
    using assms(1) by (simp add: waxdiff_main_def bindio_lift)
  then show ?thesis using c run_reachable [of jobs A cpus] by blast
qed

definition demo_parse :: "str list \<Rightarrow> (str \<times> namespace) res" where
  "demo_parse argv = (if argv = [''golden''] then Inr (''golden'', [(''jobs'', AInt 4)])
     else Inl (SystemExit ''usage''))"

theorem main_typed_witness:
  "waxdiff_main demo_env (\<lambda>_ _. []) (\<lambda>s n. (0, s)) nat 7 demo_parse [''golden''] demo_world
     = execute demo_env (\<lambda>_ _. []) (\<lambda>s n. (0, s)) nat 7 (Golden_Cmd 4) demo_world"
proof -
  have p: "demo_parse [''golden''] = Inr (''golden'', [(''jobs'', AInt 4)])" by (simp add: demo_parse_def)
  have c: "conforms None ''golden'' [(''jobs'', AInt 4)]" by code_simp
  have g: "command_of ''golden'' [(''jobs'', AInt 4)] = Some (Golden_Cmd 4)" by code_simp
  show ?thesis using main_typed [where parse = demo_parse and E = demo_env and ud = "\<lambda>_ _. []"
      and below = "\<lambda>s n. (0, s)" and seeded = nat and fresh = 7 and w = demo_world, OF p c, THEN conjunct1] g
    by auto
qed

end
