(* ===== verification/Golden_Records.thy ===== *)
theory Golden_Records
  imports Golden Paths
begin

text \<open>
  What a whole \<open>golden\<close> run of \<open>tools/waxdiff.py\<close> (522--560) records.  The reference's behaviour on
  a file is the three answers it gives about it; \<open>reference_class\<close> is read off those answers
  alone.  The run leaves, for every corpus file, exactly that behaviour in the golden directory
  and in the index, and counts every file once.
\<close>

section \<open>The reference's answers\<close>

definition asked :: "env \<Rightarrow> world \<Rightarrow> str list \<Rightarrow> proc" where
  "asked E w args = value_of (wax E args) w"

definition reference_class :: "env \<Rightarrow> world \<Rightarrow> str \<Rightarrow> classification" where
  "reference_class E w rel =
     (let p = joinp (corpus w) rel;
          printed = asked E w [p, ''-f'', ''wax''];
          compiled = asked E w [p, ''-f'', ''wasm'', ''-o'', ''-''];
          checked = asked E w [''check'', ''--error-format'', ''json'', p];
          parses = (pcode printed = 0);
          compiles = (parses \<and> pcode compiled = 0)
      in \<lparr>cfile = rel,
          cbucket = (if compiles then compiles_clean else if parses then type_bad else syntax_bad),
          creprint_code = pcode printed, cdiag_code = pcode checked,
          creprint = (if parses then Some (decode (pout printed)) else None),
          cdiagnostics = decode (perr checked),
          cwasm_sha256 = (if compiles then Some (digest E (pout compiled)) else None)\<rparr>)"

definition class_meta :: "classification \<Rightarrow> meta" where
  "class_meta c = \<lparr>bucket = cbucket c, reprint_code = creprint_code c, diag_code = cdiag_code c,
     wasm_sha256 = cwasm_sha256 c\<rparr>"

text \<open>The corpus, by the names the index uses.\<close>

definition corpus_names :: "env \<Rightarrow> world \<Rightarrow> str set" where
  "corpus_names E w = {rel. joinp (corpus w) rel \<in> set (walk E (disk w)) \<and> endswith rel ''.wax''}"

text \<open>The two golden files of a corpus file hold its reprint and its diagnostics, and no others are there.\<close>

definition recorded :: "env \<Rightarrow> world \<Rightarrow> world \<Rightarrow> str \<Rightarrow> bool" where
  "recorded E w u rel \<longleftrightarrow> (let c = reference_class E w rel in
     disk u (reprint_golden w rel) = map_option utf8_encode (creprint c) \<and>
     (if cdiagnostics c = [] then disk u (diag_golden w rel) = None
      else \<exists>t. golden_lines (cdiagnostics c) = Inr t \<and> disk u (diag_golden w rel) = Some (utf8_encode t)))"

text \<open>Worlds that agree with the first one outside the golden directory.\<close>

definition same_corpus :: "world \<Rightarrow> world \<Rightarrow> bool" where
  "same_corpus w u \<longleftrightarrow> corpus u = corpus w \<and> golden u = golden w
     \<and> (\<forall>q. \<not> under (golden w) q \<longrightarrow> disk u q = disk w q)"

section \<open>One file\<close>

lemma asked_steady:
  assumes st: "steady E [reference E] p" and args: "args \<in> set (commands p)" and same: "disk u p = disk w p"
  shows "wax E args u = (Inr (asked E w args), u)"
proof -
  obtain r where r: "wax E args w = (Inr r, w)" using steady_wax(3) [OF st args] by blast
  then have "asked E w args = r" by (simp add: asked_def value_of_def)
  then show ?thesis using steady_again(2) [OF st args same r] by simp
qed

lemma classify_reference:
  assumes st: "steady E [reference E] (joinp (corpus w) rel)"
    and same: "corpus u = corpus w" "disk u (joinp (corpus w) rel) = disk w (joinp (corpus w) rel)"
  shows "classify_one E (joinp (corpus w) rel) u = (Inr (reference_class E w rel), u)"
  using asked_steady [OF st commands_mem(1) same(2)] asked_steady [OF st commands_mem(2) same(2)]
    asked_steady [OF st commands_mem(3) same(2)] same(1)
  by (simp add: classify_one_def bindio_def reference_check_def reference_class_def Let_def)

lemma write_golden_reprint:
  assumes "write_golden res u = (Inr m, u2)"
  shows "disk u2 (reprint_golden u (cfile res)) = (case creprint res of
      None \<Rightarrow> disk u (reprint_golden u (cfile res)) | Some s \<Rightarrow> Some (utf8_encode s))"
proof -
  let ?stem = "removesuffix (cfile res) ''.wax''"
  let ?r = "reprint_golden u (cfile res)"
  obtain u1 where w1: "write_reprint ?stem (creprint res) u = (Inr (), u1)"
    and w2: "write_diagnostics ?stem (cdiagnostics res) u1 = (Inr (), u2)"
    using assms by (auto simp: write_golden_def bindio_Inr_iff Let_def)
  have "disk u1 ?r = (case creprint res of None \<Rightarrow> disk u ?r | Some s \<Rightarrow> Some (utf8_encode s)) \<and> golden u1 = golden u"
    using w1 by (auto simp: write_reprint_def bindio_def golden_path_def write_text_def write_bytes_def
        set_disk_def reprint_golden_def split: option.splits)
  moreover have "disk u2 ?r = disk u1 ?r"
    using w2 calculation by (auto simp: write_diagnostics_def bindio_def golden_path_def write_text_def
        write_bytes_def set_disk_def reprint_golden_def joinp_def split: sum.splits if_splits)
  ultimately show ?thesis by simp
qed

lemma golden_under: "under (golden w) (reprint_golden w rel)" "under (golden w) (diag_golden w rel)"
  by (simp_all add: reprint_golden_def diag_golden_def joinp_def under_def startswith_iff)

text \<open>Golden files of different corpus files are different.\<close>

lemma removesuffix_wax: "endswith rel ''.wax'' \<Longrightarrow> rel = removesuffix rel ''.wax'' @ ''.wax''"
  by (auto simp: removesuffix_def endswith_iff)

lemma golden_files_apart:
  assumes "endswith a ''.wax''" and "endswith b ''.wax''" and "a \<noteq> b"
  shows "reprint_golden w a \<noteq> reprint_golden w b" and "diag_golden w a \<noteq> diag_golden w b"
    and "reprint_golden w a \<noteq> diag_golden w b"
proof -
  have "removesuffix a ''.wax'' \<noteq> removesuffix b ''.wax''"
    using removesuffix_wax [OF assms(1)] removesuffix_wax [OF assms(2)] assms(3) by metis
  then show "reprint_golden w a \<noteq> reprint_golden w b" "diag_golden w a \<noteq> diag_golden w b"
    by (simp_all add: reprint_golden_def diag_golden_def joinp_def)
  have "last (reprint_golden w a) \<noteq> last (diag_golden w b)"
    by (simp add: reprint_golden_def diag_golden_def joinp_def)
  then show "reprint_golden w a \<noteq> diag_golden w b" by metis
qed

section \<open>The loop\<close>

definition blank_golden :: "world \<Rightarrow> world \<Rightarrow> str \<Rightarrow> bool" where
  "blank_golden w u rel \<longleftrightarrow> disk u (reprint_golden w rel) = None \<and> disk u (diag_golden w rel) = None"

definition same_golden :: "world \<Rightarrow> world \<Rightarrow> world \<Rightarrow> str \<Rightarrow> bool" where
  "same_golden w u u' rel \<longleftrightarrow> disk u' (reprint_golden w rel) = disk u (reprint_golden w rel)
     \<and> disk u' (diag_golden w rel) = disk u (diag_golden w rel)"

lemma same_golden_keeps:
  "same_golden w u u' rel \<Longrightarrow> recorded E w u' rel \<longleftrightarrow> recorded E w u rel"
  "same_golden w u u' rel \<Longrightarrow> blank_golden w u' rel \<longleftrightarrow> blank_golden w u rel"
  by (simp_all add: same_golden_def recorded_def blank_golden_def Let_def)

lemma golden_step:
  assumes g: "write_golden (reference_class E w rel) u = (Inr m, u2)" and same: "same_corpus w u"
    and fresh: "blank_golden w u rel \<or> recorded E w u rel"
  shows "m = class_meta (reference_class E w rel)" and "same_corpus w u2" and "recorded E w u2 rel"
    and "endswith rel ''.wax'' \<Longrightarrow> endswith rel' ''.wax'' \<Longrightarrow> rel' \<noteq> rel \<Longrightarrow> same_golden w u u2 rel'"
proof -
  let ?c = "reference_class E w rel"
  note d = write_golden_disk [OF g]
  have cf: "cfile ?c = rel" by (simp add: reference_class_def Let_def)
  have gu: "golden u = golden w" "corpus u = corpus w" using same by (simp_all add: same_corpus_def)
  have p: "reprint_golden u = reprint_golden w" "diag_golden u = diag_golden w"
    using gu(1) by (simp_all add: reprint_golden_def diag_golden_def fun_eq_iff)
  show "m = class_meta ?c" using d(1) by (simp add: class_meta_def)
  have frame: "q \<noteq> reprint_golden w rel \<Longrightarrow> q \<noteq> diag_golden w rel \<Longrightarrow> disk u2 q = disk u q" for q
    using d(7) unfolding cf p .
  show "same_corpus w u2"
    using same d(2,4) gu frame golden_under [of w rel] unfolding same_corpus_def by metis
  show "same_golden w u u2 rel'" if "endswith rel ''.wax''" "endswith rel' ''.wax''" "rel' \<noteq> rel"
    using golden_files_apart [OF that(1,2)] golden_files_apart [OF that(2,1)] that(3) frame
    unfolding same_golden_def by metis
  show "recorded E w u2 rel"
    using write_golden_reprint [OF g] d(6) fresh unfolding cf p recorded_def blank_golden_def Let_def
    by (auto split: option.splits if_splits)
qed

lemma golden_loop_records:
  assumes st: "\<And>q. steady E [reference E] q"
    and apart: "\<And>rel. \<not> under (golden w) (joinp (corpus w) rel)"
  shows "golden_loop E (map (joinp (corpus w)) rels) index u = (Inr ix, u') \<Longrightarrow>
    \<forall>rel \<in> set rels. endswith rel ''.wax'' \<Longrightarrow> same_corpus w u \<Longrightarrow>
    \<forall>rel \<in> set rels. blank_golden w u rel \<or> recorded E w u rel \<Longrightarrow>
    same_corpus w u' \<and> (\<forall>rel \<in> set rels. recorded E w u' rel)
    \<and> (\<forall>rel. dget ix rel = (if rel \<in> set rels then Some (class_meta (reference_class E w rel)) else dget index rel))
    \<and> (\<forall>rel. endswith rel ''.wax'' \<longrightarrow> rel \<notin> set rels \<longrightarrow> same_golden w u u' rel)"
proof (induction rels arbitrary: index u)
  case Nil
  then show ?case by (simp add: same_golden_def)
next
  case (Cons rel rels)
  let ?c = "reference_class E w rel"
  have same: "corpus u = corpus w" "disk u (joinp (corpus w) rel) = disk w (joinp (corpus w) rel)"
    using Cons.prems(3) apart by (simp_all add: same_corpus_def)
  have c: "classify_one E (joinp (corpus w) rel) u = (Inr ?c, u)" by (rule classify_reference [OF st same])
  have cf: "cfile ?c = rel" by (simp add: reference_class_def Let_def)
  obtain m u2 where g: "write_golden ?c u = (Inr m, u2)"
    and rest: "golden_loop E (map (joinp (corpus w)) rels) (dset rel m index) u2 = (Inr ix, u')"
    using Cons.prems(1) c cf by (auto simp: bindio_Inr_iff)
  have fresh: "blank_golden w u rel \<or> recorded E w u rel" using Cons.prems(4) by simp
  note step = golden_step [OF g Cons.prems(3) fresh]
  have wax: "endswith rel ''.wax''" "\<forall>r \<in> set rels. endswith r ''.wax''" using Cons.prems(2) by simp_all
  have "\<forall>r \<in> set rels. blank_golden w u2 r \<or> recorded E w u2 r"
    using step(3) same_golden_keeps [OF step(4) [OF wax(1)]] wax(2) Cons.prems(4) by (metis list.set_intros(2))
  from Cons.IH [OF rest wax(2) step(2) this]
  have ih: "same_corpus w u'" "\<forall>r \<in> set rels. recorded E w u' r"
    "\<forall>r. dget ix r = (if r \<in> set rels then Some (class_meta (reference_class E w r)) else dget (dset rel m index) r)"
    "\<forall>r. endswith r ''.wax'' \<longrightarrow> r \<notin> set rels \<longrightarrow> same_golden w u2 u' r" by blast+
  have "recorded E w u' rel"
    using ih(2,4) step(3) same_golden_keeps(1) [of w u2 u' rel E] wax(1) by blast
  moreover have "dget ix r = (if r \<in> set (rel # rels) then Some (class_meta (reference_class E w r)) else dget index r)" for r
    using ih(3) step(1) by simp
  moreover have "same_golden w u u' r" if "endswith r ''.wax''" "r \<notin> set (rel # rels)" for r
    using ih(4) step(4) [OF wax(1) that(1)] that by (simp add: same_golden_def)
  ultimately show ?case using ih(1,2) by simp
qed

section \<open>The run\<close>

lemma corpus_suffix: "endswith (joinp d rel) ''.wax'' \<longleftrightarrow> endswith rel ''.wax''"
proof
  assume "endswith (joinp d rel) ''.wax''"
  then obtain t where t: "d @ ''/'' @ rel = t @ ''.wax''" by (auto simp: endswith_iff joinp_def)
  then have "(d @ ''/'') @ rel = t @ ''.wax''" by simp
  then obtain e where "d @ ''/'' = t @ e \<and> e @ rel = ''.wax'' \<or> (d @ ''/'') @ e = t \<and> rel = e @ ''.wax''"
    unfolding append_eq_append_conv2 by blast
  then show "endswith rel ''.wax''"
  proof
    assume e: "d @ ''/'' = t @ e \<and> e @ rel = ''.wax''"
    have "e = []"
    proof (rule ccontr)
      assume "e \<noteq> []"
      then have "last e = CHR ''/''" "last e \<in> set e" using e by (metis last_appendR last_snoc, simp)
      then have "CHR ''/'' \<in> set (e @ rel)" by simp
      then show False using e by simp
    qed
    then show ?thesis using e by (simp add: endswith_iff)
  qed (auto simp: endswith_iff)
qed (auto simp: endswith_iff joinp_def)

lemma corpus_files_names:
  assumes "corpus_files E w = (Inr files, w')"
  shows "w' = w" and "\<exists>rels. files = map (joinp (corpus w)) rels \<and> set rels = corpus_names E w"
proof -
  show "w' = w" using assms by (simp add: corpus_files_def rglob_def)
  have f: "set files = {p \<in> set (walk E (disk w)). under (corpus w) p \<and> endswith p ''.wax''}"
    using assms by (auto simp: corpus_files_def rglob_def)
  let ?rels = "map (drop (length (corpus w) + 1)) files"
  have j: "joinp (corpus w) (drop (length (corpus w) + 1) p) = p" if "under (corpus w) p" for p
    using that by (auto simp: under_def joinp_def startswith_iff)
  have "map (joinp (corpus w)) ?rels = files"
    unfolding map_map comp_def by (rule map_idI) (use f j in simp)
  moreover have "set ?rels = corpus_names E w"
  proof
    show "set ?rels \<subseteq> corpus_names E w"
    proof
      fix rel assume "rel \<in> set ?rels"
      then obtain p where p: "p \<in> set files" "rel = drop (length (corpus w) + 1) p" by auto
      then have "joinp (corpus w) rel = p" using f j by simp
      then show "rel \<in> corpus_names E w"
        using p(1) f corpus_suffix [of "corpus w" rel] by (simp add: corpus_names_def)
    qed
    show "corpus_names E w \<subseteq> set ?rels"
    proof
      fix rel assume "rel \<in> corpus_names E w"
      then have "joinp (corpus w) rel \<in> set files"
        using f by (simp add: corpus_names_def corpus_suffix) (simp add: joinp_def under_def startswith_iff)
      moreover have "drop (length (corpus w) + 1) (joinp (corpus w) rel) = rel" by (simp add: joinp_def)
      ultimately show "rel \<in> set ?rels" by (metis image_eqI image_set)
    qed
  qed
  ultimately show "\<exists>rels. files = map (joinp (corpus w)) rels \<and> set rels = corpus_names E w" by metis
qed

text \<open>Counting the entries of an index counts the files.\<close>

lemma count_entries:
  assumes "distinct (dkeys ix)" and "\<forall>rel. dget ix rel = (if rel \<in> R then Some (h rel) else None)"
  shows "length ix = card R" and "count_list (map (bucket \<circ> snd) ix) b = card {rel \<in> R. bucket (h rel) = b}"
proof -
  have mem: "(k, m) \<in> set ix \<longleftrightarrow> k \<in> R \<and> m = h k" for k m
    using assms(2) map_of_eq_Some_iff [OF assms(1) [unfolded dkeys_def], of k m] by (auto split: if_splits)
  have d: "distinct (map fst ix)" using assms(1) by (simp add: dkeys_def)
  have keys: "set (map fst ix) = R" using mem by force
  show "length ix = card R" using distinct_card [OF d] keys by simp
  have "count_list (map (bucket \<circ> snd) ix) b = length (filter (\<lambda>km. bucket (snd km) = b) ix)"
    by (induction ix) auto
  also have "\<dots> = length (map fst (filter (\<lambda>km. bucket (snd km) = b) ix))" by simp
  also have "\<dots> = card (fst ` set (filter (\<lambda>km. bucket (snd km) = b) ix))"
    using distinct_card [of "map fst (filter (\<lambda>km. bucket (snd km) = b) ix)"] d distinct_map_filter by (metis image_set)
  also have "fst ` set (filter (\<lambda>km. bucket (snd km) = b) ix) = {rel \<in> R. bucket (h rel) = b}"
    using mem by force
  finally show "count_list (map (bucket \<circ> snd) ix) b = card {rel \<in> R. bucket (h rel) = b}" .
qed

lemma need_reference_world: "need_reference E w = (r, w') \<Longrightarrow> w' = w"
proof -
  have "reads_only (need_reference E)"
    unfolding need_reference_def by (intro reads_rules) (auto intro: reads_rules split: json.split)
  then show "need_reference E w = (r, w') \<Longrightarrow> w' = w" by (rule reads_step)
qed

lemma write_index_disk:
  assumes "write_index E index u = (Inr (), u')"
  shows "\<exists>sha. u' = u\<lparr>disk := (disk u)(joinp (golden u) ''index.json''
    \<mapsto> utf8_encode (dumps Indent2 (index_json sha index) @ [LF]))\<rparr>"
proof -
  obtain s u1 where r: "read_text (joinp (root E) ''tools/reference.json'') u = (Inr s, u1)"
    and rest: "bindio (lift (bindr (loads s) (\<lambda>j. obj_item j ''sha256''))) (\<lambda>sha.
      bindio (golden_path ''index.json'') (\<lambda>p. write_text p (dumps Indent2 (index_json sha index) @ [LF]))) u1
      = (Inr (), u')"
    using assms by (auto simp: write_index_def bindio_Inr_iff simp del: io_simps)
  have "u1 = u" by (rule read_text_world [OF r])
  then show ?thesis using rest
    by (auto simp: bindio_lift bindio_def golden_path_def write_text_def write_bytes_def set_disk_def split: sum.splits)
qed

section \<open>Properties\<close>

text \<open>
  C13: \<open>golden\<close> records the reference's behaviour on every corpus file, and nothing else.  With a
  reference that answers about a file from that file alone, and a golden directory the corpus is
  not in, a run that ends has written an index with exactly one entry for every corpus file: a
  file the reference does not print back is \<open>syntax-bad\<close>, one it prints but does not compile is
  \<open>type-bad\<close>, one it compiles is \<open>compiles-clean\<close> with the hash of the binary, each with the exit
  codes of the reference.  Beside the index stand, for each file, its reprint when there is one and
  its diagnostics when there are any.  The counts that are printed are those of the files.
\<close>

theorem golden_records:
  assumes st: "\<And>q. steady E [reference E] q"
    and apart: "\<And>rel. \<not> under (golden w) (joinp (corpus w) rel)"
    and ended: "cmd_golden E w = (Inr lines, w')"
  shows "(\<exists>sha index. disk w' (joinp (golden w) ''index.json'')
        = Some (utf8_encode (dumps Indent2 (index_json sha index) @ [LF]))
      \<and> (\<forall>rel. dget index rel = (if rel \<in> corpus_names E w
             then Some (class_meta (reference_class E w rel)) else None)))
    \<and> (\<forall>rel \<in> corpus_names E w. recorded E w w' rel)
    \<and> lines = map (\<lambda>b. (b, card {rel \<in> corpus_names E w. cbucket (reference_class E w rel) = b}))
        [syntax_bad, compiles_clean, type_bad] @ [(''total'', card (corpus_names E w))]"
proof -
  obtain u1 files u2 where n: "need_reference E w = (Inr (), u1)" and f: "corpus_files E u1 = (Inr files, u2)"
    and rest: "bindio (\<lambda>w. rmtree (golden w) w) (\<lambda>_. bindio (golden_loop E files []) (\<lambda>index.
      bindio (write_index E index) (\<lambda>_.
      ret (bucket_report (counts_of (map (bucket \<circ> snd) index)) (length index))))) u2 = (Inr lines, w')"
    using ended by (auto simp: cmd_golden_def bindio_Inr_iff raise_def simp del: io_simps split: if_splits)
  have u1: "u1 = w" by (rule need_reference_world [OF n])
  note fs = corpus_files_names [OF f [unfolded u1]]
  obtain rels where rels: "files = map (joinp (corpus w)) rels" "set rels = corpus_names E w" using fs(2) by blast
  define u where "u = w\<lparr>disk := (\<lambda>p. if under (golden w) p then None else disk w p)\<rparr>"
  have rm: "rmtree (golden w) w = (Inr (), u)" by (simp add: rmtree_def set_disk_def u_def)
  obtain ix u3 where l: "golden_loop E (map (joinp (corpus w)) rels) [] u = (Inr ix, u3)"
    and wi: "write_index E ix u3 = (Inr (), w')"
    and lines: "lines = bucket_report (counts_of (map (bucket \<circ> snd) ix)) (length ix)"
    using rest by (auto simp: bindio_Inr_iff fs(1) rm rels(1))
  have wax: "\<forall>rel \<in> set rels. endswith rel ''.wax''" by (simp add: rels(2) corpus_names_def)
  have same: "same_corpus w u" by (simp add: same_corpus_def u_def)
  have blank: "\<forall>rel \<in> set rels. blank_golden w u rel \<or> recorded E w u rel"
    using golden_under [of w] by (simp add: blank_golden_def u_def)
  from golden_loop_records [OF st apart l wax same blank]
  have same3: "same_corpus w u3" and rec3: "\<forall>rel \<in> set rels. recorded E w u3 rel"
    and ix: "\<forall>rel. dget ix rel = (if rel \<in> corpus_names E w then Some (class_meta (reference_class E w rel)) else None)"
    by (simp_all add: rels(2))
  obtain sha where w': "w' = u3\<lparr>disk := (disk u3)(joinp (golden w) ''index.json''
      \<mapsto> utf8_encode (dumps Indent2 (index_json sha ix) @ [LF]))\<rparr>"
    using write_index_disk [OF wi] same3 by (auto simp: same_corpus_def)
  have "last (reprint_golden w rel) \<noteq> last (joinp (golden w) ''index.json'')"
    "last (diag_golden w rel) \<noteq> last (joinp (golden w) ''index.json'')" for rel
    by (simp_all add: reprint_golden_def diag_golden_def joinp_def)
  then have "reprint_golden w rel \<noteq> joinp (golden w) ''index.json''"
    "diag_golden w rel \<noteq> joinp (golden w) ''index.json''" for rel by metis+
  then have "same_golden w u3 w' rel" for rel unfolding same_golden_def w' by simp
  then have rec: "\<forall>rel \<in> corpus_names E w. recorded E w w' rel"
    using rec3 same_golden_keeps(1) unfolding rels(2) by blast
  have dist: "distinct (dkeys ix)"
    using ensuresD [OF golden_loop_buckets [of "[]"] l] by (simp add: dkeys_def)
  have count: "dget_nat (counts_of (map (bucket \<circ> snd) ix)) b
      = card {rel \<in> corpus_names E w. cbucket (reference_class E w rel) = b}" for b
  proof -
    have "dget_nat (counts_of bs) b = count_list bs b" for bs
      by (simp add: counts_of_def dget_nat_fold_bump) (simp add: dget_nat_def)
    then show ?thesis using count_entries(2) [OF dist ix] by (simp add: class_meta_def)
  qed
  have "lines = map (\<lambda>b. (b, card {rel \<in> corpus_names E w. cbucket (reference_class E w rel) = b}))
      [syntax_bad, compiles_clean, type_bad] @ [(''total'', card (corpus_names E w))]"
    by (simp add: lines bucket_report_def count count_entries(1) [OF dist ix])
  moreover have "disk w' (joinp (golden w) ''index.json'') = Some (utf8_encode (dumps Indent2 (index_json sha ix) @ [LF]))"
    by (simp add: w')
  ultimately show ?thesis using ix rec by blast
qed

theorem golden_records_witness:
  "recorded demo_env demo_pinned (snd (cmd_golden demo_env demo_pinned)) ''b.wax''
    \<and> cbucket (reference_class demo_env demo_pinned ''b.wax'') = syntax_bad"
proof -
  have "fst (cmd_golden demo_env demo_pinned)
      = Inr [(''syntax-bad'', 1), (''compiles-clean'', 1), (''type-bad'', 0), (''total'', 2)]" by code_simp
  from run_eq [OF this] have d: "cmd_golden demo_env demo_pinned = (Inr [(''syntax-bad'', 1),
      (''compiles-clean'', 1), (''type-bad'', 0), (''total'', 2)], snd (cmd_golden demo_env demo_pinned))" .
  have apart: "\<not> under (golden demo_pinned) (joinp (corpus demo_pinned) rel)" for rel
    by (simp add: demo_pinned_def demo_world_def under_def joinp_def startswith_def)
  have "joinp (corpus demo_pinned) ''b.wax'' \<in> set (walk demo_env (disk demo_pinned))
      \<and> endswith ''b.wax'' ''.wax''" by code_simp
  then have "''b.wax'' \<in> corpus_names demo_env demo_pinned" by (simp add: corpus_names_def)
  then have "recorded demo_env demo_pinned (snd (cmd_golden demo_env demo_pinned)) ''b.wax''"
    using golden_records [OF demo_steady apart d] by blast
  moreover have "cbucket (reference_class demo_env demo_pinned ''b.wax'') = syntax_bad" by code_simp
  ultimately show ?thesis by blast
qed

end
