(* ===== verification/Grammar_Fidelity.thy ===== *)
theory Grammar_Fidelity
  imports World Py_Regex
begin

text \<open>
  \<open>tools/grammar_fidelity.py\<close>: the port's grammar against the reference's, rule by rule.  Both
  texts are reduced to the symbols of their productions, by dropping comments, actions, binders
  and precedences, and the two sets of rules are compared.
\<close>

section \<open>Comments and actions\<close>

fun strip_comments :: "nat \<Rightarrow> str \<Rightarrow> str" where
  "strip_comments depth [] = []"
| "strip_comments depth (c # s) =
     (if startswith (c # s) ''(*'' then strip_comments (depth + 1) (tl s)
      else if startswith (c # s) ''*)'' \<and> depth \<noteq> 0 then strip_comments (depth - 1) (tl s)
      else if depth = 0 then c # strip_comments depth s
      else strip_comments depth s)"

definition strip_ocaml_comments :: "str \<Rightarrow> str" where
  "strip_ocaml_comments text = strip_comments 0 text"

definition action_mark :: str where
  "action_mark = '' @ACT@ ''"

fun strip_braces :: "nat \<Rightarrow> str \<Rightarrow> str" where
  "strip_braces depth [] = []"
| "strip_braces depth (c # s) =
     (if c = CHR ''{'' then (if depth = 0 then action_mark else []) @ strip_braces (depth + 1) s
      else if c = CHR ''}'' then strip_braces (depth - 1) s
      else if depth = 0 then c # strip_braces depth s
      else strip_braces depth s)"

definition strip_actions :: "str \<Rightarrow> str" where
  "strip_actions text = strip_braces 0 text"

section \<open>The rules of a grammar\<close>

type_synonym grammar = "(str, str list list) dict"

definition name_start :: "char \<Rightarrow> bool" where
  "name_start c \<longleftrightarrow> is_lower c \<or> is_upper c \<or> c = CHR ''_''"

definition name_char :: "char \<Rightarrow> bool" where
  "name_char c \<longleftrightarrow> name_start c \<or> is_digit c"

abbreviation spaces :: rx where
  "spaces \<equiv> Many (CharIf is_space)"

definition header_rx :: rx where
  "header_rx = cat
     [BolM, opt (cat [lit ''%inline'', plus (CharIf is_space)]),
      Grp 1 (cat [CharIf (\<lambda>c. is_lower c \<or> c = CHR ''_''), Many (CharIf name_char)]), spaces,
      opt (cat [lit ''['', Many (none_of '']''), lit '']'']), spaces,
      opt (cat [lit ''('', Many (none_of '')''), lit '')'']), spaces,
      opt (cat [lit ''->'', Many (none_of [CHR '':'', LF])]), lit '':'']"

definition line_comment_rx :: rx where
  "line_comment_rx = cat [lit ''//'', Many (none_of [LF])]"

definition prec_rx :: rx where
  \<comment> \<open>\<open>%prec\s+\w+\<close>\<close>
  "prec_rx = cat [lit ''%prec'', plus (CharIf is_space), plus (CharIf is_word)]"

definition binder_rx :: rx where
  \<comment> \<open>\<open>\b[a-zA-Z_][a-zA-Z_0-9]*\s*=\s*\<close>\<close>
  "binder_rx = cat [WordB, CharIf name_start, Many (CharIf name_char), spaces, lit ''='', spaces]"

definition production :: "str \<Rightarrow> str list" where
  "production alt = words (rx_sub binder_rx [] (rx_sub prec_rx []
     (replace ''@ACT@'' '' '' (replace '';'' '' '' alt))))"

definition productions :: "str \<Rightarrow> str list list" where
  "productions body = (let pieces = split_on ''|'' body in
     map production (if blank (hd pieces) then tl pieces else pieces))"

definition rules_of :: "str \<Rightarrow> grammar" where
  \<comment> \<open>each header with the text up to the next one\<close>
  "rules_of text = fold (\<lambda>((_, g), body). dset (group g 1) (productions body))
     (zip (rx_findall header_rx text) (tl (rx_split header_rx text))) []"

definition rules_section :: "str \<Rightarrow> str res" where
  \<comment> \<open>\<open>text[text.index("\n%%") + 3:]\<close>\<close>
  "rules_section text = (if contains text ([LF] @ ''%%'')
     then Inr (drop 3 (drop (length (hd (split_on ([LF] @ ''%%'') text))) text))
     else Inl (ValueError ''substring not found''))"

definition parse_grammar :: "str \<Rightarrow> bool \<Rightarrow> grammar res" where
  "parse_grammar text ocaml = bindr (rules_section text) (\<lambda>t.
     Inr (rules_of (strip_actions
       (if ocaml then strip_ocaml_comments t else rx_sub line_comment_rx [] t))))"

section \<open>The comparison\<close>

definition renames :: "(str, str) dict" where
  "renames = [(''list'', ''list_of''), (''separated_nonempty_list_trailing'', ''non_empty_sep_trailing''),
     (''separated_list_trailing'', ''sep_trailing'')]"

definition our_helpers :: "str list" where
  "our_helpers =
     [''describes_clause'', ''descriptor_clause'', ''else_branch'', ''function_type_as'',
      ''fundecl_type'', ''if_block_type'', ''labelled'', ''let_init'', ''limit_max'',
      ''loption_data_init'', ''result_arrow'', ''semi_then_statements'',
      ''supertype_clause'', ''table_init'', ''tag_type'', ''type_annot'', ''list_of'']"

definition expected_count_diffs :: "(str, str) dict" where
  "expected_count_diffs =
     [(''separated_list_trailing'', ''loption(...) spelled out as two productions''),
      (''data_init'', ''separated_nonempty_list('' @ [SQ] @ ''++'' @ [SQ] @ '', ...) spelled out'')]"

definition renamed :: "str \<Rightarrow> str" where
  "renamed k = (case dget renames k of None \<Rightarrow> k | Some r \<Rightarrow> r)"

definition ref_mapped :: "grammar \<Rightarrow> grammar" where
  "ref_mapped ref = fold (\<lambda>(k, v) d. if k = ''dummy_ctx'' then d else dset (renamed k) v d) ref []"

definition missing_rules :: "grammar \<Rightarrow> grammar \<Rightarrow> str list" where
  "missing_rules ours ref = sorted_set (filter (\<lambda>k. dget ours k = None) (dkeys (ref_mapped ref)))"

definition extra_rules :: "grammar \<Rightarrow> grammar \<Rightarrow> str list" where
  "extra_rules ours ref = sorted_set
     (filter (\<lambda>k. dget (ref_mapped ref) k = None \<and> k \<notin> set our_helpers) (dkeys ours))"

definition count_diff :: "grammar \<Rightarrow> str \<times> str list list \<Rightarrow> (str \<times> nat \<times> nat) option" where
  "count_diff ours e = (case e of (k, prods) \<Rightarrow>
     if k = ''dummy_ctx'' then None
     else (case dget ours (renamed k) of None \<Rightarrow> None
       | Some own \<Rightarrow> if length prods = length own then None else Some (k, length prods, length own)))"

definition count_diffs :: "grammar \<Rightarrow> grammar \<Rightarrow> (str \<times> nat \<times> nat) list" where
  "count_diffs ours ref = List.map_filter (count_diff ours) ref"

definition unexplained :: "(str \<times> nat \<times> nat) list \<Rightarrow> (str \<times> nat \<times> nat) list" where
  "unexplained ds = filter (\<lambda>d. dget expected_count_diffs (fst d) = None) ds"

definition problems :: "grammar \<Rightarrow> grammar \<Rightarrow> nat" where
  "problems ours ref = length (missing_rules ours ref) + length (extra_rules ours ref)
     + length (unexplained (count_diffs ours ref))"

definition listed :: "str \<Rightarrow> str list \<Rightarrow> str list" where
  "listed title names = (if names = [] then [] else
     ([LF] @ title @ '' ('' @ str_nat (length names) @ ''):'') # map (\<lambda>r. ''  '' @ r) names)"

definition diff_line :: "str \<times> nat \<times> nat \<Rightarrow> str" where
  "diff_line d = (case d of (r, a, b) \<Rightarrow> ''  '' @ r @ '': reference '' @ str_nat a @ '', ours '' @ str_nat b
     @ ''  -- '' @ (case dget expected_count_diffs r of None \<Rightarrow> ''UNEXPLAINED'' | Some why \<Rightarrow> why))"

definition diff_lines :: "(str \<times> nat \<times> nat) list \<Rightarrow> str list" where
  "diff_lines ds = (if ds = [] then [] else
     ([LF] @ ''production-count differences ('' @ str_nat (length ds) @ ''):'') # map diff_line ds)"

definition compare_grammars :: "grammar \<Rightarrow> grammar \<Rightarrow> nat \<times> str list" where
  \<comment> \<open>the exit code and the lines printed\<close>
  "compare_grammars ours ref =
     (if problems ours ref \<noteq> 0 then 1 else 0,
      [''reference rules: '' @ str_nat (length (ref_mapped ref)),
       ''our rules:       '' @ str_nat (length ours) @ '' ('' @ str_nat (length our_helpers)
         @ '' named helpers for the reference'' @ [SQ] @ ''s anonymous inline productions)'']
      @ listed ''MISSING from this port'' (missing_rules ours ref)
      @ listed ''UNEXPLAINED extra rules'' (extra_rules ours ref)
      @ diff_lines (count_diffs ours ref)
      @ (if problems ours ref \<noteq> 0
         then [[LF] @ str_nat (problems ours ref) @ '' unexplained difference(s)'']
         else [[LF] @ ''no unexplained differences'']))"

text \<open>The program.  No time limit is set on the dump of our grammar, so it is never cut short.\<close>

definition ref_mly :: "env \<Rightarrow> path" where
  "ref_mly E = joinp (root E) ''wax/src/lib-wax/parser.mly''"

definition dump_grammar :: "env \<Rightarrow> (str \<times> str) io" where
  \<comment> \<open>the two texts that \<open>moonx\<close> prints\<close>
  "dump_grammar E =
     bindio (run E [''moonx'', ''moonbitlang/yacc@0.7.19'', ''--'', ''--print-as-mly-without-actions'',
               ''parser.mbty''] False None) (\<lambda>r.
     bindio (lift (utf8_strict (pout r))) (\<lambda>out.
     bindio (lift (utf8_strict (perr r))) (\<lambda>err.
     ret (universal_newlines out, universal_newlines err))))"

definition fidelity_main :: "env \<Rightarrow> (nat \<times> str list) io" where
  "fidelity_main E =
     bindio (exists_file (ref_mly E)) (\<lambda>there.
     if \<not> there then raise (SystemExit (''reference grammar missing: '' @ ref_mly E @ [LF]
       @ ''run tools/fetch-reference-source.sh'')) else
     bindio (dump_grammar E) (\<lambda>(out, err).
     if blank out then raise (SystemExit (''could not dump our grammar:'' @ [LF] @ err)) else
     bindio (lift (parse_grammar out False)) (\<lambda>ours.
     bindio (read_text (ref_mly E)) (\<lambda>text.
     bindio (lift (parse_grammar text True)) (\<lambda>ref.
     ret (compare_grammars ours ref))))))"

section \<open>Nested text\<close>

text \<open>
  Text in which brackets nest, as a tree, and the contract of a scanner that drops what is
  between brackets: how it reads an opening bracket, a closing one, and text without brackets.
\<close>

datatype tree = Plain str | Nested "tree list"

fun render_tree :: "str \<Rightarrow> str \<Rightarrow> tree \<Rightarrow> str" where
  "render_tree opener closer (Plain t) = t"
| "render_tree opener closer (Nested ts) = opener @ concat (map (render_tree opener closer) ts) @ closer"

fun tree_ok :: "(str \<Rightarrow> bool) \<Rightarrow> tree \<Rightarrow> bool" where
  "tree_ok plain (Plain t) \<longleftrightarrow> plain t"
| "tree_ok plain (Nested ts) \<longleftrightarrow> list_all (tree_ok plain) ts"

fun outside :: "str \<Rightarrow> tree \<Rightarrow> str" where
  "outside mark (Plain t) = t"
| "outside mark (Nested ts) = mark"

locale bracketed =
  fixes strip_at :: "nat \<Rightarrow> str \<Rightarrow> str" and opener closer mark :: str and plain :: "str \<Rightarrow> bool"
  assumes opens: "strip_at d (opener @ s) = (if d = 0 then mark else []) @ strip_at (Suc d) s"
    and closes: "strip_at (Suc d) (closer @ s) = strip_at d s"
    and passes: "plain t \<Longrightarrow> strip_at d (t @ s) = (if d = 0 then t else []) @ strip_at d s"
    and ends: "strip_at 0 [] = []"
begin

lemma strip_tree:
  "tree_ok plain t \<Longrightarrow> strip_at d (render_tree opener closer t @ s) = (if d = 0 then outside mark t else []) @ strip_at d s"
proof (induction t arbitrary: d s)
  case (Nested ts)
  have "strip_at (Suc d) (concat (map (render_tree opener closer) us) @ s) = strip_at (Suc d) s"
    if "set us \<subseteq> set ts" for us s
    using that Nested by (induction us) (auto simp: list_all_iff)
  then show ?case by (simp add: opens closes)
qed (simp add: passes)

lemma strip_text:
  "list_all (tree_ok plain) ts \<Longrightarrow>
   strip_at 0 (concat (map (render_tree opener closer) ts)) = concat (map (outside mark) ts)"
  by (induction ts) (simp_all add: strip_tree ends)

end

fun comment_plain :: "str \<Rightarrow> bool" where
  \<comment> \<open>no comment bracket, and none begun at the end\<close>
  "comment_plain [] \<longleftrightarrow> True"
| "comment_plain [c] \<longleftrightarrow> c \<noteq> CHR ''('' \<and> c \<noteq> CHR ''*''"
| "comment_plain (c # d # t) \<longleftrightarrow> \<not> (c = CHR ''('' \<and> d = CHR ''*'') \<and> \<not> (c = CHR ''*'' \<and> d = CHR '')'')
     \<and> comment_plain (d # t)"

definition action_plain :: "str \<Rightarrow> bool" where
  "action_plain t \<longleftrightarrow> CHR ''{'' \<notin> set t \<and> CHR ''}'' \<notin> set t"

interpretation comments: bracketed strip_comments "''(*''" "''*)''" "[]" comment_plain
proof
  show "comment_plain t \<Longrightarrow> strip_comments d (t @ s) = (if d = 0 then t else []) @ strip_comments d s" for t d s
    by (induction t rule: comment_plain.induct) (auto simp: startswith_def)
qed (simp_all add: startswith_def)

interpretation braces: bracketed strip_braces "''{''" "''}''" action_mark action_plain
proof
  show "action_plain t \<Longrightarrow> strip_braces d (t @ s) = (if d = 0 then t else []) @ strip_braces d s" for t d s
    by (induction t) (auto simp: action_plain_def)
qed simp_all

section \<open>Fidelity\<close>

definition faithful :: "grammar \<Rightarrow> grammar \<Rightarrow> bool" where
  "faithful ours ref \<longleftrightarrow>
     (\<forall>(k, prods) \<in> set ref. k = ''dummy_ctx'' \<or> (\<exists>own. dget ours (renamed k) = Some own
        \<and> (length prods = length own \<or> k \<in> set (dkeys expected_count_diffs))))
     \<and> (\<forall>k \<in> set (dkeys ours). k \<in> set our_helpers \<or> (\<exists>r \<in> set (dkeys ref). r \<noteq> ''dummy_ctx'' \<and> renamed r = k))"

lemma ref_mapped_keys: "set (dkeys (ref_mapped ref)) = renamed ` {k \<in> set (dkeys ref). k \<noteq> ''dummy_ctx''}"
proof -
  have "set (dkeys (fold (\<lambda>(k, v) d. if k = ''dummy_ctx'' then d else dset (renamed k) v d) ref d))
      = set (dkeys d) \<union> renamed ` {k \<in> set (dkeys ref). k \<noteq> ''dummy_ctx''}" for d :: grammar
  proof (induction ref arbitrary: d)
    case (Cons e ref)
    obtain k v where e: "e = (k, v)" by (cases e)
    have "{j \<in> set (dkeys (e # ref)). j \<noteq> ''dummy_ctx''}
        = (if k = ''dummy_ctx'' then {} else {k}) \<union> {j \<in> set (dkeys ref). j \<noteq> ''dummy_ctx''}"
      by (auto simp: dkeys_def e)
    then show ?case using Cons.IH by (simp add: e image_Un)
  qed (simp add: dkeys_def)
  then show ?thesis by (simp add: ref_mapped_def dkeys_def)
qed

lemma no_missing: "missing_rules ours ref = [] \<longleftrightarrow>
    (\<forall>k \<in> set (dkeys ref). k \<noteq> ''dummy_ctx'' \<longrightarrow> dget ours (renamed k) \<noteq> None)"
  by (auto simp: missing_rules_def filter_empty_conv ref_mapped_keys)

lemma no_extra: "extra_rules ours ref = [] \<longleftrightarrow>
    (\<forall>k \<in> set (dkeys ours). k \<in> set our_helpers \<or> (\<exists>r \<in> set (dkeys ref). r \<noteq> ''dummy_ctx'' \<and> renamed r = k))"
  by (auto simp: extra_rules_def filter_empty_conv dget_None_iff ref_mapped_keys)

definition explained :: "grammar \<Rightarrow> str \<times> str list list \<Rightarrow> bool" where
  "explained ours e \<longleftrightarrow> (case e of (k, prods) \<Rightarrow> k = ''dummy_ctx'' \<or> (\<forall>own. dget ours (renamed k) = Some own \<longrightarrow>
     length prods = length own \<or> k \<in> set (dkeys expected_count_diffs)))"

lemma mem_map_filter: "y \<in> set (List.map_filter f xs) \<longleftrightarrow> (\<exists>x \<in> set xs. f x = Some y)"
  by (induction xs) (auto simp: List.map_filter_simps split: option.split)

lemma explained_alt: "explained ours e \<longleftrightarrow> (case count_diff ours e of None \<Rightarrow> True
    | Some d \<Rightarrow> dget expected_count_diffs (fst d) \<noteq> None)"
  by (cases e) (auto simp: explained_def count_diff_def dget_None_iff [of expected_count_diffs] split: option.splits)

lemma no_unexplained: "unexplained (count_diffs ours ref) = [] \<longleftrightarrow> (\<forall>e \<in> set ref. explained ours e)"
proof -
  have "unexplained (count_diffs ours ref) = [] \<longleftrightarrow>
      (\<forall>d e. e \<in> set ref \<and> count_diff ours e = Some d \<longrightarrow> dget expected_count_diffs (fst d) \<noteq> None)"
    unfolding unexplained_def filter_empty_conv count_diffs_def Ball_def mem_map_filter by blast
  also have "\<dots> \<longleftrightarrow> (\<forall>e \<in> set ref. explained ours e)"
    unfolding explained_alt Ball_def by (simp split: option.split) blast
  finally show ?thesis .
qed

lemma faithful_iff:
  "faithful ours ref \<longleftrightarrow>
     (\<forall>k \<in> set (dkeys ref). k \<noteq> ''dummy_ctx'' \<longrightarrow> dget ours (renamed k) \<noteq> None)
     \<and> (\<forall>k \<in> set (dkeys ours). k \<in> set our_helpers \<or> (\<exists>r \<in> set (dkeys ref). r \<noteq> ''dummy_ctx'' \<and> renamed r = k))
     \<and> (\<forall>e \<in> set ref. explained ours e)"
proof -
  have "(\<forall>(k, prods) \<in> set ref. k = ''dummy_ctx'' \<or> (\<exists>own. dget ours (renamed k) = Some own
        \<and> (length prods = length own \<or> k \<in> set (dkeys expected_count_diffs))))
    \<longleftrightarrow> (\<forall>e \<in> set ref. explained ours e \<and> (fst e \<noteq> ''dummy_ctx'' \<longrightarrow> dget ours (renamed (fst e)) \<noteq> None))"
    by (rule ball_cong) (auto simp: explained_def)
  then show ?thesis unfolding faithful_def by (auto simp: dkeys_def)
qed

section \<open>Properties\<close>

text \<open>
  C5: the comparison succeeds exactly when the port's grammar is faithful: every rule of the
  reference is there under its new name with as many productions, unless the difference is one
  of those explained, and every other rule of ours is a listed helper.
\<close>

theorem compare_exact: "fst (compare_grammars ours ref) = 0 \<longleftrightarrow> faithful ours ref"
proof -
  have "fst (compare_grammars ours ref) = 0 \<longleftrightarrow> missing_rules ours ref = [] \<and> extra_rules ours ref = []
      \<and> unexplained (count_diffs ours ref) = []"
    by (simp add: compare_grammars_def problems_def)
  then show ?thesis by (simp only: no_missing no_extra no_unexplained faithful_iff)
qed

text \<open>
  C35: nested comments disappear whole, and every action becomes one marker however deep its
  braces nest, while the text outside is kept as it is.
\<close>

theorem nesting_stripped:
  assumes "list_all (tree_ok comment_plain) ts" and "list_all (tree_ok action_plain) us"
  shows "strip_ocaml_comments (concat (map (render_tree ''(*'' ''*)'') ts)) = concat (map (outside []) ts)
    \<and> strip_actions (concat (map (render_tree ''{'' ''}'') us)) = concat (map (outside action_mark) us)"
  using comments.strip_text [OF assms(1)] braces.strip_text [OF assms(2)]
  by (simp add: strip_ocaml_comments_def strip_actions_def)

definition demo_action :: "tree list" where
  "demo_action = [Plain ''x = y '', Nested [Plain '' f '', Nested [Plain ''z''], Plain '' ''], Plain ''| '', Nested []]"

definition demo_comment :: "tree list" where
  "demo_comment = [Plain ''a '', Nested [Plain '' b '', Nested [Plain '' c ''], Plain '' d ''], Plain '' e'']"

theorem nesting_stripped_witness:
  "strip_ocaml_comments ''a (* b (* c *) d *) e'' = ''a  e''
   \<and> strip_actions ''x = y { f {z} }| {}'' = ''x = y '' @ action_mark @ ''| '' @ action_mark"
proof -
  have "list_all (tree_ok comment_plain) demo_comment" "list_all (tree_ok action_plain) demo_action"
    by code_simp+
  from nesting_stripped [OF this] show ?thesis by (simp add: demo_comment_def demo_action_def)
qed

end
