(* ===== verification/Regex_Words.thy ===== *)
theory Regex_Words
  imports Py_Regex
begin

text \<open>
  What the usual building blocks of a pattern match, as statements about the text: a literal, a run
  of characters of a class, a group.  \<open>findall\<close> with a pattern whose matches all start with a
  marker that does not come again inside them finds every place the pattern matches at.
\<close>

section \<open>What a pattern matches\<close>

text \<open>
  \<open>matches r b t v cs cs'\<close>: with the text \<open>b\<close> behind it (last character first) and \<open>v\<close> after it,
  \<open>t\<close> is one of the matches of \<open>r\<close>, and takes the groups from \<open>cs\<close> to \<open>cs'\<close>.
\<close>

definition matches :: "rx \<Rightarrow> str \<Rightarrow> str \<Rightarrow> str \<Rightarrow> caps \<Rightarrow> caps \<Rightarrow> bool" where
  "matches r b t v cs cs' \<longleftrightarrow> ((rev t @ b, v), cs') \<in> set (ms r (b, t @ v) cs)"

named_theorems matches_simps "what the building blocks of a pattern match"

lemma ms_matches:
  "m \<in> set (ms r (b, s) cs) \<longleftrightarrow>
     (\<exists>t v cs'. s = t @ v \<and> m = ((rev t @ b, v), cs') \<and> matches r b t v cs cs')" (is "?L \<longleftrightarrow> ?R")
proof
  assume l: ?L
  obtain b' v cs' where m: "m = ((b', v), cs')" by (cases m) auto
  obtain t where "s = t @ v" "b' = rev t @ b"
    using ms_ahead [OF l] by (auto simp: ahead_def m)
  then show ?R using l m by (auto simp: matches_def)
qed (auto simp: matches_def)

lemma matches_Cat [matches_simps]:
  "matches (Cat r r') b t v cs cs' \<longleftrightarrow> (\<exists>t1 t2 cs1. t = t1 @ t2
     \<and> matches r b t1 (t2 @ v) cs cs1 \<and> matches r' (rev t1 @ b) t2 v cs1 cs')" (is "?L \<longleftrightarrow> ?R")
proof
  assume ?L
  then obtain m where m: "m \<in> set (ms r (b, t @ v) cs)" "((rev t @ b, v), cs') \<in> set (ms r' (fst m) (snd m))"
    by (auto simp: matches_def)
  obtain t1 v1 cs1 where 1: "t @ v = t1 @ v1" "m = ((rev t1 @ b, v1), cs1)" "matches r b t1 v1 cs cs1"
    using m(1) unfolding ms_matches by blast
  obtain t2 where 2: "v1 = t2 @ v" "matches r' (rev t1 @ b) t2 v cs1 cs'"
    using m(2) 1(2) by (auto simp: ms_matches)
  then show ?R using 1 by auto
next
  assume ?R
  then show ?L unfolding matches_def ms.simps(3) by force
qed

lemma matches_Alt [matches_simps]:
  "matches (Alt r r') b t v cs cs' \<longleftrightarrow> matches r b t v cs cs' \<or> matches r' b t v cs cs'"
  by (simp add: matches_def)

lemma matches_Eps [matches_simps]: "matches Eps b t v cs cs' \<longleftrightarrow> t = [] \<and> cs' = cs"
  by (auto simp: matches_def)

lemma matches_Bol [matches_simps]: "matches Bol b t v cs cs' \<longleftrightarrow> b = [] \<and> t = [] \<and> cs' = cs"
  by (auto simp: matches_def guard_def)

lemma matches_CharIf [matches_simps]:
  "matches (CharIf P) b t v cs cs' \<longleftrightarrow> (\<exists>c. P c \<and> t = [c]) \<and> cs' = cs"
  by (cases t) (auto simp: matches_def char_step_def split: list.splits)

lemma matches_lit [matches_simps]: "matches (lit u) b t v cs cs' \<longleftrightarrow> t = u \<and> cs' = cs"
proof (induction u arbitrary: b t)
  case (Cons c u)
  have "lit (c # u) = Cat (CharIf (\<lambda>d. d = c)) (lit u)" by (simp add: lit_def)
  then show ?case using Cons by (auto simp: matches_Cat matches_CharIf)
qed (simp add: lit_def matches_Eps)

lemma ms_many_char:
  "ms (Many (CharIf P)) (b, []) cs = [((b, []), cs)]"
  "ms (Many (CharIf P)) (b, c # s) cs =
     (if P c then ms (Many (CharIf P)) (c # b, s) cs else []) @ [((b, c # s), cs)]"
  by (simp_all add: ms.simps(5) [of "CharIf P" "(b, _)"] char_step_def)

lemma matches_Many [matches_simps]:
  "matches (Many (CharIf P)) b t v cs cs' \<longleftrightarrow> list_all P t \<and> cs' = cs"
proof (induction t arbitrary: b)
  case Nil
  show ?case
  proof (cases v)
    case (Cons c s)
    have "((b, c # s), cs') \<notin> set (ms (Many (CharIf P)) (c # b, s) cs)"
      using ms_length [of "((b, c # s), cs')" "Many (CharIf P)" "(c # b, s)" cs] by auto
    then show ?thesis by (simp add: matches_def Cons ms_many_char)
  qed (simp add: matches_def ms_many_char)
next
  case (Cons c t)
  have "rev t @ c # b \<noteq> b" by (metis append.assoc append_Cons append_self_conv2 append_Nil snoc_eq_iff_butlast)
  then have "matches (Many (CharIf P)) b (c # t) v cs cs' \<longleftrightarrow> P c \<and> matches (Many (CharIf P)) (c # b) t v cs cs'"
    by (auto simp: matches_def ms_many_char)
  then show ?case using Cons.IH by auto
qed

lemma matches_plus [matches_simps]:
  "matches (plus (CharIf P)) b t v cs cs' \<longleftrightarrow> t \<noteq> [] \<and> list_all P t \<and> cs' = cs"
  unfolding plus_def matches_Cat matches_CharIf matches_Many
proof safe
  assume "t \<noteq> []" "list_all P t"
  then obtain c u where "t = [c] @ u" "P c" "list_all P u" by (cases t) auto
  then show "\<exists>t1 t2 cs1. t = t1 @ t2 \<and> ((\<exists>c. P c \<and> t1 = [c]) \<and> cs1 = cs) \<and> list_all P t2 \<and> cs = cs1" by blast
qed auto

lemma between_match: "between (b, t @ v) (rev t @ b, v) = t"
  by (simp add: between_def)

lemma matches_Grp [matches_simps]:
  "matches (Grp n r) b t v cs cs' \<longleftrightarrow> (\<exists>cs1. matches r b t v cs cs1 \<and> cs' = dset n t cs1)"
  by (force simp: matches_def between_match)

lemma matches_opt [matches_simps]:
  "matches (opt r) b t v cs cs' \<longleftrightarrow> matches r b t v cs cs' \<or> t = [] \<and> cs' = cs"
  unfolding opt_def matches_Alt matches_Eps by (rule refl)

text \<open>The same as rules, to build a match from its parts.\<close>

lemma matchI:
  "matches r b t1 (t2 @ v) cs cs1 \<Longrightarrow> matches r' (rev t1 @ b) t2 v cs1 cs' \<Longrightarrow>
     matches (Cat r r') b (t1 @ t2) v cs cs'"
  "matches (lit u) b u v cs cs"
  "matches r b t v cs cs' \<Longrightarrow> matches (Grp n r) b t v cs (dset n t cs')"
  unfolding matches_Cat matches_lit matches_Grp by blast+

lemma match_optI:
  "matches (opt r) b [] v cs cs"
  "matches r b t v cs cs' \<Longrightarrow> matches (opt r) b t v cs cs'"
  unfolding matches_opt by simp_all

lemma matches_lits:
  "matches (alts (map lit (k # ks))) b t v cs cs' \<longleftrightarrow> t \<in> set (k # ks) \<and> cs' = cs"
proof (induction ks arbitrary: k)
  case (Cons k' ks)
  then show ?case using Cons [of k'] by (auto simp: matches_Alt matches_lit)
qed (simp add: matches_lit)

section \<open>Greedy ends\<close>

text \<open>The first match of a pattern that ends in a run takes the whole run.\<close>

definition stops :: "(char \<Rightarrow> bool) \<Rightarrow> str \<Rightarrow> bool" where
  "stops P v \<longleftrightarrow> v = [] \<or> \<not> P (hd v)"

definition greedy :: "(char \<Rightarrow> bool) \<Rightarrow> rx \<Rightarrow> bool" where
  "greedy P r \<longleftrightarrow> (\<forall>p cs m l. ms r p cs = m # l \<longrightarrow> stops P (snd (fst m)))"

lemma greedyI: "(\<And>b s cs q cs' l. ms r (b, s) cs = (q, cs') # l \<Longrightarrow> stops P (snd q)) \<Longrightarrow> greedy P r"
  unfolding greedy_def by (auto simp: prod_eq_iff)

lemma greedyD: "greedy P r \<Longrightarrow> ms r p cs = m # l \<Longrightarrow> stops P (snd (fst m))"
  unfolding greedy_def by blast

lemma many_first:
  "\<exists>v l. ms (Many (CharIf P)) (b, s) cs = ((rev (takeWhile P s) @ b, v), cs) # l \<and> stops P v"
proof (induction s arbitrary: b)
  case (Cons c s)
  show ?case
  proof (cases "P c")
    case True
    obtain v l where "ms (Many (CharIf P)) (c # b, s) cs = ((rev (takeWhile P s) @ c # b, v), cs) # l"
      "stops P v" using Cons.IH [of "c # b"] by blast
    then show ?thesis using True by (simp add: ms_many_char)
  qed (simp add: ms_many_char stops_def)
qed (simp add: ms_many_char stops_def)

lemma many_greedy: "greedy P (Many (CharIf P))"
proof (rule greedyI)
  fix b s cs q cs' l
  assume "ms (Many (CharIf P)) (b, s) cs = (q, cs') # l"
  then show "stops P (snd q)" using many_first [of P b s cs] by auto
qed

lemma concat_first: "concat (map f xs) = m # l \<Longrightarrow> \<exists>x \<in> set xs. \<exists>l'. f x = m # l'"
proof (induction xs)
  case (Cons x xs)
  then show ?case by (cases "f x") auto
qed simp

lemma greedy_Cat:
  assumes "greedy P r'"
  shows "greedy P (Cat r r')"
proof (rule greedyI)
  fix b s cs q cs' l
  assume "ms (Cat r r') (b, s) cs = (q, cs') # l"
  then obtain x l' where "ms r' (fst x) (snd x) = (q, cs') # l'"
    unfolding ms.simps(3) by (blast dest: concat_first)
  from greedyD [OF assms this] show "stops P (snd q)" by simp
qed

lemma greedy_Grp:
  assumes "greedy P r"
  shows "greedy P (Grp n r)"
proof (rule greedyI)
  fix b s cs q cs' l
  assume "ms (Grp n r) (b, s) cs = (q, cs') # l"
  then obtain cs0 l' where "ms r (b, s) cs = (q, cs0) # l'" by (auto simp: map_eq_Cons_conv)
  from greedyD [OF assms this] show "stops P (snd q)" by simp
qed

lemma greedy_plus: "greedy P (plus (CharIf P))"
  unfolding plus_def by (rule greedy_Cat [OF many_greedy])

lemma rx_match_at_Some:
  assumes "rx_match_at r (b, s) = Some (q, g)"
  shows "\<exists>t v. s = t @ v \<and> q = (rev t @ b, v) \<and> matches r b t v [] g"
proof -
  have "(q, g) \<in> set (ms r (b, s) [])" using assms by (auto simp: rx_match_at_def split: list.splits)
  then show ?thesis by (auto simp: ms_matches)
qed

lemma rx_match_at_ex:
  assumes "matches r b t v [] g"
  shows "\<exists>m. rx_match_at r (b, t @ v) = Some m"
  using assms by (cases "ms r (b, t @ v) []") (auto simp: matches_def rx_match_at_def)

lemma rx_match_Some:
  assumes "rx_match r s = Some g"
  shows "\<exists>t v. s = t @ v \<and> matches r [] t v [] g"
proof -
  obtain q where "rx_match_at r ([], s) = Some (q, g)" using assms by (auto simp: rx_match_def)
  from rx_match_at_Some [OF this] show ?thesis by auto
qed

lemma rx_match_ex: "matches r [] t v [] g \<Longrightarrow> \<exists>g'. rx_match r (t @ v) = Some g'"
  using rx_match_at_ex [of r "[]" t v g] by (auto simp: rx_match_def)

lemma rx_match_at_stops: "greedy P r \<Longrightarrow> rx_match_at r p = Some m \<Longrightarrow> stops P (snd (fst m))"
  by (cases "ms r p []") (auto simp: rx_match_at_def dest: greedyD)

lemma word_ends_unique:
  assumes "x @ v = y @ u" and "list_all P x" and "list_all P y" and "stops P v" and "stops P u"
  shows "x = y \<and> v = u"
proof -
  have t: "takeWhile P (z @ t) = z" if "list_all P z" "stops P t" for z t
    using that by (cases t) (auto simp: stops_def list_all_iff takeWhile_append)
  have "x = y" using t [OF assms(2,4)] t [OF assms(3,5)] assms(1) by simp
  then show ?thesis using assms(1) by simp
qed

section \<open>Marked patterns\<close>

text \<open>All matches start with the character \<open>k\<close>, and hold no other.\<close>

definition marked :: "char \<Rightarrow> rx \<Rightarrow> bool" where
  "marked k r \<longleftrightarrow> (\<forall>p q cs. rx_match_at r p = Some (q, cs) \<longrightarrow> (\<exists>t. snd p = k # t @ snd q \<and> k \<notin> set t))"

lemma append_past_marked:
  assumes "u @ v = k # t @ s" and "u \<noteq> []" and "k \<notin> set t" and "hd v = k" and "v \<noteq> []"
  shows "\<exists>u'. u = k # t @ u' \<and> s = u' @ v"
proof -
  obtain u1 where u: "u = k # u1" "u1 @ v = t @ s" using assms(1,2) by (cases u) auto
  from u(2) obtain d where "u1 = t @ d \<and> d @ v = s \<or> u1 @ d = t \<and> v = d @ s"
    by (auto simp: append_eq_append_conv2)
  then show ?thesis
  proof
    assume a: "u1 @ d = t \<and> v = d @ s"
    have "d = []"
    proof (rule ccontr)
      assume "d \<noteq> []"
      then have "hd d = k" "hd d \<in> set t" using a assms(4) by auto
      then show False using assms(3) by simp
    qed
    then show ?thesis using a u by auto
  qed (use u in auto)
qed

lemma findall_marked_from:
  assumes "marked k r"
  shows "(\<exists>t. (t, g) \<in> set (concat (map hit (scan_from r p)))) \<longleftrightarrow>
    (\<exists>u v q. snd p = u @ v \<and> rx_match_at r (rev u @ fst p, v) = Some (q, g))"
  using assms
proof (induction r p rule: scan_from.induct)
  case (1 r b)
  have "rx_match_at r (b, []) = None"
  proof (cases "rx_match_at r (b, [])")
    case (Some m)
    then have "\<exists>t. [] = k # t @ snd (fst m)"
      using 1 unfolding marked_def by (metis prod.collapse snd_conv)
    then show ?thesis by simp
  qed
  then show ?case by simp
next
  case (2 r b c s)
  show ?case
  proof (cases "rx_match_at r (b, c # s)")
    case None
    have "(\<exists>u v q. c # s = u @ v \<and> rx_match_at r (rev u @ b, v) = Some (q, g)) \<longleftrightarrow>
        (\<exists>u v q. s = u @ v \<and> rx_match_at r (rev u @ c # b, v) = Some (q, g))"
      (is "?L \<longleftrightarrow> ?R")
    proof
      assume ?L
      then obtain u v q where u: "c # s = u @ v" "rx_match_at r (rev u @ b, v) = Some (q, g)" by blast
      then obtain u' where u': "u = c # u'" "s = u' @ v" using None by (cases u) auto
      show ?R
        by (rule exI [of _ u'], rule exI [of _ v], rule exI [of _ q]) (use u(2) u' in simp)
    next
      assume ?R
      then obtain u v q where "s = u @ v" "rx_match_at r (rev u @ c # b, v) = Some (q, g)" by blast
      then have "c # s = (c # u) @ v \<and> rx_match_at r (rev (c # u) @ b, v) = Some (q, g)" by simp
      then show ?L by blast
    qed
    then show ?thesis using None 2(1) [OF None 2(4)] by simp
  next
    case (Some m)
    obtain q cs where m: "m = (q, cs)" by (cases m)
    obtain t where t: "c # s = k # t @ snd q" "k \<notin> set t"
      using 2(4) Some m unfolding marked_def by (metis snd_conv)
    have q: "fst q = rev (k # t) @ b"
      using rx_match_at_ahead [of r "(b, c # s)" q cs] Some m t(1) by (auto simp: ahead_def)
    have short: "length (snd q) < length (c # s)" using t(1) by simp
    have IH: "(\<exists>t. (t, g) \<in> set (concat (map hit (scan_from r q)))) \<longleftrightarrow>
        (\<exists>u v q'. snd q = u @ v \<and> rx_match_at r (rev u @ fst q, v) = Some (q', g))"
      by (rule 2(2) [OF Some m [symmetric] short 2(4)])
    have "(\<exists>u v q'. c # s = u @ v \<and> rx_match_at r (rev u @ b, v) = Some (q', g)) \<longleftrightarrow>
        g = cs \<or> (\<exists>u v q'. snd q = u @ v \<and> rx_match_at r (rev u @ fst q, v) = Some (q', g))" (is "?L \<longleftrightarrow> ?R")
    proof
      assume ?L
      then obtain u v q' where u: "c # s = u @ v" "rx_match_at r (rev u @ b, v) = Some (q', g)" by blast
      show ?R
      proof (cases "u = []")
        case True
        then show ?thesis using u Some m by simp
      next
        case False
        have "v \<noteq> [] \<and> hd v = k" using 2(4) u(2) unfolding marked_def by fastforce
        then obtain u' where "u = k # t @ u'" "snd q = u' @ v"
          using append_past_marked [of u v k t "snd q"] u(1) t False by auto
        then have "snd q = u' @ v \<and> rx_match_at r (rev u' @ fst q, v) = Some (q', g)" using u(2) q by simp
        then show ?thesis by blast
      qed
    next
      assume ?R
      then show ?L
      proof
        assume "g = cs"
        then show ?thesis
          by (intro exI [of _ "[]"] exI [of _ "c # s"] exI [of _ q]) (use Some m in simp)
      next
        assume "\<exists>u v q'. snd q = u @ v \<and> rx_match_at r (rev u @ fst q, v) = Some (q', g)"
        then obtain u v q' where u: "snd q = u @ v" "rx_match_at r (rev u @ fst q, v) = Some (q', g)" by blast
        show ?thesis
          by (rule exI [of _ "k # t @ u"], rule exI [of _ v], rule exI [of _ q']) (use u t(1) q in simp)
      qed
    qed
    then show ?thesis using IH Some m short by auto
  qed
qed

lemma findall_marked:
  assumes "marked k r"
  shows "(\<exists>t. (t, g) \<in> set (rx_findall r s)) \<longleftrightarrow>
    (\<exists>u v q. s = u @ v \<and> rx_match_at r (rev u, v) = Some (q, g))"
  using findall_marked_from [OF assms, of g "([], s)"] by (simp add: rx_findall_def scan_def)

section \<open>Occurrences in joined texts\<close>

text \<open>A text without a line feed occurs in a join of texts where it occurs in one of them.\<close>

lemma occurs_across:
  assumes "u @ m @ v = t @ LF # r" and "LF \<notin> set m" and "m \<noteq> []"
  shows "(\<exists>v'. t = u @ m @ v' \<and> v = v' @ LF # r) \<or> (\<exists>u'. r = u' @ m @ v)"
proof -
  from assms(1) obtain d where "u = t @ d \<and> d @ m @ v = LF # r \<or> u @ d = t \<and> m @ v = d @ LF # r"
    by (auto simp: append_eq_append_conv2)
  then show ?thesis
  proof
    assume d: "u = t @ d \<and> d @ m @ v = LF # r"
    show ?thesis
    proof (cases d)
      case Nil
      then show ?thesis using d assms(2,3) by (cases m) auto
    qed (use d in auto)
  next
    assume d: "u @ d = t \<and> m @ v = d @ LF # r"
    then obtain e where "m = d @ e \<and> e @ v = LF # r \<or> m @ e = d \<and> v = e @ LF # r"
      by (auto simp: append_eq_append_conv2)
    then show ?thesis
    proof
      assume e: "m = d @ e \<and> e @ v = LF # r"
      then have "e = []" using assms(2) by (cases e) auto
      then show ?thesis using d e by auto
    qed (use d in auto)
  qed
qed

lemma occurs_join:
  assumes m: "LF \<notin> set m" "m \<noteq> []" and Q: "\<And>v r. Q (v @ LF # r) \<longleftrightarrow> Q v"
  shows "(\<exists>u v. join [LF] ts = u @ m @ v \<and> Q v) \<longleftrightarrow> (\<exists>t \<in> set ts. \<exists>u v. t = u @ m @ v \<and> Q v)"
proof (induction ts rule: induct_list012)
  case (3 t t' ts)
  let ?r = "join [LF] (t' # ts)"
  have "(\<exists>u v. t @ LF # ?r = u @ m @ v \<and> Q v) \<longleftrightarrow>
      (\<exists>u v. t = u @ m @ v \<and> Q v) \<or> (\<exists>u v. ?r = u @ m @ v \<and> Q v)" (is "?L \<longleftrightarrow> ?R")
  proof
    assume ?L
    then obtain u v where "u @ m @ v = t @ LF # ?r" "Q v" by metis
    then show ?R using occurs_across [OF _ m, of u v t ?r] Q by blast
  next
    assume ?R
    then show ?L
    proof
      assume "\<exists>u v. t = u @ m @ v \<and> Q v"
      then obtain u v where "t @ LF # ?r = u @ m @ (v @ LF # ?r)" "Q (v @ LF # ?r)" using Q by auto
      then show ?thesis by blast
    next
      assume "\<exists>u v. ?r = u @ m @ v \<and> Q v"
      then obtain u v where "t @ LF # ?r = (t @ LF # u) @ m @ v" "Q v" by auto
      then show ?thesis by blast
    qed
  qed
  then show ?case using 3(2) by simp
qed (use m in auto)

end
