(* ===== verification/Api_Audit.thy ===== *)
theory Api_Audit
  imports Oracles Paths Regex_Words Py_Repr
begin

text \<open>
  \<open>tools/api_audit.py\<close>: the public names of each package of \<open>lib/\<close> that no other package refers
  to.  It is a search of texts: a name is used when a package that imports the one it belongs to
  writes it after the package's alias, or after a dot and before a parenthesis.
\<close>

section \<open>Patterns\<close>

definition alnum :: "char \<Rightarrow> bool" where
  "alnum c \<longleftrightarrow> is_lower c \<or> is_upper c \<or> is_digit c \<or> c = CHR ''_''"

definition name_rx :: rx where
  "name_rx = plus (CharIf alnum)"

definition import_line_rx :: rx where
  \<comment> \<open>\<open>"([A-Za-z0-9_/\-]+)"\s*(?:@([A-Za-z0-9_]+))?\<close>\<close>
  "import_line_rx = cat
     [lit [DQ], Grp 1 (plus (CharIf (\<lambda>c. alnum c \<or> c = CHR ''/'' \<or> c = CHR ''-''))), lit [DQ],
      Many (CharIf is_space), opt (cat [lit ''@'', Grp 2 name_rx])]"

definition pub_rx :: rx where
  \<comment> \<open>\<open>^pub(?:\((?:all|open|readonly)\))?\<close>\<close>
  "pub_rx = cat [Bol, lit ''pub'', opt (cat [lit ''('', alts [lit ''all'', lit ''open'', lit ''readonly''], lit '')''])]"

definition mbti_fn_rx :: rx where
  "mbti_fn_rx = cat [pub_rx, lit '' fn'', opt (cat [lit ''['', Many (none_of '']''), lit '']'']), lit '' '',
     Grp 1 name_rx, opt (cat [lit ''::'', Grp 2 name_rx]), lit ''('']"

definition mbti_let_rx :: rx where
  "mbti_let_rx = cat [pub_rx, lit '' '', alts [lit ''let'', lit ''const''], lit '' '', Grp 1 name_rx]"

definition mbti_type_rx :: rx where
  "mbti_type_rx = cat [pub_rx, lit '' '', alts [lit ''struct'', lit ''enum'', lit ''type'', lit ''trait'',
     lit ''suberror'', lit ''typealias''], lit '' '', Grp 1 name_rx]"

definition alias_use_rx :: "str \<Rightarrow> rx" where
  "alias_use_rx a = cat [lit ''@'', lit a, lit ''.'', Grp 1 name_rx]"

definition method_use_rx :: rx where
  "method_use_rx = cat [lit ''.'', Grp 1 name_rx, lit ''('']"

section \<open>Packages and their names\<close>

definition lib :: "env \<Rightarrow> path" where
  "lib E = joinp (root E) ''lib''"

definition source_roots :: "env \<Rightarrow> path list" where
  "source_roots E = map (joinp (root E)) [''lib'', ''cli'', ''test'', ''tools'', ''printer_pp'']"

definition package_dirs :: "env \<Rightarrow> path \<Rightarrow> path list io" where
  \<comment> \<open>\<open>[p.parent for p in d.rglob("moon.pkg")]\<close>\<close>
  "package_dirs E d w =
     (Inr (map parent (filter (\<lambda>p. under d p \<and> basename p = ''moon.pkg'') (walk E (disk w)))), w)"

definition short_name :: "env \<Rightarrow> path \<Rightarrow> str" where
  "short_name E d = (if d = lib E then ''.'' else drop (length (lib E) + 1) d)"

definition pkg_import_path :: "env \<Rightarrow> path \<Rightarrow> str" where
  "pkg_import_path E d = (let rel = short_name E d in
     if rel = ''.'' then ''marianoguerra/wax'' else ''marianoguerra/wax/'' @ rel)"

definition name_of_line :: "str \<Rightarrow> str option" where
  "name_of_line line = (case rx_match mbti_fn_rx line of
      Some g \<Rightarrow> Some (if group g 2 \<noteq> [] then group g 2 else group g 1)
    | None \<Rightarrow> (case rx_match mbti_let_rx line of
        Some g \<Rightarrow> Some (group g 1)
      | None \<Rightarrow> map_option (\<lambda>g. group g 1) (rx_match mbti_type_rx line)))"

definition public_names :: "path \<Rightarrow> str list io" where
  "public_names d =
     bindio (exists_file (joinp d ''pkg.generated.mbti'')) (\<lambda>there.
     if \<not> there then ret []
     else bindio (read_text (joinp d ''pkg.generated.mbti'')) (\<lambda>s.
       ret (remdups (List.map_filter name_of_line (splitlines s)))))"

definition alias_of :: "str \<Rightarrow> caps \<Rightarrow> str option" where
  "alias_of pkg g = (if group g 1 \<noteq> pkg then None
     else Some (if group g 2 \<noteq> [] then group g 2 else rsplit1 CHR ''/'' (group g 1)))"

definition aliases_for :: "str \<Rightarrow> path \<Rightarrow> str list io" where
  "aliases_for pkg importer =
     bindio (exists_file (joinp importer ''moon.pkg'')) (\<lambda>there.
     if \<not> there then ret []
     else bindio (read_text (joinp importer ''moon.pkg'')) (\<lambda>s.
       ret (remdups (List.map_filter (alias_of pkg \<circ> snd) (rx_findall import_line_rx s)))))"

definition sources_text :: "env \<Rightarrow> path \<Rightarrow> str io" where
  "sources_text E d =
     bindio (\<lambda>w. (Inr (filter (\<lambda>p. under d p \<and> CHR ''/'' \<notin> set (drop (length d + 1) p)
               \<and> endswith p ''.mbt'') (walk E (disk w))), w)) (\<lambda>files.
     bindio (mapio read_text files) (\<lambda>texts. ret (join [LF] texts)))"

definition first_groups :: "rx \<Rightarrow> str \<Rightarrow> str list" where
  "first_groups r text = map (\<lambda>(_, g). group g 1) (rx_findall r text)"

definition uses_in :: "str list \<Rightarrow> str \<Rightarrow> str list" where
  "uses_in aliases text = concat (map (\<lambda>a. first_groups (alias_use_rx a) text) aliases)
     @ first_groups method_use_rx text"

section \<open>The audit\<close>

text \<open>What one importer uses of a package.\<close>

definition importer_uses :: "env \<Rightarrow> path \<Rightarrow> path \<Rightarrow> str list io" where
  "importer_uses E d imp =
     (if imp = d then ret [] else
      bindio (aliases_for (pkg_import_path E d) imp) (\<lambda>aliases.
      if aliases = [] then ret []
      else bindio (sources_text E imp) (\<lambda>text. ret (uses_in aliases text))))"

type_synonym row = "str \<times> nat \<times> str list"

definition audit_package :: "env \<Rightarrow> path list \<Rightarrow> path \<Rightarrow> row list io" where
  "audit_package E importers d =
     bindio (public_names d) (\<lambda>names.
     if names = [] then ret []
     else bindio (mapio (importer_uses E d) importers) (\<lambda>used.
       ret [(short_name E d, length names, sorted_set (filter (\<lambda>x. x \<notin> set (concat used)) names))]))"

definition row_lines :: "bool \<Rightarrow> bool \<Rightarrow> row \<Rightarrow> str list" where
  "row_lines detail one r = (case r of (short, n, unused) \<Rightarrow>
     if unused = [] \<and> \<not> one then []
     else (ljust 28 short @ '' '' @ rjust 5 (str_nat n) @ '' '' @ rjust 7 (str_nat (length unused)))
       # (if detail \<or> one then map (\<lambda>x. ''    '' @ x) unused else []))"

definition audit_report :: "bool \<Rightarrow> bool \<Rightarrow> row list \<Rightarrow> str list" where
  "audit_report detail one rows =
     [ljust 28 ''package'' @ '' '' @ rjust 5 ''pub'' @ '' '' @ rjust 7 ''unused'']
     @ concat (map (row_lines detail one) rows)
     @ [ljust 28 [] @ '' '' @ rjust 5 (str_nat (sum_list (map (\<lambda>(_, n, _). n) rows)))
        @ '' '' @ rjust 7 (str_nat (sum_list (map (\<lambda>(_, _, u). length u) rows))) @ ''   total'']"

definition audit_rows :: "env \<Rightarrow> str option \<Rightarrow> row list io" where
  "audit_rows E pkg =
     bindio (package_dirs E (lib E)) (\<lambda>found.
     bindio (mapio (package_dirs E) (source_roots E)) (\<lambda>importers.
     bindio (mapio (audit_package E (concat importers))
         (filter (\<lambda>d. pkg \<in> {None, Some []} \<or> pkg = Some (short_name E d)) (sort_key (split_on ''/'') found)))
       (\<lambda>rows. ret (sort_key (\<lambda>(_, _, u). - int (length u)) (concat rows)))))"

definition audit_main :: "env \<Rightarrow> bool \<Rightarrow> str option \<Rightarrow> str list io" where
  "audit_main E detail pkg =
     bindio (audit_rows E pkg) (\<lambda>rows. ret (audit_report detail (pkg \<notin> {None, Some []}) rows))"

section \<open>What the patterns say\<close>

text \<open>
  The texts the audit reads, said without its patterns: which name a line of a \<open>.mbti\<close> promises,
  what an importer calls a package, and when a source spells a name.
\<close>

definition word :: "str \<Rightarrow> bool" where
  "word x \<longleftrightarrow> x \<noteq> [] \<and> list_all alnum x"

definition visibilities :: "str set" where
  "visibilities = {[], ''(all)'', ''(open)'', ''(readonly)''}"

definition item_keywords :: "str set" where
  "item_keywords = {''let'', ''const'', ''struct'', ''enum'', ''type'', ''trait'', ''suberror'', ''typealias''}"

definition type_params :: "str \<Rightarrow> bool" where
  "type_params t \<longleftrightarrow> t = [] \<or> (\<exists>ps. CHR '']'' \<notin> set ps \<and> t = ''['' @ ps @ '']'')"

definition owner :: "str \<Rightarrow> bool" where
  "owner q \<longleftrightarrow> q = [] \<or> (\<exists>c. word c \<and> q = c @ ''::'')"

definition promises_fn :: "str \<Rightarrow> str \<Rightarrow> bool" where
  "promises_fn line x \<longleftrightarrow> word x \<and> (\<exists>vis t q v. vis \<in> visibilities \<and> type_params t \<and> owner q
     \<and> line = ''pub'' @ vis @ '' fn'' @ t @ '' '' @ q @ x @ ''('' @ v)"

definition promises_item :: "str set \<Rightarrow> str \<Rightarrow> str \<Rightarrow> bool" where
  "promises_item kws line x \<longleftrightarrow> word x \<and> (\<exists>vis kw v. vis \<in> visibilities \<and> kw \<in> kws \<and> stops alnum v
     \<and> line = ''pub'' @ vis @ '' '' @ kw @ '' '' @ x @ v)"

lemma pub_matches:
  "matches pub_rx [] t v [] cs \<longleftrightarrow> (\<exists>vis \<in> visibilities. t = ''pub'' @ vis) \<and> cs = []"
proof -
  have a: "alts [lit ''all'', lit ''open'', lit ''readonly''] = alts (map lit [''all'', ''open'', ''readonly''])" by simp
  show ?thesis
    unfolding pub_rx_def cat.simps a matches_simps matches_lits visibilities_def by auto
qed

lemma name_matches:
  "matches (Grp n name_rx) b t v cs cs' \<longleftrightarrow> word t \<and> cs' = dset n t cs"
  unfolding name_rx_def word_def matches_simps by auto

lemma params_matches:
  "matches (opt (cat [lit ''['', Many (none_of '']''), lit '']''])) b t v cs cs' \<longleftrightarrow> type_params t \<and> cs' = cs"
  unfolding none_of_def cat.simps matches_simps type_params_def by (auto simp: list_all_iff)

lemma pubI: "vis \<in> visibilities \<Longrightarrow> matches pub_rx [] (''pub'' @ vis) v [] []"
  unfolding pub_matches by blast

lemma nameI: "word x \<Longrightarrow> matches (Grp n name_rx) b x v cs (dset n x cs)"
  unfolding name_matches by simp

lemma paramsI: "type_params ps \<Longrightarrow>
  matches (opt (Cat (lit ''['') (Cat (Many (none_of '']'')) (lit '']'')))) b ps v cs cs"
  unfolding params_matches [unfolded cat.simps] by simp

definition fn_name :: "caps \<Rightarrow> str" where
  "fn_name g = (if group g 2 \<noteq> [] then group g 2 else group g 1)"

lemma promises_fn_match:
  assumes "promises_fn line x"
  shows "\<exists>g. rx_match mbti_fn_rx line = Some g"
proof -
  obtain vis ps q v where x: "word x" and v: "vis \<in> visibilities" "type_params ps" "owner q"
    and line: "line = ''pub'' @ vis @ '' fn'' @ ps @ '' '' @ q @ x @ ''('' @ v"
    using assms by (auto simp: promises_fn_def)
  have "\<exists>g. matches mbti_fn_rx [] ((''pub'' @ vis) @ '' fn'' @ ps @ '' '' @ q @ x @ ''('') v [] g"
  proof (cases "q = []")
    case True
    have "matches mbti_fn_rx [] ((''pub'' @ vis) @ '' fn'' @ ps @ '' '' @ x @ [] @ ''('') v [] (dset 1 x [])"
      unfolding mbti_fn_rx_def cat.simps
      by (rule matchI(1), rule pubI [OF v(1)], rule matchI(1), rule matchI(2), rule matchI(1),
          rule paramsI [OF v(2)], rule matchI(1), rule matchI(2), rule matchI(1), rule nameI [OF x],
          rule matchI(1), rule match_optI(1), rule matchI(2))
    then show ?thesis using True by auto
  next
    case False
    then obtain c where c: "word c" "q = c @ ''::''" using v(3) by (auto simp: owner_def)
    have "matches mbti_fn_rx [] ((''pub'' @ vis) @ '' fn'' @ ps @ '' '' @ c @ (''::'' @ x) @ ''('') v [] (dset 2 x (dset 1 c []))"
      unfolding mbti_fn_rx_def cat.simps
      by (rule matchI(1), rule pubI [OF v(1)], rule matchI(1), rule matchI(2), rule matchI(1),
          rule paramsI [OF v(2)], rule matchI(1), rule matchI(2), rule matchI(1), rule nameI [OF c(1)],
          rule matchI(1), rule match_optI(2), rule matchI(1), rule matchI(2), rule nameI [OF x], rule matchI(2))
    then show ?thesis using c(2) by auto
  qed
  then show ?thesis using rx_match_ex line by fastforce
qed

lemma fn_match_promises:
  assumes "rx_match mbti_fn_rx line = Some g"
  shows "promises_fn line (fn_name g)"
proof -
  obtain t v where t: "line = t @ v" "matches mbti_fn_rx [] t v [] g" using rx_match_Some [OF assms] by blast
  obtain vis ps c rest where w: "vis \<in> visibilities" "type_params ps" "word c"
    "t = (''pub'' @ vis) @ '' fn'' @ ps @ '' '' @ c @ rest @ ''(''"
    "rest = [] \<and> g = [(1, c)] \<or> (\<exists>x. word x \<and> rest = ''::'' @ x \<and> g = [(1, c), (2, x)])"
    using t(2) unfolding mbti_fn_rx_def cat.simps matches_Cat params_matches [unfolded cat.simps] name_matches
      matches_lit pub_matches matches_opt [of "Cat (lit ''::'') (Grp 2 name_rx)"]
    apply (elim exE conjE bexE)
    apply (rule that, assumption, assumption, assumption)
     apply simp
    apply (erule disjE)
     apply (elim exE conjE)
     apply simp_all
    done
  from w(5) show ?thesis
  proof
    assume "rest = [] \<and> g = [(1, c)]"
    then have c: "fn_name g = c" "line = ''pub'' @ vis @ '' fn'' @ ps @ '' '' @ [] @ c @ ''('' @ v"
      using w t by (simp_all add: fn_name_def group_def)
    have "promises_fn line c"
      unfolding promises_fn_def
      by (intro conjI w(1-3) c(2) exI [of _ vis] exI [of _ ps] exI [of _ "[]"] exI [of _ v]) (simp add: owner_def)
    then show ?thesis using c(1) by simp
  next
    assume "\<exists>x. word x \<and> rest = ''::'' @ x \<and> g = [(1, c), (2, x)]"
    then obtain x where x: "word x" "rest = ''::'' @ x" "g = [(1, c), (2, x)]" by blast
    have "owner (c @ ''::'')" using w(3) by (auto simp: owner_def)
    then have "promises_fn line x"
      unfolding promises_fn_def
      by (intro conjI x exI [of _ vis] exI [of _ ps] exI [of _ "c @ ''::''"] exI [of _ v]) (use w t x in auto)
    moreover have "fn_name g = x" using x by (auto simp: fn_name_def group_def word_def)
    ultimately show ?thesis by simp
  qed
qed


lemma promises_fn_unique:
  assumes "promises_fn line x" and "promises_fn line y"
  shows "x = y"
proof -
  obtain vis ps q v where x: "word x" "vis \<in> visibilities" "type_params ps" "owner q"
    and lx: "line = ''pub'' @ vis @ '' fn'' @ ps @ '' '' @ q @ x @ ''('' @ v"
    using assms(1) by (auto simp: promises_fn_def)
  obtain vis' ps' q' v' where y: "word y" "vis' \<in> visibilities" "type_params ps'" "owner q'"
    and ly: "line = ''pub'' @ vis' @ '' fn'' @ ps' @ '' '' @ q' @ y @ ''('' @ v'"
    using assms(2) by (auto simp: promises_fn_def)
  have 1: "ps @ '' '' @ q @ x @ ''('' @ v = ps' @ '' '' @ q' @ y @ ''('' @ v'"
    using lx ly x(2) y(2) by (auto simp: visibilities_def)
  have 2: "q @ x @ ''('' @ v = q' @ y @ ''('' @ v'"
  proof -
    consider "ps = []" "ps' = []" | a b where "ps = ''['' @ a @ '']''" "ps' = ''['' @ b @ '']''"
        "CHR '']'' \<notin> set a" "CHR '']'' \<notin> set b"
      using x(3) y(3) 1 by (auto simp: type_params_def)
    then show ?thesis
    proof cases
      case 2
      then show ?thesis
        using 1 word_ends_unique [of a "'']'' @ '' '' @ q @ x @ ''('' @ v" b "'']'' @ '' '' @ q' @ y @ ''('' @ v'"
          "\<lambda>c. c \<noteq> CHR '']''"]
        by (auto simp: stops_def list_all_iff)
    qed (use 1 in simp)
  qed
  have p: "stops alnum (''('' @ u)" "stops alnum (''::'' @ u)" for u by (simp_all add: stops_def) code_simp+
  show ?thesis
  proof (cases "q = []")
    case True
    show ?thesis
    proof (cases "q' = []")
      case q': True
      then show ?thesis
        using 2 True word_ends_unique [of x "''('' @ v" y "''('' @ v'" alnum] p x(1) y(1) by (simp add: word_def)
    next
      case False
      then obtain c where "word c" "q' = c @ ''::''" using y(4) by (auto simp: owner_def)
      then show ?thesis
        using 2 True word_ends_unique [of x "''('' @ v" c "''::'' @ y @ ''('' @ v'" alnum] p x(1) by (simp add: word_def)
    qed
  next
    case False
    then obtain d where d: "word d" "q = d @ ''::''" using x(4) by (auto simp: owner_def)
    show ?thesis
    proof (cases "q' = []")
      case q': True
      then show ?thesis
        using 2 d word_ends_unique [of d "''::'' @ x @ ''('' @ v" y "''('' @ v'" alnum] p y(1) by (simp add: word_def)
    next
      case False
      then obtain c where c: "word c" "q' = c @ ''::''" using y(4) by (auto simp: owner_def)
      then have "x @ ''('' @ v = y @ ''('' @ v'"
        using 2 d word_ends_unique [of d "''::'' @ x @ ''('' @ v" c "''::'' @ y @ ''('' @ v'" alnum] p by (simp add: word_def)
      then show ?thesis
        using word_ends_unique [of x "''('' @ v" y "''('' @ v'" alnum] p x(1) y(1) by (simp add: word_def)
    qed
  qed
qed

lemma promises_item_unique:
  assumes "promises_item kws line x" and "promises_item kws line y" and "kws \<subseteq> item_keywords"
  shows "x = y"
proof -
  obtain vis kw v where x: "word x" "vis \<in> visibilities" "kw \<in> item_keywords" "stops alnum v"
    and lx: "line = ''pub'' @ vis @ '' '' @ kw @ '' '' @ x @ v"
    using assms(1,3) by (auto simp: promises_item_def)
  obtain vis' kw' v' where y: "word y" "vis' \<in> visibilities" "kw' \<in> item_keywords" "stops alnum v'"
    and ly: "line = ''pub'' @ vis' @ '' '' @ kw' @ '' '' @ y @ v'"
    using assms(2,3) by (auto simp: promises_item_def)
  have "kw @ '' '' @ x @ v = kw' @ '' '' @ y @ v'"
    using lx ly x(2) y(2) by (auto simp: visibilities_def)
  then have "x @ v = y @ v'" using x(3) y(3) by (auto simp: item_keywords_def)
  then show ?thesis using word_ends_unique [of x v y v' alnum] x y by (simp add: word_def)
qed

lemma fn_or_item: "promises_fn line x \<Longrightarrow> \<not> promises_item item_keywords line y"
  by (auto simp: promises_fn_def promises_item_def visibilities_def item_keywords_def)

lemma fn_names: "(\<exists>g. rx_match mbti_fn_rx line = Some g \<and> fn_name g = x) \<longleftrightarrow> promises_fn line x"
  using promises_fn_match [of line x] fn_match_promises promises_fn_unique by metis


definition item_rx :: "str list \<Rightarrow> rx" where
  "item_rx kws = cat [pub_rx, lit '' '', alts (map lit kws), lit '' '', Grp 1 name_rx]"

lemma mbti_item_rx:
  "mbti_let_rx = item_rx [''let'', ''const'']"
  "mbti_type_rx = item_rx [''struct'', ''enum'', ''type'', ''trait'', ''suberror'', ''typealias'']"
  by (simp_all add: mbti_let_rx_def mbti_type_rx_def item_rx_def)

lemma item_greedy: "greedy alnum (item_rx kws)"
  unfolding item_rx_def cat.simps name_rx_def by (intro greedy_Cat greedy_Grp greedy_plus)

lemma promises_item_match:
  assumes "promises_item (set (k # ks)) line x"
  shows "\<exists>g. rx_match (item_rx (k # ks)) line = Some g"
proof -
  obtain vis kw v where x: "word x" and v: "vis \<in> visibilities" "kw \<in> set (k # ks)"
    and line: "line = ''pub'' @ vis @ '' '' @ kw @ '' '' @ x @ v"
    using assms by (auto simp: promises_item_def)
  have "matches (alts (map lit (k # ks))) b kw u cs cs" for b u cs
    using v(2) unfolding matches_lits by blast
  note kw = this
  have "matches (item_rx (k # ks)) [] ((''pub'' @ vis) @ '' '' @ kw @ '' '' @ x) v [] (dset 1 x [])"
    unfolding item_rx_def cat.simps
    by (rule matchI(1), rule pubI [OF v(1)], rule matchI(1), rule matchI(2), rule matchI(1), rule kw,
        rule matchI(1), rule matchI(2), rule nameI [OF x])
  then show ?thesis using rx_match_ex line by fastforce
qed

lemma item_match_promises:
  assumes "rx_match (item_rx (k # ks)) line = Some g"
  shows "promises_item (set (k # ks)) line (group g 1)"
proof -
  obtain q where q: "rx_match_at (item_rx (k # ks)) ([], line) = Some (q, g)"
    using assms by (auto simp: rx_match_def)
  obtain t v where t: "line = t @ v" "q = (rev t @ [], v)" "matches (item_rx (k # ks)) [] t v [] g"
    using rx_match_at_Some [OF q] by blast
  have stop: "stops alnum v" using rx_match_at_stops [OF item_greedy q] t(2) by simp
  obtain vis kw x where w: "vis \<in> visibilities" "kw \<in> set (k # ks)" "word x" "g = [(1, x)]"
    "t = ''pub'' @ vis @ '' '' @ kw @ '' '' @ x"
    using t(3) unfolding item_rx_def cat.simps matches_Cat name_matches matches_lit pub_matches matches_lits
    by (elim exE conjE bexE) (rule that, assumption, assumption, assumption, simp, simp)
  have l: "line = ''pub'' @ vis @ '' '' @ kw @ '' '' @ x @ v" using t(1) w(5) by simp
  have g: "group g 1 = x" using w(4) by (simp add: group_def)
  show ?thesis unfolding promises_item_def g
    by (intro conjI w(1-3) stop l exI [of _ vis] exI [of _ kw] exI [of _ v])
qed

lemma item_names:
  assumes "set (k # ks) \<subseteq> item_keywords"
  shows "(\<exists>g. rx_match (item_rx (k # ks)) line = Some g \<and> group g 1 = x) \<longleftrightarrow> promises_item (set (k # ks)) line x"
  using promises_item_match [of k ks line x] item_match_promises [of k ks line] promises_item_unique [OF _ _ assms] by metis

lemma let_or_type: "promises_item {''let'', ''const''} line x \<Longrightarrow>
  \<not> promises_item {''struct'', ''enum'', ''type'', ''trait'', ''suberror'', ''typealias''} line y"
  by (auto simp: promises_item_def visibilities_def)

text \<open>A line promises a name when it declares a function, or another item, of that name.\<close>

lemma name_of_line_exact:
  "name_of_line line = Some x \<longleftrightarrow> promises_fn line x \<or> promises_item item_keywords line x"
proof -
  let ?l = "[''let'', ''const'']" and ?t = "[''struct'', ''enum'', ''type'', ''trait'', ''suberror'', ''typealias'']"
  have k: "set ?l \<subseteq> item_keywords" "set ?t \<subseteq> item_keywords" "item_keywords = set ?l \<union> set ?t"
    by (auto simp: item_keywords_def)
  have i: "promises_item item_keywords line y \<longleftrightarrow> promises_item (set ?l) line y \<or> promises_item (set ?t) line y" for y
    unfolding k(3) promises_item_def by blast
  note fn = fn_names [of line] and l = item_names [OF k(1), of line] and t = item_names [OF k(2), of line]
  show ?thesis
  proof (cases "rx_match mbti_fn_rx line")
    case (Some g)
    then have "promises_fn line (fn_name g)" by (rule fn_match_promises)
    then show ?thesis using Some fn fn_or_item by (simp add: name_of_line_def fn_name_def)
  next
    case None
    then have nofn: "\<not> promises_fn line y" for y using fn by auto
    show ?thesis
    proof (cases "rx_match mbti_let_rx line")
      case (Some g)
      then have "promises_item (set ?l) line (group g 1)" using item_match_promises unfolding mbti_item_rx by blast
      then show ?thesis using Some None nofn i l [of x] let_or_type [of line] unfolding mbti_item_rx
        by (auto simp: name_of_line_def mbti_item_rx)
    next
      case no_let: None
      then have "\<not> promises_item (set ?l) line y" for y using l [of y] unfolding mbti_item_rx by simp
      then show ?thesis using no_let None nofn i t [of x] unfolding mbti_item_rx
        by (auto simp: name_of_line_def mbti_item_rx)
    qed
  qed
qed


section \<open>What a source uses\<close>

text \<open>
  A source spells a name after an alias when \<open>@alias.name\<close> stands in it, the name taken whole, and
  calls a method when \<open>.name(\<close> does.
\<close>

definition spells :: "str \<Rightarrow> str \<Rightarrow> str \<Rightarrow> bool" where
  "spells src a x \<longleftrightarrow> word x \<and> (\<exists>u v. src = u @ ''@'' @ a @ ''.'' @ x @ v \<and> stops alnum v)"

definition calls_method :: "str \<Rightarrow> str \<Rightarrow> bool" where
  "calls_method src x \<longleftrightarrow> word x \<and> (\<exists>u v. src = u @ ''.'' @ x @ ''('' @ v)"

lemma alnum_marks: "\<not> alnum CHR ''@''" "\<not> alnum CHR ''.''" "\<not> alnum CHR ''(''" "\<not> alnum LF"
  by code_simp+

lemma first_groups_mem:
  "x \<in> set (first_groups r s) \<longleftrightarrow> (\<exists>g. (\<exists>t. (t, g) \<in> set (rx_findall r s)) \<and> group g 1 = x)"
  by (force simp: first_groups_def)

lemma alias_use_match:
  assumes "rx_match_at (alias_use_rx a) (b, s) = Some (q, g)"
  shows "\<exists>x. word x \<and> s = (''@'' @ a @ ''.'' @ x) @ snd q \<and> stops alnum (snd q) \<and> g = [(1, x)]"
proof -
  obtain t v where t: "s = t @ v" "q = (rev t @ b, v)" "matches (alias_use_rx a) b t v [] g"
    using rx_match_at_Some [OF assms] by blast
  have "greedy alnum (alias_use_rx a)"
    unfolding alias_use_rx_def cat.simps name_rx_def by (intro greedy_Cat greedy_Grp greedy_plus)
  then have "stops alnum (snd q)" using rx_match_at_stops assms by fastforce
  then show ?thesis
    using t unfolding alias_use_rx_def cat.simps matches_Cat name_matches matches_lit by auto
qed

lemma alias_use_ex:
  assumes "word x" and "stops alnum v"
  shows "\<exists>q. rx_match_at (alias_use_rx a) (b, ''@'' @ a @ ''.'' @ x @ v) = Some (q, [(1, x)])"
proof -
  have "matches (alias_use_rx a) b (''@'' @ a @ ''.'' @ x) v [] (dset 1 x [])"
    unfolding alias_use_rx_def cat.simps
    by (rule matchI(1), rule matchI(2), rule matchI(1), rule matchI(2), rule matchI(1), rule matchI(2),
        rule nameI [OF assms(1)])
  then obtain q g where m: "rx_match_at (alias_use_rx a) (b, (''@'' @ a @ ''.'' @ x) @ v) = Some (q, g)"
    using rx_match_at_ex by fast
  from alias_use_match [OF m] obtain y where y: "word y" "stops alnum (snd q)" "g = [(1, y)]"
    "(''@'' @ a @ ''.'' @ x) @ v = (''@'' @ a @ ''.'' @ y) @ snd q" by blast
  then have "x = y" using word_ends_unique [of x v y "snd q" alnum] assms by (simp add: word_def)
  then show ?thesis using m y(3) by auto
qed

lemma alias_use_exact:
  assumes a: "CHR ''@'' \<notin> set a"
  shows "x \<in> set (first_groups (alias_use_rx a) s) \<longleftrightarrow> spells s a x"
proof -
  have m: "marked (CHR ''@'') (alias_use_rx a)"
    unfolding marked_def
  proof (intro allI impI)
    fix p q g
    assume "rx_match_at (alias_use_rx a) p = Some (q, g)"
    then obtain y where y: "word y" "snd p = (''@'' @ a @ ''.'' @ y) @ snd q"
      using alias_use_match [of a "fst p" "snd p"] by auto
    then have "CHR ''@'' \<notin> set (a @ ''.'' @ y)" using a alnum_marks by (auto simp: word_def list_all_iff)
    then show "\<exists>t. snd p = CHR ''@'' # t @ snd q \<and> CHR ''@'' \<notin> set t" using y by auto
  qed
  show ?thesis unfolding first_groups_mem findall_marked [OF m] spells_def
  proof safe
    fix g u v b w
    assume "rx_match_at (alias_use_rx a) (rev u, v) = Some ((b, w), g)"
    from alias_use_match [OF this] obtain y where y: "word y" "v = (''@'' @ a @ ''.'' @ y) @ w"
      "stops alnum w" "g = [(1, y)]" by auto
    then show "word (group g 1)"
      "\<exists>u' v'. u @ v = u' @ ''@'' @ a @ ''.'' @ group g 1 @ v' \<and> stops alnum v'"
      by (simp add: group_def) (rule exI [of _ u], rule exI [of _ w], use y in \<open>simp add: group_def\<close>)
  next
    fix u v
    assume "word x" "stops alnum v"
    then obtain q where "rx_match_at (alias_use_rx a) (rev u, ''@'' @ a @ ''.'' @ x @ v) = Some (q, [(1, x)])"
      using alias_use_ex by blast
    then show "\<exists>g. (\<exists>ua va q. u @ ''@'' @ a @ ''.'' @ x @ v = ua @ va
        \<and> rx_match_at (alias_use_rx a) (rev ua, va) = Some (q, g)) \<and> group g 1 = x"
      by (intro exI [of _ "[(1, x)]"] conjI exI [of _ u] exI [of _ "''@'' @ a @ ''.'' @ x @ v"] exI [of _ q])
        (simp_all add: group_def)
  qed
qed

lemma method_use_match:
  assumes "rx_match_at method_use_rx (b, s) = Some (q, g)"
  shows "\<exists>x. word x \<and> s = (''.'' @ x @ ''('') @ snd q \<and> g = [(1, x)]"
proof -
  obtain t v where t: "s = t @ v" "q = (rev t @ b, v)" "matches method_use_rx b t v [] g"
    using rx_match_at_Some [OF assms] by blast
  then show ?thesis unfolding method_use_rx_def cat.simps matches_Cat name_matches matches_lit by auto
qed

lemma method_use_ex:
  assumes "word x"
  shows "\<exists>q. rx_match_at method_use_rx (b, ''.'' @ x @ ''('' @ v) = Some (q, [(1, x)])"
proof -
  have "matches method_use_rx b (''.'' @ x @ ''('') v [] (dset 1 x [])"
    unfolding method_use_rx_def cat.simps
    by (rule matchI(1), rule matchI(2), rule matchI(1), rule nameI [OF assms(1)], rule matchI(2))
  then obtain q g where m: "rx_match_at method_use_rx (b, (''.'' @ x @ ''('') @ v) = Some (q, g)"
    using rx_match_at_ex by fast
  from method_use_match [OF m] obtain y where y: "word y" "g = [(1, y)]"
    "(''.'' @ x @ ''('') @ v = (''.'' @ y @ ''('') @ snd q" by blast
  have p: "stops alnum (''('' @ u)" for u using alnum_marks by (simp add: stops_def)
  have "x = y" using word_ends_unique [of x "''('' @ v" y "''('' @ snd q" alnum] assms y p by (simp add: word_def)
  then show ?thesis using m y(2) by auto
qed

lemma method_use_exact: "x \<in> set (first_groups method_use_rx s) \<longleftrightarrow> calls_method s x"
proof -
  have m: "marked (CHR ''.'') method_use_rx"
    unfolding marked_def
  proof (intro allI impI)
    fix p q g
    assume "rx_match_at method_use_rx p = Some (q, g)"
    then obtain y where y: "word y" "snd p = (''.'' @ y @ ''('') @ snd q"
      using method_use_match [of "fst p" "snd p"] by auto
    then have "CHR ''.'' \<notin> set (y @ ''('')" using alnum_marks by (auto simp: word_def list_all_iff)
    then show "\<exists>t. snd p = CHR ''.'' # t @ snd q \<and> CHR ''.'' \<notin> set t" using y by auto
  qed
  show ?thesis unfolding first_groups_mem findall_marked [OF m] calls_method_def
  proof safe
    fix g u v b w
    assume "rx_match_at method_use_rx (rev u, v) = Some ((b, w), g)"
    from method_use_match [OF this] obtain y where y: "word y" "v = (''.'' @ y @ ''('') @ w" "g = [(1, y)]" by auto
    then show "word (group g 1)" "\<exists>u' v'. u @ v = u' @ ''.'' @ group g 1 @ ''('' @ v'"
      by (simp add: group_def) (rule exI [of _ u], rule exI [of _ w], use y in \<open>simp add: group_def\<close>)
  next
    fix u v
    assume "word x"
    then obtain q where "rx_match_at method_use_rx (rev u, ''.'' @ x @ ''('' @ v) = Some (q, [(1, x)])"
      using method_use_ex by blast
    then show "\<exists>g. (\<exists>ua va q. u @ ''.'' @ x @ ''('' @ v = ua @ va
        \<and> rx_match_at method_use_rx (rev ua, va) = Some (q, g)) \<and> group g 1 = x"
      by (intro exI [of _ "[(1, x)]"] conjI exI [of _ u] exI [of _ "''.'' @ x @ ''('' @ v"] exI [of _ q])
        (simp_all add: group_def)
  qed
qed

lemma spells_join:
  assumes "LF \<notin> set a"
  shows "spells (join [LF] ts) a x \<longleftrightarrow> (\<exists>t \<in> set ts. spells t a x)"
proof -
  have "word x \<Longrightarrow> LF \<notin> set (''@'' @ a @ ''.'' @ x)"
    using assms alnum_marks by (auto simp: word_def list_all_iff)
  moreover have "stops alnum (v @ LF # r) \<longleftrightarrow> stops alnum v" for v r
    using alnum_marks by (cases v) (auto simp: stops_def)
  ultimately show ?thesis
    using occurs_join [of "''@'' @ a @ ''.'' @ x" "stops alnum" ts] by (auto simp: spells_def)
qed

lemma calls_method_join: "calls_method (join [LF] ts) x \<longleftrightarrow> (\<exists>t \<in> set ts. calls_method t x)"
proof -
  have "word x \<Longrightarrow> LF \<notin> set (''.'' @ x @ ''('')"
    using alnum_marks by (auto simp: word_def list_all_iff)
  then show ?thesis
    using occurs_join [of "''.'' @ x @ ''(''" "\<lambda>_. True" ts] unfolding calls_method_def by (cases "word x") simp_all
qed


text \<open>What an importer calls a package: each import of it, with its alias or its last segment.\<close>

definition imported_as :: "str \<Rightarrow> str \<Rightarrow> str \<Rightarrow> bool" where
  "imported_as cfg pkg a \<longleftrightarrow> (\<exists>t g. (t, g) \<in> set (rx_findall import_line_rx cfg) \<and> group g 1 = pkg
     \<and> a = (if group g 2 \<noteq> [] then group g 2 else rsplit1 CHR ''/'' pkg))"

lemma hit_seg: "(t, g) \<in> set (hit x) \<longleftrightarrow> x = Hit t g"
  by (cases x) auto

lemma import_groups:
  assumes "(t, g) \<in> set (rx_findall import_line_rx s)"
  shows "list_all (\<lambda>c. alnum c \<or> c = CHR ''/'' \<or> c = CHR ''-'') (group g 1) \<and> list_all alnum (group g 2)"
proof -
  have "Hit t g \<in> set (scan_from import_line_rx ([], s))"
    using assms by (auto simp: rx_findall_def scan_def hit_seg)
  then obtain p q where "rx_match_at import_line_rx p = Some (q, g)" using scan_from_hit by blast
  then obtain b t v where m: "matches import_line_rx b t v [] g"
    using rx_match_at_Some [of import_line_rx "fst p" "snd p" q g] by auto
  show ?thesis
    using m unfolding import_line_rx_def name_rx_def cat.simps matches_Cat matches_lit matches_Grp matches_plus
      matches_Many matches_opt
    by (elim exE conjE disjE) (simp_all add: group_def)
qed

lemma imported_plain:
  assumes "imported_as cfg pkg a"
  shows "CHR ''@'' \<notin> set a" and "LF \<notin> set a"
proof -
  obtain t g where g: "(t, g) \<in> set (rx_findall import_line_rx cfg)" "group g 1 = pkg"
    "a = (if group g 2 \<noteq> [] then group g 2 else rsplit1 CHR ''/'' pkg)"
    using assms by (auto simp: imported_as_def)
  have "set (rsplit1 CHR ''/'' pkg) \<subseteq> set pkg"
    by (auto simp: rsplit1_def dest: set_takeWhileD)
  then have "set a \<subseteq> {c. alnum c \<or> c = CHR ''/'' \<or> c = CHR ''-''}"
    using g import_groups [OF g(1)] by (auto simp: list_all_iff split: if_splits)
  then show "CHR ''@'' \<notin> set a" "LF \<notin> set a" using alnum_marks by auto
qed

lemma alias_of_imported:
  "a \<in> set (List.map_filter (alias_of pkg \<circ> snd) (rx_findall import_line_rx cfg)) \<longleftrightarrow> imported_as cfg pkg a"
  by (force simp: imported_as_def alias_of_def map_filter_def split: if_splits)

section \<open>What is reported\<close>

lemma reads_audit [reads_rules]:
  "reads_only (package_dirs E d)" "reads_only (public_names d)" "reads_only (aliases_for pkg imp)"
  "reads_only (sources_text E d)" "reads_only (importer_uses E d imp)" "reads_only (audit_package E imps d)"
  unfolding package_dirs_def public_names_def aliases_for_def sources_text_def importer_uses_def audit_package_def
  by (intro reads_rules)+

text \<open>The packages of the library, and all that could import one.\<close>

definition lib_packages :: "env \<Rightarrow> world \<Rightarrow> path set" where
  "lib_packages E w = {parent p | p. p \<in> set (walk E (disk w)) \<and> under (lib E) p \<and> basename p = ''moon.pkg''}"

definition all_importers :: "env \<Rightarrow> world \<Rightarrow> path set" where
  "all_importers E w = {parent p | p r. p \<in> set (walk E (disk w)) \<and> r \<in> set (source_roots E)
     \<and> under r p \<and> basename p = ''moon.pkg''}"

text \<open>The names a package promises, and whether an importer refers to one of them.\<close>

definition promised :: "world \<Rightarrow> path \<Rightarrow> str set" where
  "promised w d = {x. \<exists>line \<in> set (splitlines (text_at w (joinp d ''pkg.generated.mbti''))).
     promises_fn line x \<or> promises_item item_keywords line x}"

definition source_files :: "env \<Rightarrow> world \<Rightarrow> path \<Rightarrow> path set" where
  "source_files E w d = {p \<in> set (walk E (disk w)). under d p \<and> CHR ''/'' \<notin> set (drop (length d + 1) p)
     \<and> endswith p ''.mbt''}"

definition refers :: "env \<Rightarrow> world \<Rightarrow> path \<Rightarrow> path \<Rightarrow> str \<Rightarrow> bool" where
  "refers E w d imp x \<longleftrightarrow> imp \<noteq> d \<and>
     (let imports = imported_as (text_at w (joinp imp ''moon.pkg'')) (pkg_import_path E d)
      in (\<exists>a. imports a) \<and> (\<exists>p \<in> source_files E w imp.
           (\<exists>a. imports a \<and> spells (text_at w p) a x) \<or> calls_method (text_at w p) x))"

definition unused_names :: "env \<Rightarrow> world \<Rightarrow> path \<Rightarrow> str set" where
  "unused_names E w d = {x \<in> promised w d. \<not> (\<exists>imp \<in> all_importers E w. refers E w d imp x)}"

definition expected_row :: "env \<Rightarrow> world \<Rightarrow> path \<Rightarrow> row" where
  "expected_row E w d = (short_name E d, card (promised w d), sorted_list_of_set (unused_names E w d))"

lemma promised_value:
  assumes "fst (public_names d w) = Inr names"
  shows "set names = promised w d" and "distinct names"
proof -
  let ?p = "joinp d ''pkg.generated.mbti''"
  have names: "names = remdups (List.map_filter name_of_line (splitlines (text_at w ?p)))"
  proof (cases "disk w ?p")
    case None
    then have "names = []" using assms by (simp add: public_names_def bindio_def exists_file_def)
    then show ?thesis using None by (simp add: text_at_def map_filter_simps)
  next
    case (Some b)
    then obtain s w1 where s: "read_text ?p w = (Inr s, w1)"
      and n: "names = remdups (List.map_filter name_of_line (splitlines s))"
      using run_eq [OF assms] by (auto simp: public_names_def bindio_Inr_iff exists_file_def)
    show ?thesis unfolding n using text_read [of ?p w s] s by simp
  qed
  have "set names = {x. \<exists>line \<in> set (splitlines (text_at w ?p)). name_of_line line = Some x}"
    unfolding names map_filter_def by force
  then show "set names = promised w d" by (simp only: name_of_line_exact promised_def)
  show "distinct names" unfolding names by (rule distinct_remdups)
qed

lemma aliases_value:
  assumes "fst (aliases_for pkg imp w) = Inr names"
  shows "a \<in> set names \<longleftrightarrow> imported_as (text_at w (joinp imp ''moon.pkg'')) pkg a"
proof -
  let ?p = "joinp imp ''moon.pkg''"
  have names: "names = remdups (List.map_filter (alias_of pkg \<circ> snd) (rx_findall import_line_rx (text_at w ?p)))"
  proof (cases "disk w ?p")
    case None
    moreover have "rx_findall import_line_rx [] = []" by code_simp
    ultimately show ?thesis using assms
      by (simp add: aliases_for_def bindio_def exists_file_def text_at_def map_filter_simps)
  next
    case (Some b)
    then obtain s w1 where s: "read_text ?p w = (Inr s, w1)"
      and n: "names = remdups (List.map_filter (alias_of pkg \<circ> snd) (rx_findall import_line_rx s))"
      using run_eq [OF assms] by (auto simp: aliases_for_def bindio_Inr_iff exists_file_def)
    show ?thesis unfolding n using text_read [of ?p w s] s by simp
  qed
  show ?thesis unfolding names set_remdups by (rule alias_of_imported)
qed

lemma sources_value:
  assumes "fst (sources_text E imp w) = Inr src"
  shows "\<exists>ts. src = join [LF] ts \<and> set ts = text_at w ` source_files E w imp"
proof -
  let ?fs = "filter (\<lambda>p. under imp p \<and> CHR ''/'' \<notin> set (drop (length imp + 1) p) \<and> endswith p ''.mbt'') (walk E (disk w))"
  obtain ts w1 where ts: "mapio read_text ?fs w = (Inr ts, w1)" and t: "src = join [LF] ts"
    using run_eq [OF assms] by (auto simp: sources_text_def bindio_Inr_iff)
  have "list_all2 (\<lambda>p s. s = text_at w p) ?fs ts"
    by (rule list_all2_mono [OF mapio_reads [OF reads_text ts]]) (simp add: text_read)
  then have "ts = map (text_at w) ?fs" by (simp only: list_all2_function)
  then show ?thesis using t by (auto simp: source_files_def)
qed

text \<open>What one importer is found to use is what it refers to.\<close>

lemma uses_value:
  assumes "fst (importer_uses E d imp w) = Inr used"
  shows "x \<in> set used \<longleftrightarrow> refers E w d imp x"
proof (cases "imp = d")
  case True
  then show ?thesis using assms by (simp add: importer_uses_def refers_def)
next
  case False
  let ?imports = "imported_as (text_at w (joinp imp ''moon.pkg'')) (pkg_import_path E d)"
  obtain names w1 where as: "aliases_for (pkg_import_path E d) imp w = (Inr names, w1)"
    and rest: "(if names = [] then ret [] else bindio (sources_text E imp) (\<lambda>src. ret (uses_in names src))) w1
      = (Inr used, snd (importer_uses E d imp w))"
    using run_eq [OF assms] False by (auto simp: importer_uses_def bindio_Inr_iff simp del: io_simps)
  have w1: "w1 = w" by (rule reads_step [OF reads_audit(3) as])
  have mem: "a \<in> set names \<longleftrightarrow> ?imports a" for a using aliases_value as by simp
  show ?thesis
  proof (cases "names = []")
    case True
    then have "used = []" using rest by simp
    moreover have "\<not> ?imports a" for a using mem [of a] True by simp
    ultimately show ?thesis by (simp add: refers_def)
  next
    case ne: False
    then obtain src w2 where s: "sources_text E imp w = (Inr src, w2)" and u: "used = uses_in names src"
      using rest w1 by (auto simp: bindio_Inr_iff)
    obtain ts where ts: "src = join [LF] ts" "set ts = text_at w ` source_files E w imp"
      using sources_value [of E imp w src] s by auto
    have al: "x \<in> set (first_groups (alias_use_rx a) src) \<longleftrightarrow> (\<exists>t \<in> set ts. spells t a x)" if "a \<in> set names" for a
      using alias_use_exact [of a x src] spells_join [of a ts x] imported_plain mem that unfolding ts(1) by blast
    have me: "x \<in> set (first_groups method_use_rx src) \<longleftrightarrow> (\<exists>t \<in> set ts. calls_method t x)"
      unfolding method_use_exact ts(1) by (rule calls_method_join)
    have "x \<in> set used \<longleftrightarrow> (\<exists>a \<in> set names. \<exists>t \<in> set ts. spells t a x) \<or> (\<exists>t \<in> set ts. calls_method t x)"
      unfolding u uses_in_def using al me by auto
    moreover have "\<exists>a. ?imports a" using mem ne by (cases names) auto
    ultimately show ?thesis unfolding refers_def Let_def ts(2) using False mem by auto
  qed
qed

lemma importers_found:
  assumes "mapio (package_dirs E) (source_roots E) w = (Inr dirs, w')"
  shows "set (concat dirs) = all_importers E w"
proof -
  have "list_all2 (\<lambda>r ps. ps = map parent (filter (\<lambda>p. under r p \<and> basename p = ''moon.pkg'') (walk E (disk w))))
      (source_roots E) dirs"
    by (rule list_all2_mono [OF mapio_reads [OF _ assms]]) (auto simp: package_dirs_def reads_audit)
  then have "dirs = map (\<lambda>r. map parent (filter (\<lambda>p. under r p \<and> basename p = ''moon.pkg'') (walk E (disk w)))) (source_roots E)"
    by (simp only: list_all2_function)
  then show ?thesis by (auto simp: all_importers_def)
qed

lemma audit_package_row:
  assumes "fst (audit_package E imps d w) = Inr rs" and "set imps = all_importers E w"
  shows "rs = (if promised w d = {} then [] else [expected_row E w d])"
proof -
  obtain names w1 where n: "public_names d w = (Inr names, w1)"
    using run_eq [OF assms(1)] by (auto simp: audit_package_def bindio_Inr_iff)
  have w1: "w1 = w" by (rule reads_step [OF reads_audit(2) n])
  have v: "set names = promised w d" "distinct names" using promised_value [of d w names] n by simp_all
  show ?thesis
  proof (cases "names = []")
    case True
    then show ?thesis using assms(1) n v by (auto simp: audit_package_def bindio_def)
  next
    case False
    then obtain used w2 where u: "mapio (importer_uses E d) imps w = (Inr used, w2)"
      and r: "rs = [(short_name E d, length names, sorted_set (filter (\<lambda>x. x \<notin> set (concat used)) names))]"
      using run_eq [OF assms(1)] n w1 by (auto simp: audit_package_def bindio_Inr_iff)
    have "list_all2 (\<lambda>imp us. \<forall>x. x \<in> set us \<longleftrightarrow> refers E w d imp x) imps used"
      by (rule list_all2_mono [OF mapio_reads [OF reads_audit(5) u]]) (simp add: uses_value)
    then have "set (concat used) = {x. \<exists>imp \<in> set imps. refers E w d imp x}"
      by (induction rule: list_all2_induct) auto
    then have "set (filter (\<lambda>x. x \<notin> set (concat used)) names) = unused_names E w d"
      using assms(2) v by (auto simp: unused_names_def)
    then have "sorted_set (filter (\<lambda>x. x \<notin> set (concat used)) names) = sorted_list_of_set (unused_names E w d)"
      by (metis sorted_list_of_set.idem_if_sorted_distinct set_sorted_set sorted_set_sorted)
    moreover have "length names = card (promised w d)" using v distinct_card by metis
    moreover have "promised w d \<noteq> {}" using v(1) False by auto
    ultimately show ?thesis using r by (simp add: expected_row_def)
  qed
qed

lemma set_rows: "set (concat (map (\<lambda>d. if P d then [] else [f d]) ds)) = f ` {d \<in> set ds. \<not> P d}"
  by (induction ds) auto

section \<open>Properties\<close>

text \<open>
  C12: the audit has one row for every package of the library that promises a name, and lists
  exactly the promised names that no other package of the workspace refers to, the packages with
  most of them first.  A package promises the names its \<open>.mbti\<close> declares \<open>pub\<close>.  Another package
  refers to a name when it imports the package and, in one of its sources, writes the name after
  what it calls the package, or calls it as a method.
\<close>

theorem audit_exact:
  assumes "fst (audit_rows E None w) = Inr rows"
  shows "set rows = expected_row E w ` {d \<in> lib_packages E w. promised w d \<noteq> {}}
    \<and> sorted_wrt (\<lambda>r s. length (snd (snd s)) \<le> length (snd (snd r))) rows"
proof -
  obtain dirs w1 rs w2 where
    i: "mapio (package_dirs E) (source_roots E) w = (Inr dirs, w1)"
    and r: "mapio (audit_package E (concat dirs)) (sort_key (split_on ''/'')
        (map parent (filter (\<lambda>p. under (lib E) p \<and> basename p = ''moon.pkg'') (walk E (disk w))))) w1 = (Inr rs, w2)"
    and rows: "rows = sort_key (\<lambda>(_, _, u). - int (length u)) (concat rs)"
    using run_eq [OF assms] by (auto simp: audit_rows_def bindio_Inr_iff package_dirs_def)
  define ds where "ds = sort_key (split_on ''/'')
        (map parent (filter (\<lambda>p. under (lib E) p \<and> basename p = ''moon.pkg'') (walk E (disk w))))"
  have "reads_only (mapio (package_dirs E) (source_roots E))" by (intro reads_rules)
  then have "snd (mapio (package_dirs E) (source_roots E) w) = w" by (simp only: reads_only_def)
  then have w1: "w1 = w" by (simp add: i)
  have "list_all2 (\<lambda>d x. x = (if promised w d = {} then [] else [expected_row E w d])) ds rs"
    by (rule list_all2_mono [OF mapio_reads [OF reads_audit(6) r [unfolded w1, folded ds_def]]])
      (rule audit_package_row [OF _ importers_found [OF i]])
  then have "rs = map (\<lambda>d. if promised w d = {} then [] else [expected_row E w d]) ds"
    by (simp only: list_all2_function)
  moreover have "set ds = lib_packages E w" by (auto simp: ds_def lib_packages_def)
  ultimately have "set rows = expected_row E w ` {d \<in> lib_packages E w. promised w d \<noteq> {}}"
    by (simp only: rows set_sort set_rows)
  moreover have "sorted_wrt (\<lambda>r s. length (snd (snd s)) \<le> length (snd (snd r))) rows"
    using sorted_sort_key [of "\<lambda>(_, _, u). - int (length u)" "concat rs"]
    by (simp add: rows sorted_map case_prod_beta)
  ultimately show ?thesis by blast
qed

definition audit_env :: env where
  "audit_env = demo_env\<lparr>walk := (\<lambda>m. filter (\<lambda>p. m p \<noteq> None) [''/lib/a/moon.pkg'', ''/cli/moon.pkg'', ''/cli/m.mbt''])\<rparr>"

definition audit_world :: world where
  "audit_world = \<lparr>disk = map_of
     [(''/lib/a/moon.pkg'', []),
      (''/lib/a/pkg.generated.mbti'', ''pub fn f(Int) -> Int'' @ [LF] @ ''pub struct T {'' @ [LF] @ ''pub fn T::g(T)'' @ [LF]),
      (''/cli/moon.pkg'', [DQ] @ ''marianoguerra/wax/a'' @ [DQ]), (''/cli/m.mbt'', ''let x = @a.f(1)'')],
     corpus = ''c'', golden = ''g'', span_exempt = []\<rparr>"

lemma audit_demo: "fst (audit_rows audit_env None audit_world) = Inr [(''a'', 3, [''T'', ''g''])]"
  by code_simp

theorem audit_exact_witness:
  "(''a'', 3, [''T'', ''g'']) \<in> expected_row audit_env audit_world `
     {d \<in> lib_packages audit_env audit_world. promised audit_world d \<noteq> {}}"
proof -
  have "(''a'', 3, [''T'', ''g'']) \<in> set [(''a'', 3 :: nat, [''T'', ''g''])]" by simp
  then show ?thesis using audit_exact [OF audit_demo] by (simp only:)
qed

end
