(* ===== verification/Stdlib_Gen.thy ===== *)
theory Stdlib_Gen
  imports Oracles Paths Lines
begin

text \<open>
  \<open>tools/gen-stdlib-test.py\<close>: the test file that embeds the sources of \<open>stdlib-wap/\<close> as string
  literals and compiles each of them.  The theorem reads the generated file back, line by line,
  and finds the sources.
\<close>

section \<open>The assertions\<close>

definition has :: "str \<Rightarrow> str" where
  \<comment> \<open>\<open>w.contains("...")\<close>\<close>
  "has s = ''w.contains('' @ dquoted s @ '')''"

definition exported :: "str \<Rightarrow> str" where
  \<comment> \<open>a name between escaped quotes\<close>
  "exported s = [BSL, DQ] @ s @ [BSL, DQ]"

definition assertions :: "(str, (str \<times> str option) list) dict" where
  "assertions =
   [(''collections.hashing'',
      [(has ''$hashing__mix_i32'', Some ''The module supplies the prefix the .wax file writes by hand.''),
       (has ''i32.shr_u'', Some (code_span ''u32'' @ '' chose the logical shift with no '' @ code_span ''>>u'' @ '' in the source.'')),
       (has ''i32.rotl'', None),
       (has ''array.get_u'', None)]),
    (''collections.persistent_vector'',
      [(has ''$persistent_vector__push'', None),
       (has (exported ''pv_empty''), Some ''The wasm export name is an ABI and is left alone.'')]),
    (''collections.persistent_hash_map'',
      [(has ''$persistent_hash_map__node_assoc'', None),
       (has ''i32.popcnt'', None),
       (''!'' @ has ''ref.cast (ref $persistent_hash_map__visit)'',
         Some (''A callback reaches '' @ code_span ''each'' @ '' without a cast; see the rec-group tests.''))]),
    (''collections.persistent_hash_set'',
      [(has ''$persistent_hash_set__union'', Some ''The set reaches the map by name rather than by concatenation.''),
       (has ''$persistent_hash_map__assoc'', None)]),
    (''collections.example'', [(has (exported ''collections_example''), None)]),
    (''text.utf8'',
      [(has ''$utf8__validate'', None),
       (has ''$hashing__bytes_value'', Some (''The hash is the one from '' @ code_span ''collections.hashing'' @ '', not a copy of it.''))]),
    (''data.immutable_value'',
      [(has ''$jv__equal'', Some (''The module is called '' @ code_span ''jv'' @ '', not the file it lives in.'')),
       (has ''$jv__record_equal'', Some (''The three functions that close the loop with '' @ code_span ''data/record'' @ '' live here.'')),
       (has ''$persistent_hash_map__assoc'', None)]),
    (''data.record'', [(has ''$record__type_create'', None)]),
    (''data.example'', [(has (exported ''immutable_data_example''), None)])]"

section \<open>Modules and literals\<close>

definition stdlib_src :: "env \<Rightarrow> path" where
  "stdlib_src E = joinp (root E) ''stdlib-wap''"

definition stdlib_out :: "env \<Rightarrow> path" where
  "stdlib_out E = joinp (root E) ''wap/stdlib_test.mbt''"

definition dotted :: "path \<Rightarrow> str" where
  \<comment> \<open>\<open>".".join(rel.with_suffix("").parts)\<close>\<close>
  "dotted rel = join ''.'' (butlast (split_on ''/'' rel) @ [py_stem rel])"

definition module_paths :: "env \<Rightarrow> (str \<times> path) list io" where
  "module_paths E =
     bindio (rglob E (stdlib_src E) ''.wap'') (\<lambda>ps.
       lift (mapr (\<lambda>p. bindr (relative_to (stdlib_src E) p) (\<lambda>rel. Inr (dotted rel, p))) ps))"

definition ident :: "str \<Rightarrow> str" where
  "ident path = replace ''.'' ''_'' path @ ''_wap''"

definition body_lines :: "str \<Rightarrow> str list" where
  "body_lines s = (let body = split_on [LF] s in
     if body \<noteq> [] \<and> last body = [] then butlast body else body)"

definition literal_lines :: "str \<Rightarrow> str \<Rightarrow> str list" where
  "literal_lines name s =
     [''///|'', ''let '' @ name @ '' : String =''] @ map (\<lambda>l. ''  #|'' @ l) (body_lines s)"

definition literal :: "str \<Rightarrow> str \<Rightarrow> str" where
  "literal name s = join [LF] (literal_lines name s)"

section \<open>The generated file\<close>

definition preamble :: "str list" where
  "preamble =
     [''// Generated by tools/gen-stdlib-test.py from stdlib-wap/. DO NOT EDIT.'',
      ''//'',
      ''// The ported Wax standard library, compiled as the wap module's own'',
      ''// regression suite. '' @ code_span ''just wap-stdlib'' @ '' compiles the same sources from disk'',
      ''// through a filesystem loader; this is the copy that runs where there is no'',
      ''// filesystem, which is every backend but native.'',
      []]"

definition loader_parts :: "str list \<Rightarrow> str list" where
  "loader_parts paths =
     [''///|'',
      ''/// Every ported module, under the path its importers name it by.'',
      ''fn stdlib_loader() -> @resolve.MapLoader {'',
      ''  @resolve.MapLoader::new(entries=['',
      ''    '' @ join ('','' @ [LF] @ ''    '') (map (\<lambda>p. ''('' @ dquoted p @ '', '' @ ident p @ '')'') paths) @ '','',
      ''  ])'', ''}'', []]"

definition wat_parts :: "str list" where
  "wat_parts =
     [''///|'',
      ''/// Compile one module, and everything it imports, to wat.'',
      ''fn stdlib_wat(path : String, src : String) -> String raise @compile.CompileError {'',
      ''  match @wap.compile_program_to_wat(path, src, stdlib_loader()) {'',
      ''    Ok(w) => w'',
      ''    Err(d) => {'',
      ''      let sb = StringBuilder()'',
      ''      for r in d.wap {'',
      ''        sb.write_string('' @ dquoted ''wap: '' @ '' + r.message + '' @ dquoted [BSL, CHR ''n''] @ '')'',
      ''      }'',
      ''      let sink = @diagnostic.buffer_sink(sb)'',
      ''      let theme = @diagnostic.get_theme(is_tty=false)'',
      ''      for r in d.wax {'',
      ''        @diagnostic.output_error(sink, theme, Human, Some(src), r)'',
      ''      }'',
      ''      '' @ dquoted (''FAILED'' @ [BSL, CHR ''n'']) @ '' + sb.to_string()'',
      ''    }'', ''  }'', ''}'', []]"

definition assertion_parts :: "str \<times> str option \<Rightarrow> str list" where
  "assertion_parts a = (case snd a of Some remark \<Rightarrow> if remark = [] then [] else [''  // '' @ remark] | None \<Rightarrow> [])
     @ [''  assert_true('' @ fst a @ '')'']"

definition test_line :: "str \<Rightarrow> str" where
  "test_line path = ''test '' @ dquoted (''the '' @ path @ '' stdlib module, ported to wap, compiles'') @ '' {''"

definition test_parts :: "str \<Rightarrow> str list" where
  "test_parts path =
     [''///|'', test_line path,
      ''  let w = stdlib_wat('' @ dquoted path @ '', '' @ ident path @ '')'',
      ''  if w.contains('' @ dquoted ''FAILED'' @ '') {'',
      ''    println(w)'',
      ''    fail('' @ dquoted (path @ '' did not compile'') @ '')'',
      ''  }'']
     @ concat (map assertion_parts (dget_list assertions path))
     @ [''}'', []]"

definition stdlib_parts :: "(str \<times> path) list \<Rightarrow> str list \<Rightarrow> str list" where
  "stdlib_parts mods lits =
     preamble @ concat (map (\<lambda>l. [l, []]) lits) @ loader_parts (map fst mods) @ wat_parts
     @ concat (map (test_parts \<circ> fst) mods)"

definition rstrip_lf :: "str \<Rightarrow> str" where
  "rstrip_lf s = rev (dropWhile (\<lambda>c. c = LF) (rev s))"

definition stdlib_main :: "env \<Rightarrow> str io" where
  "stdlib_main E =
     bindio (module_paths E) (\<lambda>mods.
     if mods = [] then raise (SystemExit (''gen-stdlib-test: no sources under '' @ stdlib_src E))
     else bindio (mapio (\<lambda>(path, file). bindio (read_text file) (\<lambda>s. ret (literal (ident path) s))) mods) (\<lambda>lits.
     bindio (write_text (stdlib_out E) (rstrip_lf (join [LF] (stdlib_parts mods lits)) @ [LF])) (\<lambda>_.
       ret (''gen-stdlib-test: wrote wap/stdlib_test.mbt ('' @ str_nat (length mods) @ '' modules)''))))"

section \<open>The lines of a literal\<close>

text \<open>The lines of a literal are the text without its final newline.\<close>

lemma join_body_lines: "join [LF] (body_lines s) = removesuffix s [LF]"
proof (cases "last (split_on [LF] s) = []")
  case True
  define b where "b = butlast (split_on [LF] s)"
  have sp: "split_on [LF] s = b @ [[]]"
    using True append_butlast_last_id [OF split_on_nonempty] by (metis b_def)
  then have "s = join [LF] b @ (if b = [] then [] else [LF])"
    using join_split_on [of "[LF]" s] by (cases "b = []") (auto simp: join_append)
  then show ?thesis using sp by (auto simp: body_lines_def removesuffix_def endswith_def)
next
  case False
  define l where "l = last (split_on [LF] s)"
  have "l \<in> set (split_on [LF] s)" by (simp add: l_def split_on_nonempty)
  then have "LF \<notin> set l" using split_lines_unbroken [of s] by (auto simp: list_all_iff)
  moreover obtain a where "s = a @ l"
    using join_last [OF split_on_nonempty, of "[LF]" "[LF]" s] unfolding join_split_on l_def by blast
  ultimately have "\<not> endswith s [LF]"
    using False [folded l_def] by (cases l rule: rev_cases) (auto simp: endswith_iff)
  then show ?thesis using False by (simp add: body_lines_def removesuffix_def join_split_on)
qed

section \<open>Reading the generated file back\<close>

text \<open>The string declarations of a MoonBit file, and the lines of each multi-line literal.\<close>

definition declares :: "str \<Rightarrow> bool" where
  "declares l \<longleftrightarrow> startswith l ''let '' \<and> endswith l '' : String =''"

definition declared_name :: "str \<Rightarrow> str" where
  "declared_name l = drop 4 (take (length l - 11) l)"

definition literal_line :: "str \<Rightarrow> bool" where
  "literal_line l \<longleftrightarrow> startswith l ''  #|''"

fun literals :: "str list \<Rightarrow> (str \<times> str list) list" where
  "literals [] = []"
| "literals (l # ls) = (if declares l
     then (declared_name l, map (drop 4) (takeWhile literal_line ls)) # literals ls
     else literals ls)"

lemma literals_skip: "list_all (\<lambda>l. \<not> declares l) xs \<Longrightarrow> literals (xs @ ys) = literals ys"
  by (induction xs) auto

lemma literals_block:
  "literals (literal_lines n s @ [] # rest) = (n, body_lines s) # literals rest"
proof -
  have d: "declares (''let '' @ n @ '' : String ='')" "declared_name (''let '' @ n @ '' : String ='') = n"
    by (simp_all add: declares_def declared_name_def startswith_def endswith_def)
  have nd: "\<not> declares ''///|''" "\<not> declares []" by (simp_all add: declares_def startswith_def)
  have t: "takeWhile literal_line (map (\<lambda>l. ''  #|'' @ l) ls @ [] # rest) = map (\<lambda>l. ''  #|'' @ l) ls" for ls
    by (induction ls) (simp_all add: literal_line_def startswith_def)
  have k: "literals (map (\<lambda>l. ''  #|'' @ l) ls @ [] # rest) = literals rest" for ls
    by (induction ls) (simp_all add: declares_def startswith_def)
  show ?thesis
    using d nd t [of "body_lines s"] k [of "body_lines s"] by (simp add: literal_lines_def comp_def)
qed

text \<open>The parts of the file as lines.\<close>

definition loader_lines :: "str list \<Rightarrow> str list" where
  "loader_lines paths =
     [''///|'',
      ''/// Every ported module, under the path its importers name it by.'',
      ''fn stdlib_loader() -> @resolve.MapLoader {'',
      ''  @resolve.MapLoader::new(entries=['']
     @ map (\<lambda>p. ''    ('' @ dquoted p @ '', '' @ ident p @ ''),'') paths @ [''  ])'', ''}'', []]"

definition stdlib_lines :: "(str \<times> path) list \<Rightarrow> str list \<Rightarrow> str list" where
  "stdlib_lines mods texts =
     preamble @ concat (map2 (\<lambda>m s. literal_lines (ident (fst m)) s @ [[]]) mods texts)
     @ loader_lines (map fst mods) @ wat_parts @ concat (map (test_parts \<circ> fst) mods)"

lemma entries_lines:
  "ps \<noteq> [] \<Longrightarrow> ''    '' @ join ('','' @ [LF] @ ''    '') (map (\<lambda>p. ''('' @ dquoted p @ '', '' @ ident p @ '')'') ps) @ '',''
     = join [LF] (map (\<lambda>p. ''    ('' @ dquoted p @ '', '' @ ident p @ ''),'') ps)"
  by (induction ps rule: induct_list012) auto

definition groups :: "(str \<times> path) list \<Rightarrow> str list \<Rightarrow> str list list" where
  "groups mods texts =
     map (\<lambda>l. [l]) preamble @ concat (map2 (\<lambda>m s. [literal_lines (ident (fst m)) s, [[]]]) mods texts)
     @ map (\<lambda>l. [l]) (take 4 (loader_lines []))
     @ [map (\<lambda>p. ''    ('' @ dquoted p @ '', '' @ ident p @ ''),'') (map fst mods)]
     @ map (\<lambda>l. [l]) (drop 4 (loader_lines [])) @ map (\<lambda>l. [l]) wat_parts
     @ map (\<lambda>l. [l]) (concat (map (test_parts \<circ> fst) mods))"

lemma literal_groups: "list_all2 (\<lambda>p ls. ls \<noteq> [] \<and> p = join [LF] ls)
    (concat (map (\<lambda>l. [l, []]) (map2 (\<lambda>m s. literal (ident (fst m)) s) mods texts)))
    (concat (map2 (\<lambda>m s. [literal_lines (ident (fst m)) s, [[]]]) mods texts))"
proof (induction mods texts rule: list_induct2')
  case (4 m mods s texts)
  have "literal_lines (ident (fst m)) s \<noteq> []" by (simp add: literal_lines_def)
  then show ?case using 4 by (simp add: literal_def)
qed simp_all

lemma concat_groups: "concat (groups mods texts) = stdlib_lines mods texts"
proof -
  have "concat (concat (map2 (\<lambda>m s. [literal_lines (ident (fst m)) s, [[]]]) mods texts))
      = concat (map2 (\<lambda>m s. literal_lines (ident (fst m)) s @ [[]]) mods texts)"
    by (induction mods texts rule: list_induct2') simp_all
  then show ?thesis
    by (simp add: groups_def stdlib_lines_def concat_singles loader_lines_def)
qed

lemma loader_parts_split:
  "mods \<noteq> [] \<Longrightarrow> loader_parts (map fst mods) = take 4 (loader_lines [])
     @ [join [LF] (map (\<lambda>p. ''    ('' @ dquoted p @ '', '' @ ident p @ ''),'') (map fst mods))]
     @ drop 4 (loader_lines [])"
  unfolding loader_parts_def by (subst entries_lines) (simp_all add: loader_lines_def)

lemma parts_lines:
  assumes "mods \<noteq> []"
  shows "join [LF] (stdlib_parts mods (map2 (\<lambda>m s. literal (ident (fst m)) s) mods texts))
     = join [LF] (stdlib_lines mods texts)"
  unfolding concat_groups [symmetric] groups_def stdlib_parts_def loader_parts_split [OF assms] append_assoc
  by (intro join_groups list_all2_appendI singles literal_groups) (use assms in simp)

lemma literals_stdlib_lines:
  "literals (stdlib_lines mods texts) = map2 (\<lambda>m s. (ident (fst m), body_lines s)) mods texts"
proof -
  have skip: "list_all (\<lambda>l. \<not> declares l) (loader_lines ps)" "list_all (\<lambda>l. \<not> declares l) preamble"
    "list_all (\<lambda>l. \<not> declares l) wat_parts" "list_all (\<lambda>l. \<not> declares l) (test_parts p)" for ps p
    by (auto simp: loader_lines_def preamble_def wat_parts_def test_parts_def test_line_def assertion_parts_def
        declares_def startswith_def list_all_iff code_span_def split: option.splits)
  have "list_all (\<lambda>l. \<not> declares l) (concat (map (test_parts \<circ> fst) ms))" for ms
    using skip by (induction ms) auto
  then have tl: "list_all (\<lambda>l. \<not> declares l) (loader_lines (map fst mods) @ wat_parts @ concat (map (test_parts \<circ> fst) mods))"
    using skip by simp
  have "literals (concat (map2 (\<lambda>m s. literal_lines (ident (fst m)) s @ [[]]) mods texts) @ rest)
      = map2 (\<lambda>m s. (ident (fst m), body_lines s)) mods texts" if "list_all (\<lambda>l. \<not> declares l) rest" for rest
    using literals_skip [OF that, of "[]"]
    by (induction mods texts rule: list_induct2') (simp_all add: literals_block)
  then show ?thesis using skip tl by (simp add: stdlib_lines_def literals_skip)
qed

lemma ident_no_LF: "LF \<notin> set p \<Longrightarrow> LF \<notin> set (ident p)"
  by (simp add: ident_def replace_no_LF)

lemma assertion_lines:
  "l \<in> set (concat (map assertion_parts (dget_list assertions p))) \<Longrightarrow> LF \<notin> set l \<and> \<not> startswith l ''test ''"
proof -
  have all: "list_all (\<lambda>ka. list_all (\<lambda>a. list_all (\<lambda>l. LF \<notin> set l \<and> \<not> startswith l ''test '') (assertion_parts a)) (snd ka)) assertions"
    by code_simp
  assume "l \<in> set (concat (map assertion_parts (dget_list assertions p)))"
  then obtain as a where "dget assertions p = Some as" "a \<in> set as" "l \<in> set (assertion_parts a)"
    unfolding dget_list_def by (cases "dget assertions p") auto
  then show ?thesis using all map_of_SomeD [of assertions p as] by (fastforce simp: list_all_iff)
qed

lemma body_lines_unbroken: "list_all (\<lambda>l. LF \<notin> set l) (body_lines s)"
  using split_lines_unbroken [of s] in_set_butlastD [of _ "split_on [LF] s"]
  by (simp add: body_lines_def list_all_iff Let_def)

lemma lines_unbroken:
  assumes "list_all (\<lambda>m. LF \<notin> set (fst m)) mods"
  shows "list_all (\<lambda>l. LF \<notin> set l) (stdlib_lines mods texts)"
proof -
  have lit: "list_all (\<lambda>l. LF \<notin> set l) (concat (map2 (\<lambda>m s. literal_lines (ident (fst m)) s @ [[]]) mods texts))"
    using assms
  proof (induction mods texts rule: list_induct2')
    case (4 m mods s texts)
    then show ?case using ident_no_LF [of "fst m"]
      body_lines_unbroken [of s] by (simp add: literal_lines_def list.pred_map comp_def)
  qed simp_all
  have asserts: "list_all (\<lambda>l. LF \<notin> set l) (concat (map assertion_parts (dget_list assertions p)))" for p
    by (rule list_all_iff [THEN iffD2], rule ballI) (rule assertion_lines [THEN conjunct1])
  have test: "list_all (\<lambda>l. LF \<notin> set l) (test_parts p)" if p: "LF \<notin> set p" for p
  proof -
    have "list_all (\<lambda>l. LF \<notin> set l) [''///|'', test_line p,
      ''  let w = stdlib_wat('' @ dquoted p @ '', '' @ ident p @ '')'',
      ''  if w.contains('' @ dquoted ''FAILED'' @ '') {'', ''    println(w)'',
      ''    fail('' @ dquoted (p @ '' did not compile'') @ '')'', ''  }'']"
      using p ident_no_LF [OF p] by (simp add: test_line_def dquoted_def)
    moreover have "list_all (\<lambda>l. LF \<notin> set l) [''}'', []]" by simp
    ultimately show ?thesis using asserts [of p] by (simp only: test_parts_def list_all_append)
  qed
  have "list_all (\<lambda>l. LF \<notin> set l) (concat (map (test_parts \<circ> fst) mods))"
    using assms test by (induction mods) auto
  moreover have "list_all (\<lambda>l. LF \<notin> set l) (loader_lines (map fst mods))"
    using assms ident_no_LF by (auto simp: loader_lines_def list_all_iff dquoted_def)
  ultimately show ?thesis using lit
    by (simp add: stdlib_lines_def preamble_def wat_parts_def code_span_def dquoted_def)
qed

text \<open>There is one test for every module, and no other.\<close>

lemma tests_of_lines:
  assumes "length texts = length mods"
  shows "filter (\<lambda>l. startswith l ''test '') (stdlib_lines mods texts) = map (test_line \<circ> fst) mods"
proof -
  have a: "filter (\<lambda>l. startswith l ''test '') (concat (map assertion_parts (dget_list assertions p))) = []" for p
    using assertion_lines [of _ p] by (auto simp: filter_empty_conv)
  have t: "filter (\<lambda>l. startswith l ''test '') (test_parts p) = [test_line p]" for p
    using a [of p] by (simp add: test_parts_def test_line_def startswith_def)
  have "filter (\<lambda>l. startswith l ''test '') (concat (map (test_parts \<circ> fst) ms)) = map (test_line \<circ> fst) ms" for ms
    by (induction ms) (simp_all add: t)
  moreover have "filter (\<lambda>l. startswith l ''test '') (concat (map2 (\<lambda>m s. literal_lines (ident (fst m)) s @ [[]]) mods texts)) = []"
    by (induction mods texts rule: list_induct2')
      (auto simp: literal_lines_def startswith_def filter_empty_conv)
  moreover have "filter (\<lambda>l. startswith l ''test '') (loader_lines ps) = []"
    "filter (\<lambda>l. startswith l ''test '') preamble = []" "filter (\<lambda>l. startswith l ''test '') wat_parts = []" for ps
    by (auto simp: loader_lines_def preamble_def wat_parts_def startswith_def filter_empty_conv code_span_def)
  ultimately show ?thesis by (simp add: stdlib_lines_def)
qed

lemma file_text:
  assumes "mods \<noteq> []"
  shows "rstrip_lf (join [LF] (stdlib_lines mods texts)) @ [LF] = join [LF] (stdlib_lines mods texts)"
proof -
  obtain ms m where m: "mods = ms @ [m]" using assms by (metis append_butlast_last_id)
  obtain t where "test_parts (fst m) = t @ [''}'', []]" by (simp add: test_parts_def)
  then obtain xs where xs: "stdlib_lines mods texts = xs @ [''}'', []]" "xs \<noteq> []"
    by (simp add: stdlib_lines_def m preamble_def)
  then show ?thesis by (simp add: join_append rstrip_lf_def)
qed

section \<open>Properties\<close>

lemma dotted_no_LF: "LF \<notin> set rel \<Longrightarrow> LF \<notin> set (dotted rel)"
proof -
  have j: "LF \<notin> set (join ''.'' ls)" if "list_all (\<lambda>l. LF \<notin> set l) ls" for ls
    using that by (induction ls rule: induct_list012) auto
  have "set (basename rel) \<subseteq> set rel"
    unfolding basename_def rsplit1_def using set_takeWhileD by fastforce
  then have "set (py_stem rel) \<subseteq> set rel"
    by (auto simp: py_stem_def Let_def split: option.splits dest: in_set_takeD)
  moreover assume "LF \<notin> set rel"
  moreover from this have "list_all (\<lambda>l. LF \<notin> set l) (butlast (split_on ''/'' rel))"
    using set_split_on [of _ "''/''" rel] by (auto simp: list_all_iff dest: in_set_butlastD)
  ultimately show ?thesis unfolding dotted_def by (intro j) auto
qed

lemma module_paths_spec:
  assumes "module_paths E w = (Inr mods, w')"
  shows "w' = w" "set (map snd mods) = {p \<in> set (walk E (disk w)). under (stdlib_src E) p \<and> endswith p ''.wap''}"
    "list_all (\<lambda>m. fst m = dotted (drop (length (stdlib_src E) + 1) (snd m))) mods"
proof -
  define ps where "ps = sort_key (split_on ''/'')
     (filter (\<lambda>p. under (stdlib_src E) p \<and> endswith p ''.wap'') (walk E (disk w)))"
  have m: "mapr (\<lambda>p. bindr (relative_to (stdlib_src E) p) (\<lambda>rel. Inr (dotted rel, p))) ps = Inr mods" "w' = w"
    using assms by (auto simp: module_paths_def rglob_def bindio_def ps_def)
  show "w' = w" by (rule m(2))
  have l: "list_all2 (\<lambda>p m. m = (dotted (drop (length (stdlib_src E) + 1) p), p)) ps mods"
    using m(1) unfolding mapr_Inr_iff
    by (rule list_all2_mono) (auto simp: bindr_Inr_iff relative_to_def split: if_splits)
  then have mods: "mods = map (\<lambda>p. (dotted (drop (length (stdlib_src E) + 1) p), p)) ps"
    by (simp only: list_all2_function)
  then show "set (map snd mods) = {p \<in> set (walk E (disk w)). under (stdlib_src E) p \<and> endswith p ''.wap''}"
    by (auto simp: ps_def)
  show "list_all (\<lambda>m. fst m = dotted (drop (length (stdlib_src E) + 1) (snd m))) mods"
    by (simp add: mods list_all_iff)
qed

lemma module_names:
  assumes "module_paths E w = (Inr mods, w')" and "list_all (\<lambda>p. LF \<notin> set p) (walk E (disk w))"
  shows "list_all (\<lambda>m. LF \<notin> set (fst m)) mods"
  unfolding list_all_iff
proof
  fix m assume m: "m \<in> set mods"
  then have "snd m \<in> set (map snd mods)" by simp
  then have "snd m \<in> set (walk E (disk w))" unfolding module_paths_spec(2) [OF assms(1)] by simp
  then have "LF \<notin> set (snd m)" using assms(2) by (simp add: list_all_iff)
  then have "LF \<notin> set (drop (length (stdlib_src E) + 1) (snd m))" using in_set_dropD by metis
  then have "LF \<notin> set (dotted (drop (length (stdlib_src E) + 1) (snd m)))" by (rule dotted_no_LF)
  moreover have "fst m = dotted (drop (length (stdlib_src E) + 1) (snd m))"
    using module_paths_spec(3) [OF assms(1)] m by (simp add: list_all_iff)
  ultimately show "LF \<notin> set (fst m)" by metis
qed

lemma map2_self: "map2 f xs (map g xs) = map (\<lambda>x. f x (g x)) xs"
  by (induction xs) simp_all

text \<open>
  C36: the generated test file embeds exactly the sources of the library: read back, it declares
  one string for every module in order, under the module's identifier and equal to the file's
  text without its final newline, and it has one test for every module and no other.
\<close>

theorem stdlib_embedded:
  assumes "stdlib_main E w = (Inr msg, w')" and "list_all (\<lambda>p. LF \<notin> set p) (walk E (disk w))"
  shows "\<exists>mods s. fst (module_paths E w) = Inr mods \<and> mods \<noteq> []
    \<and> set (map snd mods) = {p \<in> set (walk E (disk w)). under (stdlib_src E) p \<and> endswith p ''.wap''}
    \<and> disk w' = (disk w)(stdlib_out E \<mapsto> utf8_encode s)
    \<and> map (\<lambda>(name, ls). (name, join [LF] ls)) (literals (split_on [LF] s))
      = map (\<lambda>(path, file). (ident path, removesuffix (value_of (read_text file) w) [LF])) mods
    \<and> filter (\<lambda>l. startswith l ''test '') (split_on [LF] s) = map (test_line \<circ> fst) mods"
proof -
  obtain mods w1 lits w2 where mods: "module_paths E w = (Inr mods, w1)" "mods \<noteq> []"
    and lits: "mapio (\<lambda>(path, file). bindio (read_text file) (\<lambda>s. ret (literal (ident path) s))) mods w1 = (Inr lits, w2)"
    and out: "write_text (stdlib_out E) (rstrip_lf (join [LF] (stdlib_parts mods lits)) @ [LF]) w2 = (Inr (), w')"
    using assms(1) by (auto simp: stdlib_main_def bindio_Inr_iff split: if_splits)
  have w1: "w1 = w" by (rule module_paths_spec(1) [OF mods(1)])
  have ro: "reads_only ((\<lambda>(path, file). bindio (read_text file) (\<lambda>s. ret (literal (ident path) s))) m)" for m
    by (cases m) (simp only: case_prod_conv, intro reads_rules)
  have w2: "w2 = w" by (rule reads_step [OF reads_mapio [OF ro] lits [unfolded w1]])
  define texts where "texts = map (\<lambda>m. value_of (read_text (snd m)) w) mods"
  have "list_all2 (\<lambda>m l. l = literal (ident (fst m)) (value_of (read_text (snd m)) w)) mods lits"
    by (rule list_all2_mono [OF mapio_reads [OF ro lits [unfolded w1]]])
      (auto simp: bindio_def value_of_def split: prod.splits sum.splits)
  then have l: "lits = map2 (\<lambda>m s. literal (ident (fst m)) s) mods texts"
    unfolding list_all2_function texts_def by (simp add: map2_self)
  define s where "s = join [LF] (stdlib_lines mods texts)"
  have s: "rstrip_lf (join [LF] (stdlib_parts mods lits)) @ [LF] = s"
    unfolding l parts_lines [OF mods(2)] s_def by (rule file_text [OF mods(2)])
  note module_names [OF mods(1) assms(2)]
  then have lines: "split_on [LF] s = stdlib_lines mods texts"
    unfolding s_def by (intro split_join_lines lines_unbroken) (simp add: stdlib_lines_def preamble_def)
  have "map (\<lambda>(name, ls). (name, join [LF] ls)) (literals (split_on [LF] s))
      = map (\<lambda>(path, file). (ident path, removesuffix (value_of (read_text file) w) [LF])) mods"
    unfolding lines literals_stdlib_lines texts_def
    by (simp add: map2_self join_body_lines case_prod_beta)
  moreover have "filter (\<lambda>l. startswith l ''test '') (split_on [LF] s) = map (test_line \<circ> fst) mods"
    unfolding lines by (rule tests_of_lines) (simp add: texts_def)
  moreover have "disk w' = (disk w)(stdlib_out E \<mapsto> utf8_encode s)"
    using out unfolding s w2 by (auto simp: write_text_def write_bytes_def set_disk_def)
  moreover have "fst (module_paths E w) = Inr mods" by (simp only: mods(1) fst_conv)
  ultimately show ?thesis using mods(2) module_paths_spec(2) [OF mods(1)]
    by (intro exI [of _ mods] exI [of _ s] conjI)
qed

definition stdlib_env :: env where
  "stdlib_env = demo_env\<lparr>walk := (\<lambda>m. filter (\<lambda>p. m p \<noteq> None) [''/stdlib-wap/a.wap'', ''/stdlib-wap/text/u8.wap''])\<rparr>"

definition stdlib_world :: world where
  "stdlib_world = \<lparr>disk = map_of [(''/stdlib-wap/a.wap'', ''module a'' @ [LF]), (''/stdlib-wap/text/u8.wap'', ''x'' @ [LF, LF] @ ''y'')],
     corpus = ''c'', golden = ''g'', span_exempt = []\<rparr>"

lemma stdlib_demo: "fst (stdlib_main stdlib_env stdlib_world) = Inr ''gen-stdlib-test: wrote wap/stdlib_test.mbt (2 modules)''"
  by code_simp

lemma stdlib_demo_modules: "fst (module_paths stdlib_env stdlib_world) = Inr [(''a'', ''/stdlib-wap/a.wap''), (''text.u8'', ''/stdlib-wap/text/u8.wap'')]"
  by code_simp

lemma stdlib_demo_texts:
  "map (\<lambda>(path, file). (ident path, removesuffix (value_of (read_text file) stdlib_world) [LF]))
     [(''a'', ''/stdlib-wap/a.wap''), (''text.u8'', ''/stdlib-wap/text/u8.wap'')]
   = [(''a_wap'', ''module a''), (''text_u8_wap'', ''x'' @ [LF, LF] @ ''y'')]"
  by code_simp

theorem stdlib_embedded_witness:
  "\<exists>s. disk (snd (stdlib_main stdlib_env stdlib_world)) (stdlib_out stdlib_env) = Some (utf8_encode s)
     \<and> map (\<lambda>(name, ls). (name, join [LF] ls)) (literals (split_on [LF] s))
       = [(''a_wap'', ''module a''), (''text_u8_wap'', ''x'' @ [LF, LF] @ ''y'')]"
proof -
  have "list_all (\<lambda>p. LF \<notin> set p) (walk stdlib_env (disk stdlib_world))" by code_simp
  from stdlib_embedded [OF run_eq [OF stdlib_demo] this] stdlib_demo_modules stdlib_demo_texts
  show ?thesis by (elim exE conjE) (rule exI, auto)
qed

end
