(* ===== verification/Wisp_Gen.thy ===== *)
theory Wisp_Gen
  imports Oracles Paths Lines Py_Regex
begin

text \<open>
  \<open>tools/gen-wisp-runtime.py\<close>: the trusted runtime of wisp as three string literals, and the
  \<open>--check\<close> mode that compares the file on disk with what would be generated.
\<close>

section \<open>The embedded sources\<close>

definition embed_lines :: "str \<Rightarrow> str" where
  \<comment> \<open>\<open>"\n".join("  #|" + line for line in s.splitlines()) + "\n"\<close>\<close>
  "embed_lines s = join [LF] (map (\<lambda>l. ''  #|'' @ l) (splitlines s)) @ [LF]"

definition persistent_half :: "str \<Rightarrow> str" where
  "persistent_half s = hd (split_on ''pub type transient ='' s)"

definition const_rx :: rx where
  \<comment> \<open>\<open>^const (\w+) = (\d+)$\<close> with \<open>re.M\<close>\<close>
  "const_rx = cat [BolM, lit ''const '', Grp 1 (plus (CharIf is_word)), lit '' = '',
     Grp 2 (plus (CharIf is_digit)), NotAhead (CharIf (\<lambda>c. c \<noteq> LF))]"

definition const_line_rx :: "str \<Rightarrow> rx" where
  "const_line_rx name = cat [BolM, lit ''const '', lit name, lit '' = '', plus (CharIf is_digit), lit [LF]]"

definition word_rx :: "str \<Rightarrow> rx" where
  "word_rx name = cat [WordB, lit name, WordB]"

definition export_rx :: rx where
  "export_rx = cat [lit (''export '' @ [DQ]), plus (none_of [DQ]), lit ([DQ] @ '' '')]"

definition inline_const :: "str \<times> str \<Rightarrow> str \<Rightarrow> str" where
  "inline_const nv vector =
     rx_sub (word_rx (fst nv)) (snd nv) (rx_sub (const_line_rx (fst nv)) [] vector)"

definition consts_of :: "str \<Rightarrow> (str \<times> str) list" where
  "consts_of vector = map (\<lambda>(_, g). (group g 1, group g 2)) (rx_findall const_rx vector)"

definition inline_consts :: "str \<Rightarrow> str" where
  "inline_consts vector = fold inline_const (consts_of vector) vector"

definition drop_exports :: "str \<Rightarrow> str" where
  "drop_exports s = rx_sub export_rx [] s"

definition vector_source :: "str \<Rightarrow> str" where
  "vector_source s = drop_exports (inline_consts (persistent_half s))"

definition hamt_source :: "str \<Rightarrow> str" where
  "hamt_source s = drop_exports (persistent_half s)"

section \<open>Generating and checking\<close>

definition runtime_text :: "str \<Rightarrow> str \<Rightarrow> str \<Rightarrow> str" where
  "runtime_text source vector hamt =
     ''// Generated by tools/gen-wisp-runtime.py; edit runtime.wap.'' @ [LF] @ ''///|'' @ [LF]
     @ ''let runtime_source : String ='' @ [LF] @ embed_lines source
     @ [LF] @ ''///|'' @ [LF] @ ''let vector_source : String ='' @ [LF] @ embed_lines (vector_source vector)
     @ [LF] @ ''///|'' @ [LF] @ ''let map_source : String ='' @ [LF] @ embed_lines (hamt_source hamt)"

definition generated :: "env \<Rightarrow> str io" where
  "generated E =
     bindio (read_text (joinp (root E) ''wisp/runtime.wap'')) (\<lambda>source.
     bindio (read_text (joinp (root E) ''stdlib-wap/collections/persistent_vector.wap'')) (\<lambda>vector.
     bindio (read_text (joinp (root E) ''stdlib-wap/collections/persistent_hash_map.wap'')) (\<lambda>hamt.
       ret (runtime_text source vector hamt))))"

definition runtime_target :: "env \<Rightarrow> path" where
  "runtime_target E = joinp (root E) ''wisp/runtime_generated.mbt''"

definition stale :: "unit io" where
  "stale = raise (SystemExit ''wisp runtime embed is stale'')"

definition wisp_main :: "env \<Rightarrow> bool \<Rightarrow> unit io" where
  "wisp_main E check =
     bindio (generated E) (\<lambda>g.
     if check
     then bindio (exists_file (runtime_target E)) (\<lambda>there.
          if \<not> there then stale
          else bindio (read_text (runtime_target E)) (\<lambda>s. if s \<noteq> g then stale else ret ()))
     else write_text (runtime_target E) g)"

section \<open>What is written reads back\<close>

lemma CR_breaks: "is_linebreak CR"
  by code_simp

lemma join_no_CR: "CR \<notin> set sep \<Longrightarrow> list_all (\<lambda>l. CR \<notin> set l) ls \<Longrightarrow> CR \<notin> set (join sep ls)"
  by (induction ls rule: induct_list012) simp_all

lemma embed_no_CR: "CR \<notin> set (embed_lines s)"
proof -
  have "list_all (\<lambda>l. CR \<notin> set l) (splitlines s)"
    using splitlines_unbroken_lines [of s] CR_breaks by (auto simp: list_all_iff)
  then have "list_all (\<lambda>l. CR \<notin> set l) (map (\<lambda>l. ''  #|'' @ l) (splitlines s))"
    by (simp add: list.pred_map comp_def)
  then show ?thesis by (simp add: embed_lines_def join_no_CR)
qed

lemma runtime_no_CR: "CR \<notin> set (runtime_text source vector hamt)"
  by (simp add: runtime_text_def embed_no_CR)

lemma reads_generated [reads_rules]: "reads_only (generated E)"
  unfolding generated_def by (intro reads_rules)

lemma generated_no_CR: "ensures (generated E) (\<lambda>g. CR \<notin> set g)"
  unfolding generated_def by (intro ensures_rules runtime_no_CR)

lemma target_not_source:
  "runtime_target E \<noteq> joinp (root E) ''wisp/runtime.wap''"
  "runtime_target E \<noteq> joinp (root E) ''stdlib-wap/collections/persistent_vector.wap''"
  "runtime_target E \<noteq> joinp (root E) ''stdlib-wap/collections/persistent_hash_map.wap''"
  by (simp_all add: runtime_target_def joinp_def)

lemma read_text_disk: "disk v p = disk w p \<Longrightarrow> fst (read_text p v) = fst (read_text p w)"
  by (auto simp: read_text_def read_bytes_def bindio_def split: option.splits sum.splits)

text \<open>Writing the target changes none of the sources.\<close>

lemma generated_after_write:
  assumes "fst (generated E w) = Inr g"
  shows "fst (generated E (w\<lparr>disk := (disk w)(runtime_target E \<mapsto> b)\<rparr>)) = Inr g"
proof -
  define v where "v = w\<lparr>disk := (disk w)(runtime_target E \<mapsto> b)\<rparr>"
  have same: "fst (read_text p v) = fst (read_text p w)" if "runtime_target E \<noteq> p" for p
    by (rule read_text_disk) (use that in \<open>simp add: v_def\<close>)
  have step: "fst (bindio (read_text p) f u) = (case fst (read_text p u) of Inl e \<Rightarrow> Inl e | Inr s \<Rightarrow> fst (f s u))"
    for p u and f :: "str \<Rightarrow> str io"
    using reads_step [OF reads_text, of p u] by (cases "read_text p u") (auto simp: bindio_def split: sum.split)
  show ?thesis using assms unfolding v_def [symmetric] generated_def step same [OF target_not_source(1)]
      same [OF target_not_source(2)] same [OF target_not_source(3)]
    by (simp split: sum.splits)
qed

text \<open>
  C37: regenerating makes the check pass, whatever the sources hold; the check itself never
  writes, and it passes exactly when the file reads back as what would be generated.
\<close>

theorem wisp_check_after_write:
  assumes "fst (generated E w) = Inr g"
  shows "fst (wisp_main E False w) = Inr ()
    \<and> disk (snd (wisp_main E False w)) = (disk w)(runtime_target E \<mapsto> utf8_encode g)
    \<and> fst (wisp_main E True (snd (wisp_main E False w))) = Inr ()
    \<and> reads_only (wisp_main E True)
    \<and> (fst (wisp_main E True w) = Inr () \<longleftrightarrow> fst (read_text (runtime_target E) w) = Inr g)"
proof -
  have g: "generated E w = (Inr g, w)"
    using run_eq [OF assms] reads_step [OF reads_generated] by metis
  define v where "v = w\<lparr>disk := (disk w)(runtime_target E \<mapsto> utf8_encode g)\<rparr>"
  have w: "wisp_main E False w = (Inr (), v)"
    by (simp add: wisp_main_def bindio_def g write_text_def write_bytes_def set_disk_def v_def)
  have gv: "generated E v = (Inr g, v)"
    using run_eq [OF generated_after_write [OF assms, of "utf8_encode g", folded v_def]]
      reads_step [OF reads_generated] by metis
  have check: "fst (wisp_main E True u) = Inr () \<longleftrightarrow> fst (read_text (runtime_target E) u) = Inr g"
    if "generated E u = (Inr g, u)" for u
    using read_text_world [of "runtime_target E" u]
    by (cases "read_text (runtime_target E) u")
      (auto simp: wisp_main_def that bindio_def stale_def exists_file_def
        read_text_def read_bytes_def split: sum.splits option.splits)
  have "read_text (runtime_target E) v = (Inr g, v)"
    using ensuresD [OF generated_no_CR g]
    by (simp add: read_text_def read_bytes_def bindio_def v_def universal_newlines_id)
  then have "fst (wisp_main E True v) = Inr ()" using check [OF gv] by simp
  moreover have "reads_only (wisp_main E True)"
    unfolding wisp_main_def stale_def if_True by (intro reads_rules)
  ultimately show ?thesis using check [OF g] by (simp add: w v_def)
qed

definition wisp_world :: world where
  "wisp_world = \<lparr>disk = map_of
     [(''/wisp/runtime.wap'', ''r'' @ [CR, LF]),
      (''/stdlib-wap/collections/persistent_vector.wap'',
        ''const w = 5'' @ [LF] @ ''export '' @ [DQ] @ ''f'' @ [DQ] @ '' w+wm'' @ [LF] @ ''pub type transient =''),
      (''/stdlib-wap/collections/persistent_hash_map.wap'', ''h'')],
     corpus = ''c'', golden = ''g'', span_exempt = []\<rparr>"

lemma wisp_demo: "fst (generated demo_env wisp_world) = Inr
   (''// Generated by tools/gen-wisp-runtime.py; edit runtime.wap.'' @ [LF] @ ''///|'' @ [LF]
    @ ''let runtime_source : String ='' @ [LF] @ ''  #|r'' @ [LF, LF]
    @ ''///|'' @ [LF] @ ''let vector_source : String ='' @ [LF] @ ''  #|5+wm'' @ [LF, LF]
    @ ''///|'' @ [LF] @ ''let map_source : String ='' @ [LF] @ ''  #|h'' @ [LF])"
  by code_simp

theorem wisp_check_after_write_witness:
  "fst (wisp_main demo_env True (snd (wisp_main demo_env False wisp_world))) = Inr ()"
  using wisp_check_after_write [OF wisp_demo] by (elim conjE)

end
