(* ===== verification/Spec2Isabelle.thy ===== *)
theory Spec2Isabelle
  imports Messages_File Command_Line Golden_Records Grammar_Fidelity Api_Audit Stdlib_Gen Wisp_Gen
begin

text \<open>
  A verification library for the Python tooling of wax-mb, a MoonBit port of the wax compiler.
  The Python code is the six files of \<open>src/tools\<close>.  It decides whether the port is right:
  \<open>waxdiff.py\<close> compares the port with the reference implementation on a corpus of programs,
  \<open>gen_parser_messages.py\<close> generates the table of the port's syntax errors,
  \<open>grammar_fidelity.py\<close> compares the two grammars, \<open>api_audit.py\<close> lists unused public names, and
  \<open>gen-stdlib-test.py\<close> and \<open>gen-wisp-runtime.py\<close> embed sources in generated MoonBit files.

  \<^bold>\<open>How the code is modelled.\<close>  A Python function without effects is a HOL function; one that can
  raise returns \<open>exn + 'a\<close> (\<open>Prelude\<close>), and a \<open>raise\<close>, a \<open>sys.exit\<close>, a failing index or key is a
  branch.  A function with effects is an operation \<open>'a io\<close> (\<open>World\<close>): from a world (the disk, and the
  module globals \<open>CORPUS\<close>, \<open>GOLDEN\<close>, \<open>SPAN_EXEMPT\<close>) to a value or an exception, and the next
  world.  The environment is a parameter: \<open>exec\<close> answers a command line (the reference, the
  implementation under test, \<open>wasm-tools\<close>, \<open>moonx\<close>, \<open>moon\<close>, \<open>errstate\<close>) with an exit code, two
  outputs and a changed disk; \<open>digest\<close> is SHA-256; \<open>temp_file\<close> and \<open>temp_dir\<close> choose names;
  \<open>walk\<close> lists the disk.  Nothing is assumed of them unless a theorem says so.
  \<open>difflib.unified_diff\<close>, the random generator (\<open>below\<close>) and \<open>argparse\<close> are parameters of the
  operations that use them.

  \<^bold>\<open>Foundations.\<close>  \<open>Prelude\<close>: exceptions, insertion-ordered dictionaries, groups, the rule
  collections.  \<open>Py_Text\<close>: the methods of \<open>str\<close> and \<open>bytes\<close> the tools call, decimal numbers, UTF-8.
  \<open>Lines\<close>: texts as lists of lines, for the generators.  \<open>Py_Regex\<close>: a backtracking matcher for the
  patterns of the sources, as the list of its successes, with a first-success code equation and the
  locale \<open>scanner\<close> of a \<open>finditer\<close> loop; \<open>Regex_Words\<close> says what the usual building blocks of a
  pattern match, in terms of the text.  \<open>Json\<close>: \<open>json.dumps\<close> and \<open>json.loads\<close> with their round
  trip.  \<open>Py_Repr\<close>: \<open>repr\<close> and padding.  \<open>Paths\<close>: the parts of a path, directory listings, and the
  rules for operations that only read.

  \<^bold>\<open>The message table\<close> (\<open>gen_parser_messages.py\<close>).  \<open>Message_Table\<close> models \<open>build\<close> and the
  generated \<open>lookup\<close>, joined by the locale \<open>message_table\<close>; its lemmas say which keys are filed and
  with what.  \<open>Messages\<close> reads the golden messages, labels and states, selects the entries and
  prints the arms; \<open>Reduce_Ids\<close> maps the reference's \<open>%on_error_reduce\<close> symbols to nonterminals, and
  shows which one the parser tables single out.
  \<open>Messages_File\<close> reads the tables off the parser \<open>moonyacc\<close> generates, writes the two files and is
  \<open>main\<close>; its lemmas read the files back.

  \<^bold>\<open>The differential harness\<close> (\<open>waxdiff.py\<close>).  \<open>Diagnostics\<close> models the diagnostics files;
  \<open>Oracles\<close> the policy, the index and the four oracles with the ladder below the hash, under the
  locale \<open>grader\<close> of the contract they share (one verdict each, recorded once); \<open>Golden\<close> the
  classification, the golden files and their index (\<open>golden\<close>, \<open>classify\<close>); \<open>Golden_Records\<close> what a
  whole \<open>golden\<close> run leaves on disk; \<open>Collect\<close> the four
  sources of the corpus under the locale \<open>corpus_source\<close>, and the manifest; \<open>Cram_Scope\<close> the
  selection of cram tests (\<open>classify-cram\<close>); \<open>Run_Report\<close> the \<open>run\<close> command with its outcomes,
  report files and exit code; \<open>Mutate\<close>, \<open>Grade\<close>, \<open>Minimize\<close> and \<open>Fuzz\<close> the fuzzing loop, with
  \<open>Hermetic\<close> for the files grading leaves alone;
  \<open>Adopt\<close> the adoption of a find; \<open>Arguments\<close> and \<open>Command_Line\<close> the options and the dispatch of
  \<open>main\<close>.  \<open>Demo_Project\<close> is a small project on which the properties are exercised.

  \<^bold>\<open>The other tools.\<close>  \<open>Grammar_Fidelity\<close> (\<open>grammar_fidelity.py\<close>, with the locale \<open>bracketed\<close> of the
  two scanners that drop nested text), \<open>Api_Audit\<close> (\<open>api_audit.py\<close>), \<open>Stdlib_Gen\<close>
  (\<open>gen-stdlib-test.py\<close>), \<open>Wisp_Gen\<close> (\<open>gen-wisp-runtime.py\<close>).

  \<^bold>\<open>What the properties show.\<close>  The message table answers every recorded sentence and never guesses,
  and the file that is written holds that table.  Each oracle gives one verdict and passes exactly
  on the agreement it is named for; the goldens are the reference's answers on every corpus file, and
  the reference passes against them; a run accounts for
  every file and its exit code follows from the gating oracles.  What is recorded (goldens, index,
  manifest) reads back, and the corpus manifest accounts for every file.  Shrinking terminates within
  its budget, keeps the failure and is minimal; grading restores the globals on every path; a fuzz run
  reports exactly the mutants that fail, as failing inputs that are on disk.  The API audit lists
  exactly the public names no other package writes.  The
  generators embed exactly the sources they read.  The command line only selects runs the commands
  are defined on.  Where the code does not do what it means to, a lemma exhibits it.

  \<^bold>\<open>Bounds.\<close>  A \<open>char\<close> is a code point below 256; higher code points are outside the model.  The disk
  holds files, a directory is there when a file under it is, and file names are compared as text.
  Thread pools are modelled by their result order, with at least one job.  Recursion is structural or
  has a measure, and no definition takes fuel; the minimizer's budget is the code's.  Tables of the
  generated parser hold no negative number.  The policy and the index entries are checked for the
  types of their fields when they are loaded, where the code fails when it comes to use them.

  \<^bold>\<open>Not modelled.\<close>  The parsing of words by \<open>argparse\<close>, the texts of its help, the progress lines of
  the fuzz command, and everything outside \<open>src/tools\<close>: the MoonBit port (\<open>lib\<close>, \<open>cli\<close>, \<open>wap\<close>,
  \<open>wisp\<close>), the reference and its checkout, which the tools only run or read.
\<close>

end
